(* ===== verification/Prelude.thy ===== *)
theory Prelude
  imports Main "HOL-Library.Word"
begin

text \<open>
  Shared ground of the development: the machine types of the Go source, the fragments of
  Go's standard library that several components use (slices and \<^verbatim>\<open>copy\<close>,
  \<^verbatim>\<open>encoding/binary\<close> in big-endian order, \<^verbatim>\<open>encoding/hex\<close>,
  \<^verbatim>\<open>strings.TrimSpace\<close>, decimal formatting, 64-bit integer arithmetic) and the
  generic list and map lemmas the component theories rely on. A Go \<^verbatim>\<open>[]byte\<close> is a
  list of 8-bit words, a Go \<^verbatim>\<open>string\<close> a list of characters (one character per byte),
  a Go \<^verbatim>\<open>int\<close> or \<^verbatim>\<open>int64\<close> a HOL integer whose arithmetic wraps through
  \<open>int64\<close> where overflow can be reached.
\<close>

unbundle bit_operations_syntax

named_theorems wire_len \<open>lengths of encodings and buffers\<close>
named_theorems wire_rt \<open>round trips of the elementary codecs\<close>

type_synonym byte = "8 word"
type_synonym bytes = "byte list"
type_synonym uint16 = "16 word"
type_synonym uint32 = "32 word"

text \<open>A run-time panic of Go is a value of its own, distinct from an \<^verbatim>\<open>error\<close> result.\<close>

datatype go_panic = SliceOutOfRange | IndexOutOfRange | DivideByZero

section \<open>Slices and copy\<close>

definition slice :: "nat \<Rightarrow> nat \<Rightarrow> 'a list \<Rightarrow> 'a list" where
  \<comment> \<open>\<^verbatim>\<open>xs[a:b]\<close> for \<open>a \<le> b \<le> len(xs)\<close>\<close>
  "slice a b xs = take (b - a) (drop a xs)"

definition go_copy :: "'a list \<Rightarrow> 'a list \<Rightarrow> 'a list" where
  \<comment> \<open>\<^verbatim>\<open>copy(dst, src)\<close>: the new contents of \<open>dst\<close>; its length never changes\<close>
  "go_copy dst src = take (length dst) src @ drop (length src) dst"

definition copy_at :: "nat \<Rightarrow> 'a list \<Rightarrow> 'a list \<Rightarrow> 'a list" where
  \<comment> \<open>\<^verbatim>\<open>copy(dst[off:], src)\<close> for \<open>off \<le> len(dst)\<close>\<close>
  "copy_at off dst src = take off dst @ go_copy (drop off dst) src"

lemma length_slice [simp, wire_len]: "length (slice a b xs) = min (b - a) (length xs - a)"
  by (simp add: slice_def min.commute)

lemma length_go_copy [simp, wire_len]: "length (go_copy dst src) = length dst"
  by (simp add: go_copy_def min_def)

lemma length_copy_at [simp, wire_len]: "length (copy_at off dst src) = length dst"
  by (simp add: copy_at_def)

lemma slice_0 [simp]: "slice 0 b xs = take b xs"
  by (simp add: slice_def)

lemma slice_append_left: "b \<le> length xs \<Longrightarrow> slice a b (xs @ ys) = slice a b xs"
  by (simp add: slice_def)

lemma slice_append_right:
  "length xs \<le> a \<Longrightarrow> slice a b (xs @ ys) = slice (a - length xs) (b - length xs) ys"
  by (simp add: slice_def)

lemma slice_exact: "length xs = a \<Longrightarrow> length ys = b - a \<Longrightarrow> slice a b (xs @ ys @ zs) = ys"
  by (simp add: slice_def)

lemma go_copy_fits: "length src \<le> length dst \<Longrightarrow> go_copy dst src = src @ drop (length src) dst"
  by (simp add: go_copy_def)

lemma go_copy_same [simp]: "length src = length dst \<Longrightarrow> go_copy dst src = src"
  by (simp add: go_copy_def)

lemma take_go_copy:
  "length src \<le> length dst \<Longrightarrow> take (length src) (go_copy dst src) = src"
  by (simp add: go_copy_def)

lemma take_go_copy_le [simp]:
  "n \<le> length src \<Longrightarrow> length src \<le> length dst \<Longrightarrow> take n (go_copy dst src) = take n src"
  by (simp add: go_copy_def)

lemma copy_at_append:
  "off = length pre \<Longrightarrow> length src \<le> length post \<Longrightarrow>
   copy_at off (pre @ post) src = pre @ src @ drop (length src) post"
  by (simp add: copy_at_def go_copy_def)

section \<open>Big-endian integers (encoding/binary)\<close>

definition put16 :: "uint16 \<Rightarrow> bytes" where
  "put16 w = [ucast (drop_bit 8 w), ucast w]"

definition put32 :: "uint32 \<Rightarrow> bytes" where
  "put32 w = [ucast (drop_bit 24 w), ucast (drop_bit 16 w), ucast (drop_bit 8 w), ucast w]"

text \<open>
  The readers look at the first two or four bytes of a slice. Every call site of the source
  passes a slice of at least that length; the remaining equations only make them total.
\<close>

fun get16 :: "bytes \<Rightarrow> uint16" where
  "get16 (a # b # _) = push_bit 8 (ucast a) OR ucast b"
| "get16 _ = 0"

fun get32 :: "bytes \<Rightarrow> uint32" where
  "get32 (a # b # c # d # _) =
     push_bit 24 (ucast a) OR push_bit 16 (ucast b) OR push_bit 8 (ucast c) OR ucast d"
| "get32 _ = 0"

lemma length_put16 [simp, wire_len]: "length (put16 w) = 2"
  by (simp add: put16_def)

lemma length_put32 [simp, wire_len]: "length (put32 w) = 4"
  by (simp add: put32_def)

lemma get16_put16 [simp, wire_rt]: "get16 (put16 w @ xs) = w"
  unfolding put16_def by (simp, rule bit_word_eqI) (auto simp: bit_simps)

lemma get32_put32 [simp, wire_rt]: "get32 (put32 w @ xs) = w"
proof (rule bit_word_eqI)
  fix n assume "n < LENGTH(32)"
  then consider "n < 8" | "8 \<le> n \<and> n < 16" | "16 \<le> n \<and> n < 24" | "24 \<le> n \<and> n < 32"
    by fastforce
  then show "bit (get32 (put32 w @ xs)) n = bit w n"
    by cases (auto simp: put32_def bit_simps)
qed

lemma get16_take [simp]: "2 \<le> n \<Longrightarrow> get16 (take n xs) = get16 xs"
proof -
  assume "2 \<le> n"
  then obtain m where n: "n = Suc (Suc m)"
    by (metis add_2_eq_Suc le_Suc_ex)
  show ?thesis by (cases "xs" rule: get16.cases) (simp_all add: n)
qed

lemma unat_of_nat16 [simp]: "n < 65536 \<Longrightarrow> unat (of_nat n :: uint16) = n"
  by (simp add: unat_of_nat)

lemma unat_of_nat8: "unat (of_nat n :: byte) = n mod 256"
  by (simp add: unat_of_nat)

lemma unat16_less: "unat (w :: uint16) < 65536"
  using unsigned_less [of w] by simp

lemma unat8_less: "unat (w :: byte) < 256"
  using unsigned_less [of w] by simp

section \<open>64-bit signed arithmetic\<close>

definition int64 :: "int \<Rightarrow> int" where
  \<comment> \<open>two's complement wrap-around of \<^verbatim>\<open>int64\<close> and of \<^verbatim>\<open>int\<close> on 64-bit targets\<close>
  "int64 x = (x + 2 ^ 63) mod 2 ^ 64 - 2 ^ 63"

definition in_int64 :: "int \<Rightarrow> bool" where
  "in_int64 x \<longleftrightarrow> - (2 ^ 63) \<le> x \<and> x < 2 ^ 63"

lemma int64_id: "in_int64 x \<Longrightarrow> int64 x = x"
  by (simp add: in_int64_def int64_def)

lemma in_int64_int64 [simp]: "in_int64 (int64 x)"
proof -
  have "0 \<le> (x + 2 ^ 63) mod 2 ^ 64" "(x + 2 ^ 63) mod 2 ^ 64 < 2 ^ 64"
    by (auto intro: pos_mod_sign pos_mod_bound)
  then show ?thesis unfolding in_int64_def int64_def by (intro conjI) (simp_all)
qed

section \<open>Strings, bytes, decimal and hexadecimal text\<close>

definition byte_of_char :: "char \<Rightarrow> byte" where
  "byte_of_char c = of_nat (of_char c)"

definition char_of_byte :: "byte \<Rightarrow> char" where
  "char_of_byte b = char_of (unat b)"

definition bytes_of :: "string \<Rightarrow> bytes" where
  \<comment> \<open>\<^verbatim>\<open>[]byte(s)\<close>\<close>
  "bytes_of s = map byte_of_char s"

definition string_of :: "bytes \<Rightarrow> string" where
  \<comment> \<open>\<^verbatim>\<open>string(bs)\<close>\<close>
  "string_of bs = map char_of_byte bs"

lemma char_of_byte_of_char [simp]: "char_of_byte (byte_of_char c) = c"
proof -
  have "(of_char c :: nat) < 256" by simp
  then have "unat (of_nat (of_char c) :: byte) = of_char c"
    by (simp add: unat_of_nat)
  then show ?thesis by (simp add: char_of_byte_def byte_of_char_def)
qed

lemma byte_of_char_of_byte [simp]: "byte_of_char (char_of_byte b) = b"
proof -
  have "of_char (char_of (unat b)) = unat b"
    using unat8_less [of b] by (simp add: of_char_of)
  then show ?thesis by (simp add: char_of_byte_def byte_of_char_def)
qed

lemma string_of_bytes_of [simp, wire_rt]: "string_of (bytes_of s) = s"
  by (simp add: string_of_def bytes_of_def comp_def)

lemma bytes_of_string_of [simp, wire_rt]: "bytes_of (string_of bs) = bs"
  by (simp add: string_of_def bytes_of_def comp_def)

lemma length_bytes_of [simp, wire_len]: "length (bytes_of s) = length s"
  by (simp add: bytes_of_def)

lemma length_string_of [simp, wire_len]: "length (string_of bs) = length bs"
  by (simp add: string_of_def)

lemma bytes_of_append [simp]: "bytes_of (s @ t) = bytes_of s @ bytes_of t"
  by (simp add: bytes_of_def)

lemma bytes_of_inject [simp]: "bytes_of s = bytes_of t \<longleftrightarrow> s = t"
  by (metis string_of_bytes_of)

subsection \<open>Decimal formatting (the verb d of fmt)\<close>

definition digit_char :: "nat \<Rightarrow> char" where
  "digit_char d = char_of (48 + d)"

fun dec_nat :: "nat \<Rightarrow> string" where
  "dec_nat n = (if n < 10 then [digit_char n] else dec_nat (n div 10) @ [digit_char (n mod 10)])"

declare dec_nat.simps [simp del]

definition dec_int :: "int \<Rightarrow> string" where
  "dec_int i = (if i < 0 then CHR ''-'' # dec_nat (nat (- i)) else dec_nat (nat i))"

definition dec_value :: "string \<Rightarrow> nat" where
  "dec_value = foldl (\<lambda>v c. 10 * v + (of_char c - 48)) 0"

lemma of_digit_char [simp]: "d < 10 \<Longrightarrow> of_char (digit_char d) = 48 + d"
  by (simp add: digit_char_def of_char_of)

lemma dec_value_dec_nat [simp, wire_rt]: "dec_value (dec_nat n) = n"
proof (induction n rule: dec_nat.induct)
  case (1 n)
  show ?case
  proof (cases "n < 10")
    case True
    then show ?thesis by (simp add: dec_nat.simps [of n] dec_value_def)
  next
    case False
    with "1.IH" have "dec_value (dec_nat (n div 10)) = n div 10" by simp
    with False show ?thesis
      by (simp add: dec_nat.simps [of n] dec_value_def)
  qed
qed

lemma dec_nat_inject [simp]: "dec_nat m = dec_nat n \<longleftrightarrow> m = n"
  by (metis dec_value_dec_nat)

lemma dec_nat_digits: "c \<in> set (dec_nat n) \<Longrightarrow> 48 \<le> (of_char c :: nat) \<and> (of_char c :: nat) \<le> 57"
proof (induction n rule: dec_nat.induct)
  case (1 n)
  show ?case
  proof (cases "n < 10")
    case True
    with "1.prems" show ?thesis by (simp add: dec_nat.simps [of n])
  next
    case False
    have d: "of_char (digit_char (n mod 10)) = 48 + n mod 10" by simp
    from False "1.prems" consider "c \<in> set (dec_nat (n div 10))" | "c = digit_char (n mod 10)"
      by (auto simp: dec_nat.simps [of n])
    then show ?thesis
    proof cases
      case 1
      with "1.IH" False show ?thesis by simp
    next
      case 2
      with d show ?thesis by simp
    qed
  qed
qed

subsection \<open>Hexadecimal text (encoding/hex)\<close>

definition hex_digit :: "nat \<Rightarrow> char" where
  "hex_digit d = (if d < 10 then char_of (48 + d) else char_of (87 + d))"

definition hex_byte :: "byte \<Rightarrow> string" where
  "hex_byte b = [hex_digit (unat b div 16), hex_digit (unat b mod 16)]"

definition hex_encode :: "bytes \<Rightarrow> string" where
  \<comment> \<open>\<^verbatim>\<open>hex.EncodeToString\<close>, also the verb x of fmt on a byte slice\<close>
  "hex_encode bs = concat (map hex_byte bs)"

definition from_hex :: "char \<Rightarrow> nat option" where
  "from_hex c = (let n = of_char c in
     if 48 \<le> n \<and> n \<le> 57 then Some (n - 48)
     else if 97 \<le> n \<and> n \<le> 102 then Some (n - 87)
     else if 65 \<le> n \<and> n \<le> 70 then Some (n - 55)
     else None)"

fun hex_decode :: "string \<Rightarrow> bytes option" where
  \<comment> \<open>\<^verbatim>\<open>hex.DecodeString\<close>; \<open>None\<close> is its error (a bad digit or an odd length)\<close>
  "hex_decode [] = Some []"
| "hex_decode [c] = None"
| "hex_decode (c # d # s) =
     (case from_hex c of None \<Rightarrow> None | Some h \<Rightarrow>
      (case from_hex d of None \<Rightarrow> None | Some l \<Rightarrow>
       (case hex_decode s of None \<Rightarrow> None | Some bs \<Rightarrow> Some (of_nat (16 * h + l) # bs))))"

lemma from_hex_digit [simp]: "d < 16 \<Longrightarrow> from_hex (hex_digit d) = Some d"
  by (auto simp: hex_digit_def from_hex_def Let_def of_char_of)

lemma length_hex_encode [simp, wire_len]: "length (hex_encode bs) = 2 * length bs"
  by (induction bs) (auto simp: hex_encode_def hex_byte_def)

lemma hex_decode_encode [simp, wire_rt]: "hex_decode (hex_encode bs) = Some bs"
proof (induction bs)
  case Nil
  then show ?case by (simp add: hex_encode_def)
next
  case (Cons b bs)
  have "unat b div 16 < 16" using unat8_less [of b] by simp
  moreover have "16 * (unat b div 16) + unat b mod 16 = unat b" by simp
  ultimately show ?case
    using Cons by (simp add: hex_encode_def hex_byte_def)
qed

lemma hex_encode_inject [simp]: "hex_encode xs = hex_encode ys \<longleftrightarrow> xs = ys"
  by (metis hex_decode_encode option.inject)

subsection \<open>Trimming white space (strings.TrimSpace)\<close>

text \<open>
  The UTF-8 encodings of the code points \<^verbatim>\<open>unicode.IsSpace\<close> accepts. An encoding is
  a prefix (suffix) of the text exactly when the first (last) rune decodes to that point.
\<close>

definition space_encodings :: "string list" where
  "space_encodings = map (map char_of)
     [[9 :: nat], [10], [11], [12], [13], [32], [194, 133], [194, 160], [225, 154, 128],
      [226, 128, 128], [226, 128, 129], [226, 128, 130], [226, 128, 131], [226, 128, 132],
      [226, 128, 133], [226, 128, 134], [226, 128, 135], [226, 128, 136], [226, 128, 137],
      [226, 128, 138], [226, 128, 168], [226, 128, 169], [226, 128, 175], [226, 129, 159],
      [227, 128, 128]]"

fun strip_prefix :: "string list \<Rightarrow> string \<Rightarrow> string option" where
  "strip_prefix [] s = None"
| "strip_prefix (p # ps) s =
     (if p \<noteq> [] \<and> take (length p) s = p then Some (drop (length p) s) else strip_prefix ps s)"

lemma strip_prefix_shorter: "strip_prefix ps s = Some t \<Longrightarrow> length t < length s"
proof (induction ps)
  case (Cons p ps)
  show ?case
  proof (cases "p \<noteq> [] \<and> take (length p) s = p")
    case True
    then have "s \<noteq> []" and "0 < length p" by auto
    with True Cons.prems show ?thesis by auto
  next
    case False
    with Cons show ?thesis by (simp split: if_splits)
  qed
qed simp

function trim_left :: "string list \<Rightarrow> string \<Rightarrow> string" where
  "trim_left ps s = (case strip_prefix ps s of None \<Rightarrow> s | Some t \<Rightarrow> trim_left ps t)"
  by pat_completeness auto
termination
  by (relation "measure (\<lambda>(ps, s). length s)") (auto dest: strip_prefix_shorter)

declare trim_left.simps [simp del]

definition TrimSpace :: "string \<Rightarrow> string" where
  "TrimSpace s = rev (trim_left (map rev space_encodings) (rev (trim_left space_encodings s)))"


lemma strip_prefix_None:
  "(\<And>p. p \<in> set ps \<Longrightarrow> p = [] \<or> hd p \<noteq> hd s) \<Longrightarrow> strip_prefix ps s = None"
proof (induction ps)
  case (Cons p ps)
  have "p = [] \<or> hd p \<noteq> hd s" using Cons.prems by simp
  then have "\<not> (p \<noteq> [] \<and> take (length p) s = p)"
    by (metis hd_take length_greater_0_conv)
  with Cons show ?case by simp
qed simp

definition space_byte :: "char \<Rightarrow> bool" where
  \<comment> \<open>characters that begin or end one of the white-space encodings\<close>
  "space_byte c \<longleftrightarrow> (\<exists>p \<in> set space_encodings. c = hd p \<or> c = last p)"

lemma TrimSpace_id:
  assumes "\<not> space_byte (hd s)" "\<not> space_byte (last s)"
  shows "TrimSpace s = s"
proof -
  have "strip_prefix space_encodings s = None"
    using assms(1) by (intro strip_prefix_None) (auto simp: space_byte_def)
  then have 1: "trim_left space_encodings s = s" by (simp add: trim_left.simps)
  have "strip_prefix (map rev space_encodings) (rev s) = None"
  proof (rule strip_prefix_None)
    fix p assume "p \<in> set (map rev space_encodings)"
    then obtain q where "q \<in> set space_encodings" "p = rev q" by auto
    then show "p = [] \<or> hd p \<noteq> hd (rev s)"
      using assms(2) by (auto simp: space_byte_def hd_rev)
  qed
  then show ?thesis using 1 by (simp add: TrimSpace_def trim_left.simps)
qed

lemma space_byte_code:
  "space_byte c \<longleftrightarrow> of_char c \<in> {9, 10, 11, 12, 13, 32, 194, 225, 226, 227, 128, 129, 130, 131, 132,
     133, 134, 135, 136, 137, 138, 159, 160, 168, 169, 175 :: nat}"
proof -
  have "c = char_of n \<longleftrightarrow> of_char c = n" if "n < 256" for n :: nat
    using that by auto
  then show ?thesis by (auto simp: space_byte_def space_encodings_def)
qed

lemma hex_digit_not_space: "d < 16 \<Longrightarrow> \<not> space_byte (hex_digit d)"
  by (auto simp: space_byte_code hex_digit_def)

lemma hex_encode_chars:
  "c \<in> set (hex_encode bs) \<Longrightarrow> \<exists>d < 16. c = hex_digit d"
proof -
  assume "c \<in> set (hex_encode bs)"
  then obtain b where "c \<in> set (hex_byte b)" by (auto simp: hex_encode_def)
  then have "c = hex_digit (unat b div 16) \<or> c = hex_digit (unat b mod 16)"
    by (simp add: hex_byte_def)
  moreover have "unat b div 16 < 16" "unat b mod 16 < 16" using unat8_less [of b] by simp_all
  ultimately show ?thesis by blast
qed

lemma TrimSpace_hex_encode [simp]: "bs \<noteq> [] \<Longrightarrow> TrimSpace (hex_encode bs) = hex_encode bs"
proof (rule TrimSpace_id)
  assume "bs \<noteq> []"
  then have ne: "hex_encode bs \<noteq> []" using length_hex_encode [of bs] by (cases bs) fastforce+
  show "\<not> space_byte (hd (hex_encode bs))"
    using hex_encode_chars [OF hd_in_set [OF ne]] hex_digit_not_space by auto
  show "\<not> space_byte (last (hex_encode bs))"
    using hex_encode_chars [OF last_in_set [OF ne]] hex_digit_not_space by auto
qed

section \<open>Addresses\<close>

definition JoinHostPort :: "string \<Rightarrow> string \<Rightarrow> string" where
  \<comment> \<open>\<^verbatim>\<open>net.JoinHostPort\<close>\<close>
  "JoinHostPort host port =
     (if CHR '':'' \<in> set host then ''['' @ host @ '']:'' @ port else host @ '':'' @ port)"

end
