(* ===== verification/Cell.thy ===== *)
theory Cell
  imports Prelude
begin

text \<open>
  The wire format of \<^verbatim>\<open>src/common/cell.go\<close>: the cell type, padding targets,
  \<^verbatim>\<open>MarshalCell\<close>, \<^verbatim>\<open>UnmarshalCell\<close>, \<^verbatim>\<open>ReadCell\<close> and
  \<^verbatim>\<open>WriteCell\<close>. Random bytes are arguments: \<open>r\<close> is the byte \<^verbatim>\<open>randByte\<close>
  draws and \<open>rnd\<close> the tape \<^verbatim>\<open>rand.Read\<close> fills the padding from. The reader behind
  \<^verbatim>\<open>ReadCell\<close> is an \<^verbatim>\<open>io.Reader\<close>; the locale \<open>byte_reader\<close> states what
  \<^verbatim>\<open>io.ReadFull\<close> promises over it, and every framing theorem is proved once there.
\<close>

section \<open>Constants and data\<close>

definition CellSize :: nat where
  "CellSize = 512"

definition CellHdrSize :: nat where
  "CellHdrSize = 7"

definition CellBodyMax :: nat where
  "CellBodyMax = CellSize - CellHdrSize"

definition FrameLenSize :: nat where
  "FrameLenSize = 2"

definition MaxFrameLen :: nat where
  "MaxFrameLen = 4096"

definition padBuckets :: "nat list" where
  "padBuckets = [128, 256, 512, 768, 1024, 1280]"

lemma cell_consts [simp]:
  "CellHdrSize = 7" "CellBodyMax = 505" "FrameLenSize = 2" "MaxFrameLen = 4096"
  by (simp_all add: CellHdrSize_def CellBodyMax_def CellSize_def FrameLenSize_def MaxFrameLen_def)

type_synonym CellCmd = byte

definition CmdCreate :: CellCmd where "CmdCreate = 1"
definition CmdCreated :: CellCmd where "CmdCreated = 2"
definition CmdExtend :: CellCmd where "CmdExtend = 3"
definition CmdExtended :: CellCmd where "CmdExtended = 4"
definition CmdRelay :: CellCmd where "CmdRelay = 5"
definition CmdDestroy :: CellCmd where "CmdDestroy = 6"
definition CmdPing :: CellCmd where "CmdPing = 7"
definition CmdPong :: CellCmd where "CmdPong = 8"
definition CmdFragment :: CellCmd where "CmdFragment = 9"
definition CmdFragFinal :: CellCmd where "CmdFragFinal = 10"
definition CmdHidden :: CellCmd where "CmdHidden = 11"
definition CmdRelayDone :: CellCmd where "CmdRelayDone = 12"

lemmas cmd_defs = CmdCreate_def CmdCreated_def CmdExtend_def CmdExtended_def CmdRelay_def
  CmdDestroy_def CmdPing_def CmdPong_def CmdFragment_def CmdFragFinal_def CmdHidden_def
  CmdRelayDone_def

record Cell =
  CircID :: uint32
  Command :: CellCmd
  Length :: uint16
  Body :: bytes

text \<open>
  A composite literal \<^verbatim>\<open>Cell{CircID: \<dots>, Command: \<dots>, Length: \<dots>}\<close> followed by
  \<^verbatim>\<open>copy(c.Body[:], src)\<close>, the way every component builds a cell; omitted fields and
  the rest of the array are zero.
\<close>

definition mkCell :: "uint32 \<Rightarrow> CellCmd \<Rightarrow> nat \<Rightarrow> bytes \<Rightarrow> Cell" where
  "mkCell cid cmd n src =
     \<lparr>CircID = cid, Command = cmd, Length = of_nat n, Body = go_copy (replicate CellBodyMax 0) src\<rparr>"

definition cell_data :: "Cell \<Rightarrow> bytes" where
  \<comment> \<open>\<^verbatim>\<open>c.Body[:c.Length]\<close>\<close>
  "cell_data c = take (unat (Length c)) (Body c)"

definition wf_cell :: "Cell \<Rightarrow> bool" where
  \<comment> \<open>\<open>Body\<close> is the 505-byte array and \<open>Length\<close> stays inside it\<close>
  "wf_cell c \<longleftrightarrow> length (Body c) = CellBodyMax \<and> unat (Length c) \<le> CellBodyMax"

definition canon_cell :: "Cell \<Rightarrow> Cell" where
  \<comment> \<open>what a receiver can see of a cell: its header and the first \<open>Length\<close> body bytes\<close>
  "canon_cell c = mkCell (CircID c) (Command c) (min (unat (Length c)) CellBodyMax)
     (take (min (unat (Length c)) CellBodyMax) (Body c))"

section \<open>Padding\<close>

fun first_fit :: "nat \<Rightarrow> nat list \<Rightarrow> nat" where
  \<comment> \<open>the search loop of \<^verbatim>\<open>pickPadTarget\<close>: index of the first bucket that fits\<close>
  "first_fit m [] = 0"
| "first_fit m (b # bs) = (if b \<ge> m then 0 else Suc (first_fit m bs))"

definition pickPadTarget :: "byte \<Rightarrow> nat \<Rightarrow> nat" where
  "pickPadTarget r meaningful =
     (let first = first_fit meaningful padBuckets in
      if first \<ge> length padBuckets then meaningful
      else let choices = length padBuckets - first;
               j = first + unat r mod choices
           in padBuckets ! j)"

section \<open>Serialisation\<close>

definition MarshalCell :: "byte \<Rightarrow> (nat \<Rightarrow> byte) \<Rightarrow> Cell \<Rightarrow> bytes" where
  "MarshalCell r rnd c =
     (let n = (if unat (Length c) > CellBodyMax then CellBodyMax else unat (Length c));
          meaningful = CellHdrSize + n;
          target0 = pickPadTarget r meaningful;
          target = (if target0 > MaxFrameLen then MaxFrameLen else target0);
          frame0 = replicate target 0;
          frame1 = copy_at 0 frame0 (put32 (CircID c));
          frame2 = frame1[4 := Command c];
          frame3 = copy_at 5 frame2 (put16 (of_nat n));
          frame4 = copy_at CellHdrSize frame3 (take n (Body c));
          frame5 = (if target > meaningful
                    then copy_at meaningful frame4 (map rnd [0..<target - meaningful])
                    else frame4)
      in put16 (of_nat target) @ frame5)"

datatype cell_error =
    CellTooShort nat
  | CellLengthExceeds nat nat
  | InvalidFrameLength nat
  | ReadEOF
  | ReadUnexpectedEOF
  | ReadFailed

definition UnmarshalCell :: "bytes \<Rightarrow> cell_error + Cell" where
  "UnmarshalCell data =
     (if length data < CellHdrSize then Inl (CellTooShort (length data))
      else let l0 = get16 (slice 5 7 data);
               l = (if unat l0 > CellBodyMax then of_nat CellBodyMax else l0);
               avail = length data - CellHdrSize
           in if unat l > avail then Inl (CellLengthExceeds (unat l) avail)
              else Inr \<lparr>CircID = get32 (slice 0 4 data), Command = data ! 4, Length = l,
                        Body = go_copy (replicate CellBodyMax 0)
                                 (slice CellHdrSize (CellHdrSize + unat l) data)\<rparr>)"

text \<open>
  \<^verbatim>\<open>ReadCell\<close> over a reader with state \<open>'s\<close>; \<open>readFull n\<close> is
  \<^verbatim>\<open>io.ReadFull\<close> into a buffer of \<open>n\<close> bytes.
\<close>

type_synonym 's read_full = "nat \<Rightarrow> 's \<Rightarrow> (cell_error + bytes) \<times> 's"

definition ReadCell :: "'s read_full \<Rightarrow> 's \<Rightarrow> (cell_error + Cell) \<times> 's" where
  "ReadCell readFull s =
     (case readFull FrameLenSize s of
        (Inl e, s1) \<Rightarrow> (Inl e, s1)
      | (Inr lenBuf, s1) \<Rightarrow>
          let frameLen = unat (get16 lenBuf) in
          if frameLen < CellHdrSize \<or> frameLen > MaxFrameLen
          then (Inl (InvalidFrameLength frameLen), s1)
          else (case readFull frameLen s1 of
                  (Inl e, s2) \<Rightarrow> (Inl e, s2)
                | (Inr buf, s2) \<Rightarrow> (UnmarshalCell buf, s2)))"

definition WriteCell :: "(bytes \<Rightarrow> 's \<Rightarrow> 'e option \<times> 's) \<Rightarrow> byte \<Rightarrow> (nat \<Rightarrow> byte) \<Rightarrow> 's \<Rightarrow> Cell \<Rightarrow> 'e option \<times> 's" where
  "WriteCell write r rnd s c = write (MarshalCell r rnd c) s"

text \<open>The receive loops of the source: read cells until the first error.\<close>

fun read_cells :: "nat \<Rightarrow> 's read_full \<Rightarrow> 's \<Rightarrow> Cell list \<times> cell_error option \<times> 's" where
  "read_cells 0 readFull s = ([], None, s)"
| "read_cells (Suc fuel) readFull s =
     (case ReadCell readFull s of
        (Inl e, s') \<Rightarrow> ([], Some e, s')
      | (Inr c, s') \<Rightarrow>
          (case read_cells fuel readFull s' of (cs, e, s'') \<Rightarrow> (c # cs, e, s'')))"

text \<open>\<^verbatim>\<open>io.ReadFull\<close> on a TCP connection that delivers \<open>bs\<close> and is then closed.\<close>

definition tcp_readFull :: "bytes read_full" where
  "tcp_readFull n bs =
     (if n \<le> length bs then (Inr (take n bs), drop n bs)
      else (Inl (if bs = [] then ReadEOF else ReadUnexpectedEOF), []))"

definition tcp_write :: "bytes \<Rightarrow> bytes \<Rightarrow> cell_error option \<times> bytes" where
  "tcp_write out bs = (None, bs @ out)"

section \<open>Padding targets\<close>

lemma first_fit_le: "first_fit m bs \<le> length bs"
  by (induction bs) auto

lemma first_fit_less: "b \<in> set bs \<Longrightarrow> m \<le> b \<Longrightarrow> first_fit m bs < length bs"
  by (induction bs) auto

lemma first_fit_fits: "first_fit m bs < length bs \<Longrightarrow> m \<le> bs ! first_fit m bs"
  by (induction bs) auto

lemma first_fit_minimal: "i < first_fit m bs \<Longrightarrow> bs ! i < m"
  by (induction bs arbitrary: i) (auto split: if_splits simp: nth_Cons')

lemma sorted_padBuckets: "sorted padBuckets"
  by (simp add: padBuckets_def)

lemma length_padBuckets [simp]: "length padBuckets = 6"
  by (simp add: padBuckets_def)

lemma pickPadTarget_cases:
  obtains "first_fit m padBuckets = 6" "pickPadTarget r m = m"
  | j where "first_fit m padBuckets \<le> j" "j < 6" "pickPadTarget r m = padBuckets ! j"
proof (cases "first_fit m padBuckets \<ge> 6")
  case True
  then show ?thesis using that(1) first_fit_le [of m padBuckets]
    by (simp add: pickPadTarget_def)
next
  case False
  let ?f = "first_fit m padBuckets"
  have "unat r mod (6 - ?f) < 6 - ?f" using False by simp
  then have "?f + unat r mod (6 - ?f) < 6" by linarith
  then show ?thesis
    using that(2) [of "?f + unat r mod (6 - ?f)"] False by (simp add: pickPadTarget_def Let_def)
qed

lemma pickPadTarget_ge: "m \<le> pickPadTarget r m"
proof (cases rule: pickPadTarget_cases [of m r])
  case (2 j)
  then have "first_fit m padBuckets < length padBuckets" by simp
  then have "m \<le> padBuckets ! first_fit m padBuckets" by (rule first_fit_fits)
  also have "\<dots> \<le> padBuckets ! j" using 2 sorted_padBuckets by (simp add: sorted_nth_mono)
  finally show ?thesis using 2 by simp
qed simp

lemma pickPadTarget_bucket:
  assumes "m \<le> 1280"
  shows "pickPadTarget r m \<in> set padBuckets"
proof (cases rule: pickPadTarget_cases [of m r])
  case 1
  have "first_fit m padBuckets < length padBuckets"
    using assms by (intro first_fit_less [where b = 1280]) (simp_all add: padBuckets_def)
  with 1 show ?thesis by simp
next
  case (2 j)
  then show ?thesis by simp
qed

lemma padBuckets_bound: "t \<in> set padBuckets \<Longrightarrow> 128 \<le> t \<and> t \<le> 1280"
  by (auto simp: padBuckets_def)


section \<open>Framing\<close>

definition body_len :: "Cell \<Rightarrow> nat" where
  "body_len c = min (unat (Length c)) CellBodyMax"

definition frame_len :: "byte \<Rightarrow> Cell \<Rightarrow> nat" where
  "frame_len r c = pickPadTarget r (CellHdrSize + body_len c)"

lemma body_len_le [simp]: "body_len c \<le> 505" "\<not> 505 < body_len c"
  by (simp_all add: body_len_def)

lemma unat_body_len [simp]: "unat (of_nat (body_len c) :: uint16) = body_len c"
  using body_len_le(1) [of c] by (intro unat_of_nat16) linarith

lemma frame_len_ge: "7 + body_len c \<le> frame_len r c"
  using pickPadTarget_ge [of "7 + body_len c" r] by (simp add: frame_len_def)

lemma frame_len_bucket: "frame_len r c \<in> set padBuckets"
proof -
  have "7 + body_len c \<le> 1280" using body_len_le(1) [of c] by linarith
  then show ?thesis by (simp add: frame_len_def pickPadTarget_bucket)
qed

lemma frame_len_le: "frame_len r c \<le> 1280"
  using padBuckets_bound [OF frame_len_bucket] by simp

text \<open>The in-place construction of the buffer is the concatenation of the fields.\<close>

lemma frame_layout:
  assumes "7 + n \<le> t" "length hdr4 = 4" "length len2 = 2" "length body = n"
  shows "copy_at 7 (copy_at 5 ((copy_at 0 (replicate t 0) hdr4)[4 := cmd]) len2) body =
         hdr4 @ [cmd] @ len2 @ body @ replicate (t - (7 + n)) 0"
proof -
  have 1: "copy_at 0 (replicate t 0) hdr4 = hdr4 @ 0 # replicate (t - 5) 0"
  proof -
    have "copy_at 0 (replicate t 0) hdr4 = hdr4 @ replicate (t - 4) 0"
      using assms copy_at_append [of 0 "[]" hdr4 "replicate t 0"] by simp
    moreover have "t - 4 = Suc (t - 5)" using assms by linarith
    ultimately show ?thesis by simp
  qed
  have 2: "(hdr4 @ 0 # replicate (t - 5) 0)[4 := cmd] = (hdr4 @ [cmd]) @ replicate (t - 5) 0"
    using assms by (simp add: list_update_append)
  have 3: "copy_at 5 ((hdr4 @ [cmd]) @ replicate (t - 5) 0) len2 =
           (hdr4 @ [cmd] @ len2) @ replicate (t - 7) 0"
    using assms by (subst copy_at_append) simp_all
  have 4: "copy_at 7 ((hdr4 @ [cmd] @ len2) @ replicate (t - 7) 0) body =
           hdr4 @ [cmd] @ len2 @ body @ replicate (t - (7 + n)) 0"
    using assms by (subst copy_at_append) simp_all
  show ?thesis by (simp only: 1 2 3 4)
qed


lemma MarshalCell_layout:
  assumes "length (Body c) = CellBodyMax"
  shows "MarshalCell r rnd c =
     put16 (of_nat (frame_len r c)) @ put32 (CircID c) @ [Command c] @
     put16 (of_nat (body_len c)) @ take (body_len c) (Body c) @
     map rnd [0..<frame_len r c - (7 + body_len c)]"
proof -
  let ?n = "body_len c" and ?t = "frame_len r c"
  let ?pre = "put32 (CircID c) @ [Command c] @ put16 (of_nat ?n) @ take ?n (Body c)"
  have n: "(if unat (Length c) > 505 then 505 else unat (Length c)) = ?n"
    by (simp add: body_len_def)
  have t: "(if pickPadTarget r (7 + ?n) > 4096 then 4096 else pickPadTarget r (7 + ?n)) = ?t"
    using frame_len_le [of r c] by (simp add: frame_len_def)
  have len: "length (take ?n (Body c)) = ?n"
    using assms body_len_le(1) [of c] by simp
  have lay: "copy_at 7 (copy_at 5 ((copy_at 0 (replicate ?t 0) (put32 (CircID c)))[4 := Command c])
               (put16 (of_nat ?n))) (take ?n (Body c)) = ?pre @ replicate (?t - (7 + ?n)) 0"
    using frame_layout [OF frame_len_ge _ _ len] by simp
  have pad: "copy_at (7 + ?n) (?pre @ replicate (?t - (7 + ?n)) 0) (map rnd [0..<?t - (7 + ?n)]) =
             ?pre @ map rnd [0..<?t - (7 + ?n)]"
    using len by (subst copy_at_append) simp_all
  show ?thesis
    unfolding MarshalCell_def Let_def cell_consts n t lay pad
    by (cases "7 + ?n < ?t") simp_all
qed

lemma length_MarshalCell:
  "length (Body c) = CellBodyMax \<Longrightarrow> length (MarshalCell r rnd c) = 2 + frame_len r c"
  using frame_len_ge [of c r] by (simp add: MarshalCell_layout)

lemma canon_cell_alt:
  "canon_cell c = \<lparr>CircID = CircID c, Command = Command c, Length = of_nat (body_len c),
     Body = go_copy (replicate CellBodyMax 0) (take (body_len c) (Body c))\<rparr>"
  by (simp add: canon_cell_def mkCell_def body_len_def)

lemma wf_canon_cell [simp]: "wf_cell (canon_cell c)"
  using body_len_le(1) [of c] by (simp add: canon_cell_alt wf_cell_def)

lemma wf_mkCell: "n \<le> CellBodyMax \<Longrightarrow> wf_cell (mkCell cid cmd n src)"
  by (simp add: wf_cell_def mkCell_def)

lemma mkCell_sel [simp]:
  "CircID (mkCell cid cmd n src) = cid" "Command (mkCell cid cmd n src) = cmd"
  "Length (mkCell cid cmd n src) = of_nat n" "length (Body (mkCell cid cmd n src)) = 505"
  by (simp_all add: mkCell_def)

lemma cell_data_mkCell [simp]:
  "length src \<le> CellBodyMax \<Longrightarrow> cell_data (mkCell cid cmd (length src) src) = src"
  by (simp add: cell_data_def mkCell_def)

lemma canon_mkCell [simp]:
  "length src \<le> CellBodyMax \<Longrightarrow>
   canon_cell (mkCell cid cmd (length src) src) = mkCell cid cmd (length src) src"
  by (simp add: canon_cell_def mkCell_def)

text \<open>Parsing ignores the padding and recovers the header and the used part of the body.\<close>

lemma UnmarshalCell_frame:
  assumes "length (Body c) = CellBodyMax"
  shows "UnmarshalCell (put32 (CircID c) @ [Command c] @ put16 (of_nat (body_len c)) @
           take (body_len c) (Body c) @ pad) = Inr (canon_cell c)"
proof -
  let ?n = "body_len c"
  let ?d = "put32 (CircID c) @ [Command c] @ put16 (of_nat ?n) @ take ?n (Body c) @ pad"
  have len: "length (take ?n (Body c)) = ?n"
    using assms body_len_le(1) [of c] by simp
  have l: "get16 (slice 5 7 ?d) = of_nat ?n"
    using slice_exact [of "put32 (CircID c) @ [Command c]" 5 "put16 (of_nat ?n)" 7] get16_put16 [of _ "[]"]
    by simp
  have c: "get32 (slice 0 4 ?d) = CircID c"
    using get32_put32 [of _ "[]"] by simp
  have b: "slice 7 (7 + ?n) ?d = take ?n (Body c)"
    using slice_exact [of "put32 (CircID c) @ [Command c] @ put16 (of_nat ?n)" 7 "take ?n (Body c)" "7 + ?n"] len
    by simp
  have cmd: "?d ! 4 = Command c"
    by (simp add: nth_append)
  show ?thesis
    using len b c cmd l body_len_le(1) [of c]
    by (simp add: UnmarshalCell_def Let_def canon_cell_alt)
qed

lemma UnmarshalCell_wf: "UnmarshalCell data = Inr c \<Longrightarrow> wf_cell c"
  by (auto simp: UnmarshalCell_def wf_cell_def Let_def split: if_splits)

lemma UnmarshalCell_canon: "UnmarshalCell data = Inr c \<Longrightarrow> canon_cell c = c"
  by (auto simp: UnmarshalCell_def canon_cell_def mkCell_def Let_def min_def split: if_splits)

section \<open>Readers\<close>

text \<open>
  What \<^verbatim>\<open>ReadCell\<close> relies on: a reader is a byte stream \<open>view s\<close>;
  \<^verbatim>\<open>io.ReadFull\<close> hands over its next \<open>n\<close> bytes when there are that many and fails
  otherwise.
\<close>

locale byte_reader =
  fixes readFull :: "'s read_full"
    and view :: "'s \<Rightarrow> bytes"
  assumes read_ok: "n \<le> length (view s) \<Longrightarrow>
      \<exists>s'. readFull n s = (Inr (take n (view s)), s') \<and> view s' = drop n (view s)"
    and read_short: "length (view s) < n \<Longrightarrow> \<exists>e s'. readFull n s = (Inl e, s')"
begin

lemma ReadCell_frame:
  assumes v: "view s = put16 (of_nat t) @ frame @ rest"
    and t: "length frame = t" "7 \<le> t" "t \<le> 4096"
  shows "\<exists>s'. ReadCell readFull s = (UnmarshalCell frame, s') \<and> view s' = rest"
proof -
  from read_ok [of 2 s] v obtain s1 where
    1: "readFull 2 s = (Inr (put16 (of_nat t)), s1)" "view s1 = frame @ rest" by auto
  have t': "unat (get16 (put16 (of_nat t))) = t"
    using get16_put16 [of "of_nat t" "[]"] t by simp
  from read_ok [of t s1] 1 t obtain s2 where
    2: "readFull t s1 = (Inr frame, s2)" "view s2 = rest" by auto
  from 1 2 t' t show ?thesis by (simp add: ReadCell_def Let_def)
qed

lemma ReadCell_MarshalCell:
  assumes "length (Body c) = CellBodyMax" "view s = MarshalCell r rnd c @ rest"
  shows "\<exists>s'. ReadCell readFull s = (Inr (canon_cell c), s') \<and> view s' = rest"
proof -
  let ?frame = "put32 (CircID c) @ [Command c] @ put16 (of_nat (body_len c)) @
     take (body_len c) (Body c) @ map rnd [0..<frame_len r c - (7 + body_len c)]"
  have "view s = put16 (of_nat (frame_len r c)) @ ?frame @ rest"
    using assms by (simp add: MarshalCell_layout)
  moreover have "length ?frame = frame_len r c"
    using assms frame_len_ge [of c r] body_len_le(1) [of c] by simp
  moreover have "7 \<le> frame_len r c" "frame_len r c \<le> 4096"
    using frame_len_ge [of c r] frame_len_le [of r c] by linarith+
  ultimately show ?thesis
    using ReadCell_frame [of s _ ?frame] UnmarshalCell_frame [OF assms(1)] by metis
qed

lemma ReadCell_empty: "view s = [] \<Longrightarrow> \<exists>e s'. ReadCell readFull s = (Inl e, s')"
  using read_short [of s 2] by (auto simp: ReadCell_def)

lemma ReadCell_result_wf: "ReadCell readFull s = (Inr c, s') \<Longrightarrow> wf_cell c"
  by (auto simp: ReadCell_def Let_def split: prod.splits sum.splits if_splits
      dest: UnmarshalCell_wf)

lemma ReadCell_consumes:
  assumes "ReadCell readFull s = (Inr c, s')"
  shows "\<exists>t. 7 \<le> t \<and> t \<le> 4096 \<and> 2 + t \<le> length (view s) \<and> view s' = drop (2 + t) (view s)"
proof -
  have long: "2 \<le> length (view s)"
  proof (rule ccontr)
    assume "\<not> ?thesis"
    with read_short [of s 2] obtain e s1 where "readFull 2 s = (Inl e, s1)" by auto
    with assms show False by (simp add: ReadCell_def)
  qed
  then obtain s1 where 1: "readFull 2 s = (Inr (take 2 (view s)), s1)" "view s1 = drop 2 (view s)"
    using read_ok by blast
  let ?t = "unat (get16 (take 2 (view s)))"
  from assms 1 have t: "7 \<le> ?t" "?t \<le> 4096"
    by (auto simp: ReadCell_def Let_def split: if_splits)
  have "?t \<le> length (view s1)"
  proof (rule ccontr)
    assume "\<not> ?thesis"
    then obtain e s2 where "readFull ?t s1 = (Inl e, s2)" using read_short [of s1 ?t] by auto
    with assms 1 t show False by (simp add: ReadCell_def Let_def)
  qed
  with read_ok [of ?t s1] obtain s2 where
    2: "readFull ?t s1 = (Inr (take ?t (view s1)), s2)" "view s2 = drop ?t (view s1)" by blast
  from assms 1 2 t have "s' = s2" by (simp add: ReadCell_def Let_def)
  with 1 2 t \<open>?t \<le> length (view s1)\<close> long show ?thesis
    by (intro exI [of _ ?t]) auto
qed

lemma read_cells_all:
  assumes "\<forall>(r, rnd, c) \<in> set ms. length (Body c) = CellBodyMax"
    and "view s = concat (map (\<lambda>(r, rnd, c). MarshalCell r rnd c) ms)"
    and "length ms < fuel"
  shows "\<exists>e s'. read_cells fuel readFull s = (map (\<lambda>(r, rnd, c). canon_cell c) ms, Some e, s')"
  using assms
proof (induction ms arbitrary: s fuel)
  case Nil
  then obtain k where "fuel = Suc k" by (cases fuel) auto
  with Nil ReadCell_empty [of s] show ?case by auto
next
  case (Cons m ms)
  obtain r rnd c where m: "m = (r, rnd, c)" by (cases m)
  obtain k where k: "fuel = Suc k" "length ms < k" using Cons.prems(3) by (cases fuel) auto
  have "view s = MarshalCell r rnd c @ concat (map (\<lambda>(r, rnd, c). MarshalCell r rnd c) ms)"
    using Cons.prems(2) m by simp
  then obtain s' where s': "ReadCell readFull s = (Inr (canon_cell c), s')"
    "view s' = concat (map (\<lambda>(r, rnd, c). MarshalCell r rnd c) ms)"
    using ReadCell_MarshalCell Cons.prems(1) m by force
  from Cons.IH [OF _ s'(2) k(2)] Cons.prems(1) s'(1) k(1) m show ?case by auto
qed

end

interpretation tcp: byte_reader tcp_readFull "\<lambda>bs. bs"
  by unfold_locales (auto simp: tcp_readFull_def)


section \<open>The cell codec on a TCP stream\<close>

text \<open>
  C21: A cell written by MarshalCell is read back by ReadCell from any TCP stream that starts
  with the frame, whatever padding was drawn: the header and the Length meaningful body bytes
  survive, the padding is dropped, and exactly the frame is consumed.
\<close>

theorem read_marshal_roundtrip:
  assumes "wf_cell c"
  shows "\<exists>c'. ReadCell tcp_readFull (MarshalCell r rnd c @ rest) = (Inr c', rest) \<and>
     CircID c' = CircID c \<and> Command c' = Command c \<and> Length c' = Length c \<and>
     cell_data c' = cell_data c \<and> wf_cell c'"
proof -
  have "body_len c = unat (Length c)" "length (Body c) = 505"
    using assms by (simp_all add: wf_cell_def body_len_def)
  moreover from this(2) have
    "ReadCell tcp_readFull (MarshalCell r rnd c @ rest) = (Inr (canon_cell c), rest)"
    using tcp.ReadCell_MarshalCell [of c "MarshalCell r rnd c @ rest" r rnd rest] by simp
  moreover have "unat (Length c) \<le> 505" using assms by (simp add: wf_cell_def)
  ultimately show ?thesis
    by (intro exI [of _ "canon_cell c"]) (simp add: canon_cell_alt cell_data_def wf_cell_def)
qed

theorem read_marshal_roundtrip_witness:
  "wf_cell (mkCell 7 CmdPing 3 [1, 2, 3]) \<and>
   (\<exists>c'. ReadCell tcp_readFull (MarshalCell 200 (\<lambda>_. 9) (mkCell 7 CmdPing 3 [1, 2, 3]) @ [5]) =
      (Inr c', [5]) \<and> cell_data c' = [1, 2, 3])"
proof -
  have wf: "wf_cell (mkCell 7 CmdPing 3 [1, 2, 3])" by (rule wf_mkCell) simp
  have "cell_data (mkCell 7 CmdPing 3 [1, 2, 3]) = [1, 2, 3]"
    using cell_data_mkCell [of "[1, 2, 3]" 7 CmdPing] by (simp add: numeral_3_eq_3)
  with wf read_marshal_roundtrip [OF wf, of 200 "\<lambda>_. 9" "[5]"] show ?thesis by metis
qed

text \<open>
  The receive loops recover a whole conversation: reading a stream that is the
  concatenation of any number of marshalled cells (each with its own padding) yields exactly
  those cells in order, and stops with an error only when the stream is exhausted.
\<close>

theorem read_cells_stream:
  assumes "\<forall>(r, rnd, c) \<in> set ms. length (Body c) = CellBodyMax"
  shows "\<exists>e s'. read_cells (Suc (length ms)) tcp_readFull
     (concat (map (\<lambda>(r, rnd, c). MarshalCell r rnd c) ms)) =
     (map (\<lambda>(r, rnd, c). canon_cell c) ms, Some e, s')"
  by (rule tcp.read_cells_all [OF assms]) simp_all

theorem read_cells_stream_witness:
  "\<exists>ms e s'. length (ms :: (byte \<times> (nat \<Rightarrow> byte) \<times> Cell) list) = 2 \<and>
     read_cells (Suc (length ms)) tcp_readFull (concat (map (\<lambda>(r, rnd, c). MarshalCell r rnd c) ms)) =
     (map (\<lambda>(r, rnd, c). canon_cell c) ms, Some e, s')"
proof -
  let ?ms = "[(1, \<lambda>_. 0, mkCell 1 CmdPing 0 []), (77, \<lambda>_. 255, mkCell 2 CmdDestroy 0 [])]
    :: (byte \<times> (nat \<Rightarrow> byte) \<times> Cell) list"
  have "\<forall>(r, rnd, c) \<in> set ?ms. length (Body c) = CellBodyMax" by simp
  from read_cells_stream [OF this] have "\<exists>e s'. read_cells (Suc (length ?ms)) tcp_readFull
     (concat (map (\<lambda>(r, rnd, c). MarshalCell r rnd c) ?ms)) =
     (map (\<lambda>(r, rnd, c). canon_cell c) ?ms, Some e, s')" .
  moreover have "length ?ms = 2" by simp
  ultimately show ?thesis by blast
qed

text \<open>
  C22: Whatever bytes a peer sends, ReadCell either fails or returns a well-formed cell, and
  then it has consumed between 9 and 4098 bytes: a hostile length prefix can neither make it
  allocate more than MaxFrameLen nor leave Length outside the body array.
\<close>

theorem read_cell_hostile_input:
  "case ReadCell tcp_readFull bs of
     (Inl e, _) \<Rightarrow> True
   | (Inr c, rest) \<Rightarrow> wf_cell c \<and> canon_cell c = c \<and>
       (\<exists>t. 7 \<le> t \<and> t \<le> MaxFrameLen \<and> 2 + t \<le> length bs \<and> rest = drop (2 + t) bs)"
proof (cases "ReadCell tcp_readFull bs")
  case (Pair res rest)
  show ?thesis
  proof (cases res)
    case (Inr c)
    have "canon_cell c = c"
      using Pair Inr
      by (auto simp: ReadCell_def Let_def split: prod.splits sum.splits if_splits
          dest: UnmarshalCell_canon)
    then show ?thesis
      using Pair Inr tcp.ReadCell_result_wf [of bs c rest] tcp.ReadCell_consumes [of bs c rest]
      by simp
  qed (simp add: Pair)
qed

text \<open>
  The frame a cell is sent in always has one of the six bucket sizes, is long enough for
  the header and the body, announces its own size in the length prefix and passes the
  receiver's MaxFrameLen guard.
\<close>

theorem marshal_frame_size:
  assumes "length (Body c) = CellBodyMax"
  shows "length (MarshalCell r rnd c) - FrameLenSize \<in> set padBuckets \<and>
     unat (get16 (MarshalCell r rnd c)) = length (MarshalCell r rnd c) - FrameLenSize \<and>
     CellHdrSize + min (unat (Length c)) CellBodyMax \<le> length (MarshalCell r rnd c) - FrameLenSize \<and>
     length (MarshalCell r rnd c) - FrameLenSize \<le> MaxFrameLen"
proof -
  have len: "length (MarshalCell r rnd c) - 2 = frame_len r c"
    using assms by (simp add: length_MarshalCell)
  have "get16 (MarshalCell r rnd c) = of_nat (frame_len r c)"
    using assms by (simp add: MarshalCell_layout)
  moreover have "frame_len r c < 65536" using frame_len_le [of r c] by simp
  ultimately show ?thesis
    using len frame_len_bucket [of r c] frame_len_ge [of c r] frame_len_le [of r c]
    by (simp add: body_len_def)
qed

theorem marshal_frame_size_witness:
  "length (MarshalCell 3 (\<lambda>_. 0) (mkCell 1 CmdPing 0 [])) - FrameLenSize \<in> set padBuckets"
  using marshal_frame_size [of "mkCell 1 CmdPing 0 []" 3 "\<lambda>_. 0"] by simp

end
