(* ===== verification/Fragment.thy ===== *)
theory Fragment
  imports Cell "HOL-Library.Multiset"
begin

text \<open>
  Fragmentation of \<^verbatim>\<open>src/common/cell.go\<close>: \<^verbatim>\<open>Fragment\<close> and the
  \<^verbatim>\<open>Reassembler\<close>. Fragment indices are 16-bit and wrap. The two counting loops of
  \<^verbatim>\<open>Add\<close> run an \<^verbatim>\<open>uint16\<close> up to and including \<^verbatim>\<open>finalIdx\<close>; they
  are partial functions, because for \<^verbatim>\<open>finalIdx = 65535\<close> the loop condition can never
  fail. \<open>None\<close> stands for such a run that does not return.
\<close>

section \<open>Operations\<close>

definition FragHdrSize :: nat where
  "FragHdrSize = 6"

definition FragDataMax :: nat where
  "FragDataMax = CellBodyMax - FragHdrSize"

lemma frag_consts [simp]: "FragHdrSize = 6" "FragDataMax = 499"
  by (simp_all add: FragHdrSize_def FragDataMax_def)

definition frag_cell :: "uint32 \<Rightarrow> uint32 \<Rightarrow> uint16 \<Rightarrow> bool \<Rightarrow> bytes \<Rightarrow> Cell" where
  \<comment> \<open>the loop body of \<^verbatim>\<open>Fragment\<close> for one chunk\<close>
  "frag_cell circID seqID idx final chunk =
     (let body0 = replicate CellBodyMax 0;
          body1 = copy_at 0 body0 (put32 seqID);
          body2 = copy_at 4 body1 (put16 idx);
          n = min (CellBodyMax - FragHdrSize) (length chunk);
          body3 = copy_at FragHdrSize body2 chunk
      in \<lparr>CircID = circID, Command = (if final then CmdFragFinal else CmdFragment),
          Length = of_nat (FragHdrSize + n), Body = body3\<rparr>)"

function frag_loop :: "uint32 \<Rightarrow> uint32 \<Rightarrow> uint16 \<Rightarrow> bytes \<Rightarrow> Cell list" where
  "frag_loop circID seqID idx data =
     (if length data > 0 then
        let final = \<not> length data > FragDataMax;
            chunk = (if final then data else take FragDataMax data)
        in frag_cell circID seqID idx final chunk #
           frag_loop circID seqID (idx + 1) (drop (length chunk) data)
      else [])"
  by pat_completeness auto
termination
  by (relation "measure (\<lambda>(c, s, i, data). length data)") (auto simp: Let_def)

declare frag_loop.simps [simp del]

definition Fragment :: "uint32 \<Rightarrow> uint32 \<Rightarrow> bytes \<Rightarrow> Cell list" where
  "Fragment circID seqID data = frag_loop circID seqID 0 data"

record Reassembler =
  pieces :: "uint16 \<rightharpoonup> bytes"
  finalIdx :: uint16
  gotFinal :: bool

definition empty_reasm :: Reassembler where
  \<comment> \<open>\<^verbatim>\<open>Reassembler{}\<close>; the nil map behaves as the empty one\<close>
  "empty_reasm = \<lparr>pieces = Map.empty, finalIdx = 0, gotFinal = False\<rparr>"

partial_function (option) all_present :: "(uint16 \<rightharpoonup> bytes) \<Rightarrow> uint16 \<Rightarrow> uint16 \<Rightarrow> bool option" where
  "all_present ps fin i =
     (if i \<le> fin then (if ps i = None then Some False else all_present ps fin (i + 1))
      else Some True)"

partial_function (option) gather :: "(uint16 \<rightharpoonup> bytes) \<Rightarrow> uint16 \<Rightarrow> uint16 \<Rightarrow> bytes \<Rightarrow> bytes option" where
  "gather ps fin i out =
     (if i \<le> fin then gather ps fin (i + 1) (out @ (case ps i of None \<Rightarrow> [] | Some b \<Rightarrow> b))
      else Some out)"

text \<open>
  \<^verbatim>\<open>Add\<close> returns the payload, whether it is complete, and the new reassembler. The slice
  \<^verbatim>\<open>c.Body[6:c.Length]\<close> panics when \<^verbatim>\<open>Length\<close> exceeds the array.
\<close>

definition store_piece :: "Reassembler \<Rightarrow> Cell \<Rightarrow> Reassembler" where
  \<comment> \<open>the updates of \<^verbatim>\<open>pieces\<close>, \<^verbatim>\<open>finalIdx\<close> and \<^verbatim>\<open>gotFinal\<close>\<close>
  "store_piece r c =
     (let idx = get16 (slice 4 6 (Body c));
          dataLen = unat (Length c) - FragHdrSize;
          r1 = r\<lparr>pieces := (pieces r)(idx \<mapsto> slice FragHdrSize (FragHdrSize + dataLen) (Body c))\<rparr>
      in if Command c = CmdFragFinal then r1\<lparr>finalIdx := idx, gotFinal := True\<rparr> else r1)"

definition complete_payload :: "Reassembler \<Rightarrow> (bytes \<times> bool) option" where
  \<comment> \<open>the rest of \<^verbatim>\<open>Add\<close>: is every piece there, and if so the concatenation\<close>
  "complete_payload r =
     (if \<not> gotFinal r then Some ([], False)
      else (case all_present (pieces r) (finalIdx r) 0 of
              None \<Rightarrow> None
            | Some present \<Rightarrow>
                if \<not> present then Some ([], False)
                else map_option (\<lambda>out. (out, True)) (gather (pieces r) (finalIdx r) 0 [])))"

definition Add :: "Reassembler \<Rightarrow> Cell \<Rightarrow> (go_panic + (bytes \<times> bool) \<times> Reassembler) option" where
  "Add r c =
     (if unat (Length c) < FragHdrSize then Some (Inr (([], False), r))
      else if unat (Length c) > length (Body c) then Some (Inl SliceOutOfRange)
      else map_option (\<lambda>res. Inr (res, store_piece r c)) (complete_payload (store_piece r c)))"

text \<open>Adding a sequence of cells, as the relay does, collecting what each call returned.\<close>

fun add_seq :: "Reassembler \<Rightarrow> Cell list \<Rightarrow> ((bytes \<times> bool) list \<times> Reassembler) option" where
  "add_seq r [] = Some ([], r)"
| "add_seq r (c # cs) =
     (case Add r c of
        Some (Inr (res, r')) \<Rightarrow> map_option (\<lambda>(rs, r''). (res # rs, r'')) (add_seq r' cs)
      | _ \<Rightarrow> None)"

section \<open>The two loops of Add\<close>

lemma all_present_from:
  "unat fin < 65535 \<Longrightarrow> unat i \<le> Suc (unat fin) \<Longrightarrow>
   all_present ps fin i = Some (\<forall>j. i \<le> j \<and> j \<le> fin \<longrightarrow> ps j \<noteq> None)"
proof (induction "Suc (unat fin) - unat i" arbitrary: i)
  case 0
  then have "\<not> i \<le> fin" by (simp add: word_le_nat_alt)
  then show ?case by (auto simp: all_present.simps [of ps fin i])
next
  case (Suc n)
  then have le: "i \<le> fin" by (simp add: word_le_nat_alt)
  have i1: "unat (i + 1) = Suc (unat i)"
    using le Suc.prems by (simp add: word_le_nat_alt unat_word_ariths)
  have split: "(\<forall>j. i \<le> j \<and> j \<le> fin \<longrightarrow> ps j \<noteq> None) \<longleftrightarrow>
      ps i \<noteq> None \<and> (\<forall>j. i + 1 \<le> j \<and> j \<le> fin \<longrightarrow> ps j \<noteq> None)"
    using le i1 by (auto simp: word_le_nat_alt) (metis Suc_leI le_neq_implies_less word_unat_eq_iff)
  have "all_present ps fin (i + 1) = Some (\<forall>j. i + 1 \<le> j \<and> j \<le> fin \<longrightarrow> ps j \<noteq> None)"
    using Suc.prems Suc.hyps(2) i1 le by (intro Suc.hyps(1)) (auto simp: word_le_nat_alt)
  then show ?case using le split by (simp add: all_present.simps [of ps fin i])
qed

lemma gather_from:
  "unat fin < 65535 \<Longrightarrow> unat i \<le> Suc (unat fin) \<Longrightarrow>
   gather ps fin i out =
     Some (out @ concat (map (\<lambda>j. case ps (of_nat j) of None \<Rightarrow> [] | Some b \<Rightarrow> b)
                              [unat i..<Suc (unat fin)]))"
proof (induction "Suc (unat fin) - unat i" arbitrary: i out)
  case 0
  then have "\<not> i \<le> fin" by (simp add: word_le_nat_alt)
  then show ?case using 0 by (simp add: gather.simps [of ps fin i out])
next
  case (Suc n)
  then have le: "i \<le> fin" by (simp add: word_le_nat_alt)
  have i1: "unat (i + 1) = Suc (unat i)"
    using le Suc.prems by (simp add: word_le_nat_alt unat_word_ariths)
  have up: "[unat i..<Suc (unat fin)] = unat i # [unat (i + 1)..<Suc (unat fin)]"
    using le i1 by (simp add: upt_conv_Cons word_le_nat_alt)
  have "gather ps fin (i + 1) (out @ (case ps i of None \<Rightarrow> [] | Some b \<Rightarrow> b)) =
     Some ((out @ (case ps i of None \<Rightarrow> [] | Some b \<Rightarrow> b)) @
       concat (map (\<lambda>j. case ps (of_nat j) of None \<Rightarrow> [] | Some b \<Rightarrow> b) [unat (i + 1)..<Suc (unat fin)]))"
    using Suc.prems Suc.hyps(2) i1 le by (intro Suc.hyps(1)) (auto simp: word_le_nat_alt)
  then show ?case using le up by (simp add: gather.simps [of ps fin i out])
qed

lemma all_present_stuck:
  assumes "\<forall>j. ps j \<noteq> None"
  shows "all_present ps (- 1) i = None"
proof (rule ccontr)
  assume "all_present ps (- 1) i \<noteq> None"
  then obtain b where ret: "all_present ps (- 1) i = Some b" by auto
  have "ps = ps \<longrightarrow> - 1 = (- 1 :: uint16) \<longrightarrow> False"
  proof (rule all_present.raw_induct
      [where P = "\<lambda>qs fin i b. qs = ps \<longrightarrow> fin = - 1 \<longrightarrow> False", OF _ ret])
    fix f qs fin i b
    assume IH: "\<And>qs fin i b. f qs fin i = Some b \<Longrightarrow> qs = ps \<longrightarrow> fin = - 1 \<longrightarrow> False"
      and eq: "(if i \<le> fin then if qs i = None then Some False else f qs fin (i + 1) else Some True) = Some b"
    show "qs = ps \<longrightarrow> fin = - 1 \<longrightarrow> False"
    proof (intro impI)
      assume q: "qs = ps" "fin = - 1"
      from eq q assms have "f ps (- 1) (i + 1) = Some b" by simp
      from IH [OF this] show False by simp
    qed
  qed
  then show False by simp
qed

section \<open>Fragments as chunks\<close>

function chunks :: "bytes \<Rightarrow> bytes list" where
  "chunks data = (if data = [] then []
     else take FragDataMax data # chunks (drop FragDataMax data))"
  by pat_completeness auto
termination by (relation "measure length") auto

declare chunks.simps [simp del]

fun frag_cells :: "uint32 \<Rightarrow> uint32 \<Rightarrow> nat \<Rightarrow> bytes list \<Rightarrow> Cell list" where
  "frag_cells cid sid i [] = []"
| "frag_cells cid sid i (ch # chs) =
     frag_cell cid sid (of_nat i) (chs = []) ch # frag_cells cid sid (Suc i) chs"

lemma chunks_Nil [simp]: "chunks data = [] \<longleftrightarrow> data = []"
  by (simp add: chunks.simps [of data])

lemma chunks_empty [simp]: "chunks [] = []"
  by simp

lemma concat_chunks [simp]: "concat (chunks data) = data"
proof (induction data rule: chunks.induct)
  case (1 data)
  then show ?case by (simp add: chunks.simps [of data])
qed

lemma chunks_bound: "ch \<in> set (chunks data) \<Longrightarrow> length ch \<le> 499"
proof (induction data rule: chunks.induct)
  case (1 data)
  then show ?case by (cases "data = []") (auto simp: chunks.simps [of data])
qed

lemma length_chunks: "length (chunks data) = (length data + 498) div 499"
proof (induction data rule: chunks.induct)
  case (1 data)
  show ?case
  proof (cases "data = []")
    case False
    with 1 have "length (chunks data) = Suc ((length data - 499 + 498) div 499)"
      by (simp add: chunks.simps [of data])
    also have "\<dots> = (length data + 498) div 499"
    proof (cases "length data \<le> 499")
      case True
      with False show ?thesis by (cases "length data") auto
    next
      case False
      then obtain k where "length data = 499 + k" by (metis le_Suc_ex nat_le_linear)
      then show ?thesis by simp
    qed
    finally show ?thesis .
  qed (simp add: chunks.simps [of data])
qed

lemma frag_loop_chunks: "frag_loop cid sid (of_nat i) data = frag_cells cid sid i (chunks data)"
proof (induction data arbitrary: i rule: chunks.induct)
  case (1 data)
  show ?case
  proof (cases "data = []")
    case False
    have IH: "frag_loop cid sid (of_nat (Suc i)) (drop 499 data) =
        frag_cells cid sid (Suc i) (chunks (drop 499 data))"
      using 1 [OF False, of "Suc i"] by simp
    show ?thesis
    proof (cases "length data > 499")
      case True
      then show ?thesis using False IH
        by (simp add: frag_loop.simps [of cid sid _ data] chunks.simps [of data] add.commute)
    next
      case le: False
      then have "chunks data = [data]"
        using False by (simp add: chunks.simps [of data])
      then show ?thesis using False le
        by (simp add: frag_loop.simps [of cid sid _ data] frag_loop.simps [of cid sid _ "[]"])
    qed
  qed (simp add: frag_loop.simps chunks.simps)
qed

lemma Fragment_chunks: "Fragment cid sid data = frag_cells cid sid 0 (chunks data)"
  using frag_loop_chunks [of cid sid 0 data] by (simp add: Fragment_def)

lemma length_frag_cells [simp]: "length (frag_cells cid sid i chs) = length chs"
  by (induction chs arbitrary: i) auto

lemma frag_cells_nth:
  "k < length chs \<Longrightarrow> frag_cells cid sid i chs ! k =
     frag_cell cid sid (of_nat (i + k)) (Suc k = length chs) (chs ! k)"
proof (induction chs arbitrary: i k)
  case (Cons ch chs)
  then show ?case by (cases k) (auto simp: add.assoc)
qed simp

text \<open>The fields of one fragment.\<close>

lemma frag_cell_fields:
  assumes "length ch \<le> 499"
  shows "unat (Length (frag_cell cid sid idx fin ch)) = 6 + length ch"
    and "length (Body (frag_cell cid sid idx fin ch)) = 505"
    and "get16 (slice 4 6 (Body (frag_cell cid sid idx fin ch))) = idx"
    and "slice 6 (6 + length ch) (Body (frag_cell cid sid idx fin ch)) = ch"
    and "Command (frag_cell cid sid idx fin ch) = (if fin then CmdFragFinal else CmdFragment)"
    and "wf_cell (frag_cell cid sid idx fin ch)"
proof -
  have "copy_at 0 (replicate 505 0) (put32 sid) = put32 sid @ replicate 501 0"
    using copy_at_append [of 0 "[]" "put32 sid" "replicate 505 0"] by simp
  moreover have "copy_at 4 (put32 sid @ replicate 501 0) (put16 idx) =
      (put32 sid @ put16 idx) @ replicate 499 0"
    by (subst copy_at_append) simp_all
  moreover have "copy_at 6 ((put32 sid @ put16 idx) @ replicate 499 0) ch =
      put32 sid @ put16 idx @ ch @ replicate (499 - length ch) 0"
    using assms by (subst copy_at_append) simp_all
  ultimately have body: "Body (frag_cell cid sid idx fin ch) =
      put32 sid @ put16 idx @ ch @ replicate (499 - length ch) 0"
    by (simp add: frag_cell_def Let_def)
  show len: "unat (Length (frag_cell cid sid idx fin ch)) = 6 + length ch"
  proof -
    have "6 + length ch < 65536" using assms by simp
    then have "unat (of_nat (6 + length ch) :: uint16) = 6 + length ch" by (rule unat_of_nat16)
    moreover have "Length (frag_cell cid sid idx fin ch) = of_nat (6 + length ch)"
      using assms by (simp add: frag_cell_def Let_def min_def)
    ultimately show ?thesis by metis
  qed
  show lb: "length (Body (frag_cell cid sid idx fin ch)) = 505" using assms body by simp
  show "get16 (slice 4 6 (Body (frag_cell cid sid idx fin ch))) = idx"
    using slice_exact [of "put32 sid" 4 "put16 idx" 6] get16_put16 [of idx "[]"] body by simp
  show "slice 6 (6 + length ch) (Body (frag_cell cid sid idx fin ch)) = ch"
    using slice_exact [of "put32 sid @ put16 idx" 6 ch "6 + length ch"] body by simp
  show "Command (frag_cell cid sid idx fin ch) = (if fin then CmdFragFinal else CmdFragment)"
    by (simp add: frag_cell_def Let_def)
  show "wf_cell (frag_cell cid sid idx fin ch)" using assms len lb by (simp add: wf_cell_def)
qed


section \<open>Reassembly\<close>

text \<open>
  The abstract state of a reassembly is the set \<open>S\<close> of fragment numbers received so far;
  \<open>collected\<close> relates it to the concrete reassembler.
\<close>

definition collected :: "bytes list \<Rightarrow> nat set \<Rightarrow> Reassembler \<Rightarrow> bool" where
  "collected chs S r \<longleftrightarrow>
     pieces r = (\<lambda>j. if unat j \<in> S then Some (chs ! unat j) else None) \<and>
     gotFinal r = (length chs - 1 \<in> S) \<and>
     (gotFinal r \<longrightarrow> unat (finalIdx r) = length chs - 1)"

definition nth_frag :: "uint32 \<Rightarrow> uint32 \<Rightarrow> bytes list \<Rightarrow> nat \<Rightarrow> Cell" where
  "nth_frag cid sid chs i = frag_cell cid sid (of_nat i) (Suc i = length chs) (chs ! i)"

lemma collected_empty: "collected chs {} empty_reasm"
  by (simp add: collected_def empty_reasm_def)

lemma finish_loops:
  assumes "collected chs S r" "gotFinal r" "S \<subseteq> {..<length chs}" "length chs \<le> 65535" "chs \<noteq> []"
  shows "all_present (pieces r) (finalIdx r) 0 = Some (S = {..<length chs})"
    and "S = {..<length chs} \<Longrightarrow> gather (pieces r) (finalIdx r) 0 [] = Some (concat chs)"
proof -
  let ?k = "length chs"
  have pos: "0 < ?k" using assms by simp
  have fin: "unat (finalIdx r) = ?k - 1" using assms by (simp add: collected_def)
  have Suc: "Suc (unat (finalIdx r)) = ?k" using fin pos by simp
  have small: "unat (finalIdx r) < 65535" using fin assms(4) pos by linarith
  have idx: "unat (of_nat j :: uint16) = j" if "j < ?k" for j
    using that assms(4) by (intro unat_of_nat16) linarith
  have "(\<forall>j. 0 \<le> j \<and> j \<le> finalIdx r \<longrightarrow> pieces r j \<noteq> None) \<longleftrightarrow> S = {..<?k}"
  proof
    assume all: "\<forall>j. 0 \<le> j \<and> j \<le> finalIdx r \<longrightarrow> pieces r j \<noteq> None"
    have "j \<in> S" if j: "j < ?k" for j
    proof -
      have "of_nat j \<le> finalIdx r" using j fin idx by (simp add: word_le_nat_alt)
      then have "pieces r (of_nat j) \<noteq> None" using all by simp
      then show ?thesis using assms(1) idx [OF j] by (simp add: collected_def split: if_splits)
    qed
    then show "S = {..<?k}" using assms(3) by auto
  next
    assume S: "S = {..<?k}"
    then show "\<forall>j. 0 \<le> j \<and> j \<le> finalIdx r \<longrightarrow> pieces r j \<noteq> None"
      using assms(1) fin pos by (auto simp: collected_def word_le_nat_alt)
  qed
  then show "all_present (pieces r) (finalIdx r) 0 = Some (S = {..<?k})"
    using all_present_from [OF small, of 0] by simp
  assume S: "S = {..<?k}"
  have "map (\<lambda>j. case pieces r (of_nat j) of None \<Rightarrow> [] | Some b \<Rightarrow> b) [0..<?k] = map ((!) chs) [0..<?k]"
    using assms(1) S idx by (intro map_cong) (auto simp: collected_def)
  then show "gather (pieces r) (finalIdx r) 0 [] = Some (concat chs)"
    using gather_from [OF small, of 0 "pieces r" "[]"] Suc by (simp add: map_nth)
qed

lemma Add_collected:
  assumes small: "\<forall>ch \<in> set chs. length ch \<le> 499" "length chs \<le> 65535"
    and S: "S \<subseteq> {..<length chs}" "i < length chs" and c: "collected chs S r"
  shows "\<exists>r'. Add r (nth_frag cid sid chs i) =
      Some (Inr (if insert i S = {..<length chs} then (concat chs, True) else ([], False), r')) \<and>
      collected chs (insert i S) r'"
proof -
  let ?c = "nth_frag cid sid chs i" and ?k = "length chs"
  have ch: "length (chs ! i) \<le> 499" using small S by simp
  note f = frag_cell_fields [OF ch, of cid sid "of_nat i" "Suc i = ?k", folded nth_frag_def]
  have idx: "unat (of_nat i :: uint16) = i" using S small by simp
  have cmd: "Command ?c = CmdFragFinal \<longleftrightarrow> Suc i = ?k"
    using f(5) by (simp add: CmdFragFinal_def CmdFragment_def)
  have eqi: "j = of_nat i \<longleftrightarrow> unat j = i" for j :: uint16
    using idx by (metis word_unat_eq_iff)
  let ?r = "store_piece r ?c"
  have r: "?r = (let r1 = r\<lparr>pieces := (pieces r)(of_nat i \<mapsto> chs ! i)\<rparr>
      in if Suc i = ?k then r1\<lparr>finalIdx := of_nat i, gotFinal := True\<rparr> else r1)"
    using f(1,3,4) cmd by (simp add: store_piece_def Let_def)
  have c': "collected chs (insert i S) ?r"
    unfolding r Let_def using c idx S by (auto simp: collected_def eqi fun_eq_iff)
  have S': "insert i S \<subseteq> {..<?k}" "chs \<noteq> []" using S by auto
  have nofin: "insert i S \<noteq> {..<?k}" if "\<not> gotFinal ?r"
    using that c' S by (auto simp: collected_def)
  have "complete_payload ?r =
      Some (if insert i S = {..<?k} then (concat chs, True) else ([], False))"
    using finish_loops [OF c' _ S'(1) small(2) S'(2)] nofin
    by (cases "gotFinal ?r") (simp_all add: complete_payload_def)
  moreover have "\<not> unat (Length ?c) < 6" "\<not> unat (Length ?c) > length (Body ?c)"
    using f(1,2) ch by simp_all
  ultimately have "Add r ?c =
      Some (Inr (if insert i S = {..<?k} then (concat chs, True) else ([], False), ?r))"
    by (simp add: Add_def)
  with c' show ?thesis by blast
qed

lemma add_seq_indices:
  assumes "\<forall>ch \<in> set chs. length ch \<le> 499" "length chs \<le> 65535"
    and "distinct js" "js \<noteq> []" "set js \<inter> S = {}" "set js \<union> S = {..<length chs}"
    and "collected chs S r"
  shows "\<exists>r'. add_seq r (map (nth_frag cid sid chs) js) =
      Some (replicate (length js - 1) ([], False) @ [(concat chs, True)], r')"
  using assms(3-)
proof (induction js arbitrary: S r)
  case (Cons i js)
  then have i: "i < length chs" "S \<subseteq> {..<length chs}" "i \<notin> S" by auto
  let ?res = "if insert i S = {..<length chs} then (concat chs, True) else ([], False)"
  from Add_collected [OF assms(1,2) i(2,1) Cons.prems(5), of cid sid] obtain r' where
    r': "Add r (nth_frag cid sid chs i) = Some (Inr (?res, r'))" "collected chs (insert i S) r'"
    by blast
  have rest: "set js \<inter> insert i S = {}" "set js \<union> insert i S = {..<length chs}"
    using Cons.prems(1,3,4) by auto
  show ?case
  proof (cases "js = []")
    case True
    with rest r'(1) show ?thesis by simp
  next
    case False
    then obtain j where "j \<in> set js" by (cases js) auto
    with rest have "insert i S \<noteq> {..<length chs}" by blast
    then have add: "Add r (nth_frag cid sid chs i) = Some (Inr (([], False), r'))"
      using r'(1) by simp
    obtain r'' where "add_seq r' (map (nth_frag cid sid chs) js) =
        Some (replicate (length js - 1) ([], False) @ [(concat chs, True)], r'')"
      using Cons.IH [OF _ False rest r'(2)] Cons.prems(1) by auto
    moreover have "replicate (length (i # js) - 1) ([], False) =
        (([], False) :: bytes \<times> bool) # replicate (length js - 1) ([], False)"
      using False by (cases js) auto
    ultimately show ?thesis using add by simp
  qed
qed simp

lemma Fragment_indices:
  "Fragment cid sid data = map (nth_frag cid sid (chunks data)) [0..<length (chunks data)]"
  unfolding Fragment_chunks by (rule nth_equalityI) (simp_all add: frag_cells_nth nth_frag_def)

lemma mset_eq_map:
  "mset cs = image_mset f M \<Longrightarrow> \<exists>js. cs = map f js \<and> mset js = M"
proof (induction cs arbitrary: M)
  case Nil
  then show ?case by simp
next
  case (Cons c cs)
  then obtain i N where M: "M = add_mset i N" "c = f i" "mset cs = image_mset f N"
    by (auto dest!: msed_map_invR [OF sym])
  with Cons.IH obtain js where "cs = map f js" "mset js = N" by blast
  with M show ?case by (intro exI [of _ "i # js"]) simp
qed

text \<open>
  C24: A payload cut by Fragment is put together again by a fresh Reassembler whatever the
  order in which its fragments arrive: every Add but the last reports an incomplete payload
  and the last one returns exactly the original bytes. This holds up to 65535 fragments.
\<close>

theorem reassemble_any_order:
  assumes "data \<noteq> []" "length data \<le> 499 * 65535"
    and "mset cs = mset (Fragment cid sid data)"
  shows "\<exists>r. add_seq empty_reasm cs =
    Some (replicate (length cs - 1) ([], False) @ [(data, True)], r)"
proof -
  let ?chs = "chunks data"
  have k: "length ?chs \<le> 65535" using assms(2) by (simp add: length_chunks)
  obtain js where js: "cs = map (nth_frag cid sid ?chs) js" "mset js = mset [0..<length ?chs]"
    using mset_eq_map [of cs "nth_frag cid sid ?chs" "mset [0..<length ?chs]"] assms(3)
    unfolding Fragment_indices by auto
  have "set js = set [0..<length ?chs]" using js(2) by (rule mset_eq_setD)
  then have set: "set js \<inter> {} = {}" "set js \<union> {} = {..<length ?chs}" by (simp_all add: lessThan_atLeast0)
  have dist: "distinct js" using mset_eq_imp_distinct_iff [OF js(2)] by simp
  have "length ?chs \<noteq> 0" using assms(1) by simp
  then have ne: "js \<noteq> []" using set by fastforce
  have b: "\<forall>ch \<in> set ?chs. length ch \<le> 499" using chunks_bound by blast
  from add_seq_indices [OF b k dist ne set collected_empty, of cid sid] show ?thesis
    using js(1) by simp
qed

theorem reassemble_any_order_witness:
  "\<exists>r. add_seq empty_reasm (rev (Fragment 1 2 (replicate 600 7))) =
    Some (replicate (length (rev (Fragment 1 2 (replicate 600 7))) - 1) ([], False) @
      [(replicate 600 7, True)], r)"
  by (rule reassemble_any_order [of _ _ 1 2]) simp_all

text \<open>
  C25: With the final index at its maximum 65535 and all pieces present, Add never returns:
  the uint16 loop counter wraps to 0 before it can exceed finalIdx.
\<close>

theorem reassemble_max_index_diverges:
  assumes "\<forall>j. pieces r j \<noteq> None" "gotFinal r" "finalIdx r = - 1"
    and "FragHdrSize \<le> unat (Length c)" "wf_cell c" "Command c = CmdFragment"
  shows "Add r c = None"
proof -
  have "all_present ((pieces r)(i \<mapsto> b)) (- 1) 0 = None" for i b
    using assms(1) by (intro all_present_stuck) simp
  then have "complete_payload (store_piece r c) = None"
    using assms by (simp add: complete_payload_def store_piece_def Let_def CmdFragment_def CmdFragFinal_def)
  then show ?thesis using assms by (simp add: Add_def wf_cell_def)
qed

theorem reassemble_max_index_diverges_witness:
  "Add \<lparr>pieces = (\<lambda>_. Some []), finalIdx = - 1, gotFinal = True\<rparr> (mkCell 0 CmdFragment 6 []) = None"
  by (rule reassemble_max_index_diverges) (simp_all add: wf_mkCell)

end
