(* ===== verification/Go_Crypto.thy ===== *)
theory Go_Crypto
  imports Prelude
begin

text \<open>
  The parts of Go's \<^verbatim>\<open>crypto\<close> packages the program calls, as executable functions:
  SHA-256 (\<^verbatim>\<open>crypto/sha256\<close>, FIPS 180-4), HMAC (\<^verbatim>\<open>crypto/hmac\<close>, RFC 2104) and
  Galois/Counter mode with a 12-byte nonce, a 16-byte tag and no additional data
  (\<^verbatim>\<open>crypto/cipher\<close>, NIST SP 800-38D). The block cipher under GCM is an argument
  \<open>E\<close> on 128-bit words: every law below holds for any block function, because GCM only
  ever runs it forwards.
\<close>

section \<open>SHA-256\<close>

text \<open>
  The constants are defined as the standard derives them: the first 32 bits of the fractional parts of
  the cube roots of the first 64 primes, and of the square roots of the first eight.
\<close>

fun root_search :: "nat \<Rightarrow> nat \<Rightarrow> nat \<Rightarrow> nat \<Rightarrow> nat" where
  \<comment> \<open>the largest \<open>r\<close> below \<open>r0 + 2 ^ bits\<close> with \<open>r ^ k \<le> n\<close>, bit by bit\<close>
  "root_search k n 0 r = r"
| "root_search k n (Suc bits) r =
     (if (r + 2 ^ bits) ^ k \<le> n then root_search k n bits (r + 2 ^ bits) else root_search k n bits r)"

definition first_primes :: "nat list" where
  \<comment> \<open>the 64 primes below 312\<close>
  "first_primes = filter (\<lambda>n. list_all (\<lambda>d. n mod d \<noteq> 0) [2..<n]) [2..<312]"

definition sha_k :: "uint32 list" where
  "sha_k = map (\<lambda>p. of_nat (root_search 3 (p * 2 ^ 96) 40 0)) first_primes"

type_synonym sha_state =
  "uint32 \<times> uint32 \<times> uint32 \<times> uint32 \<times> uint32 \<times> uint32 \<times> uint32 \<times> uint32"

definition sha_h :: "nat \<Rightarrow> uint32" where
  "sha_h p = of_nat (root_search 2 (p * 2 ^ 64) 40 0)"

definition sha_init :: sha_state where
  "sha_init = (sha_h 2, sha_h 3, sha_h 5, sha_h 7, sha_h 11, sha_h 13, sha_h 17, sha_h 19)"

definition rotr32 :: "nat \<Rightarrow> uint32 \<Rightarrow> uint32" where
  "rotr32 n w = drop_bit n w OR push_bit (32 - n) w"

fun sha_extend :: "nat \<Rightarrow> uint32 list \<Rightarrow> uint32 list" where
  "sha_extend 0 ws = ws"
| "sha_extend (Suc n) ws =
     (let t = length ws; a = ws ! (t - 15); b = ws ! (t - 2);
          s0 = rotr32 7 a XOR rotr32 18 a XOR drop_bit 3 a;
          s1 = rotr32 17 b XOR rotr32 19 b XOR drop_bit 10 b
      in sha_extend n (ws @ [ws ! (t - 16) + s0 + ws ! (t - 7) + s1]))"

fun sha_round :: "sha_state \<Rightarrow> uint32 \<times> uint32 \<Rightarrow> sha_state" where
  "sha_round (a, b, c, d, e, f, g, h) (k, w) =
     (let s1 = rotr32 6 e XOR rotr32 11 e XOR rotr32 25 e;
          ch = (e AND f) XOR (NOT e AND g);
          t1 = h + s1 + ch + k + w;
          s0 = rotr32 2 a XOR rotr32 13 a XOR rotr32 22 a;
          maj = (a AND b) XOR (a AND c) XOR (b AND c)
      in (t1 + (s0 + maj), a, b, c, d + t1, e, f, g))"

fun sha_add :: "sha_state \<Rightarrow> sha_state \<Rightarrow> sha_state" where
  "sha_add (a, b, c, d, e, f, g, h) (a', b', c', d', e', f', g', h') =
     (a + a', b + b', c + c', d + d', e + e', f + f', g + g', h + h')"

fun words_of_block :: "nat \<Rightarrow> bytes \<Rightarrow> uint32 list" where
  "words_of_block 0 bs = []"
| "words_of_block (Suc n) bs = get32 bs # words_of_block n (drop 4 bs)"

definition sha_block :: "sha_state \<Rightarrow> bytes \<Rightarrow> sha_state" where
  "sha_block st blk =
     sha_add st (foldl sha_round st (zip sha_k (sha_extend 48 (words_of_block 16 blk))))"

fun sha_blocks :: "nat \<Rightarrow> sha_state \<Rightarrow> bytes \<Rightarrow> sha_state" where
  "sha_blocks 0 st bs = st"
| "sha_blocks (Suc n) st bs = sha_blocks n (sha_block st (take 64 bs)) (drop 64 bs)"

definition sha_pad :: "bytes \<Rightarrow> bytes" where
  "sha_pad m = (let l = length m; z = (119 - l mod 64) mod 64; bits = 8 * l in
     m @ [0x80] @ replicate z 0 @ put32 (of_nat (bits div 2 ^ 32)) @ put32 (of_nat bits))"

fun sha_out :: "sha_state \<Rightarrow> bytes" where
  "sha_out (a, b, c, d, e, f, g, h) =
     put32 a @ put32 b @ put32 c @ put32 d @ put32 e @ put32 f @ put32 g @ put32 h"

definition sha256 :: "bytes \<Rightarrow> bytes" where
  "sha256 m = (let p = sha_pad m in sha_out (sha_blocks (length p div 64) sha_init p))"

lemma length_sha_out: "length (sha_out st) = 32"
  by (cases st rule: sha_out.cases) simp

lemma length_sha256 [simp, wire_len]: "length (sha256 m) = 32"
  by (simp add: sha256_def Let_def length_sha_out)

section \<open>HMAC-SHA256\<close>

definition hmac_key :: "bytes \<Rightarrow> bytes" where
  "hmac_key k = (let k0 = (if length k > 64 then sha256 k else k) in k0 @ replicate (64 - length k0) 0)"

definition hmac_sha256 :: "bytes \<Rightarrow> bytes \<Rightarrow> bytes" where
  "hmac_sha256 k m =
     sha256 (map (\<lambda>b. b XOR 0x5c) (hmac_key k) @ sha256 (map (\<lambda>b. b XOR 0x36) (hmac_key k) @ m))"

lemma length_hmac [simp, wire_len]: "length (hmac_sha256 k m) = 32"
  by (simp add: hmac_sha256_def)

section \<open>Galois/Counter mode\<close>

type_synonym block = "128 word"

definition block_of :: "bytes \<Rightarrow> block" where
  \<comment> \<open>big-endian, padded with zero bytes on the right to 16 bytes\<close>
  "block_of bs = foldl (\<lambda>a b. push_bit 8 a OR ucast b) 0 (take 16 (bs @ replicate 16 0))"

definition bytes_of_block :: "block \<Rightarrow> bytes" where
  "bytes_of_block w = map (\<lambda>i. ucast (drop_bit (120 - 8 * i) w)) [0..<16]"

definition inc32 :: "block \<Rightarrow> block" where
  \<comment> \<open>only the low 32 bits count, modulo \<open>2 ^ 32\<close>\<close>
  "inc32 w = (w AND NOT (mask 32)) OR ((w + 1) AND mask 32)"

fun ctr_stream :: "(block \<Rightarrow> block) \<Rightarrow> block \<Rightarrow> nat \<Rightarrow> bytes" where
  "ctr_stream E ctr 0 = []"
| "ctr_stream E ctr (Suc n) = bytes_of_block (E ctr) @ ctr_stream E (inc32 ctr) n"

definition xor_bytes :: "bytes \<Rightarrow> bytes \<Rightarrow> bytes" where
  "xor_bytes xs ys = map2 (XOR) xs ys"

fun gf_loop :: "nat \<Rightarrow> block \<Rightarrow> block \<Rightarrow> block \<Rightarrow> block" where
  "gf_loop 0 x v z = z"
| "gf_loop (Suc n) x v z =
     gf_loop n x (if bit v 0 then drop_bit 1 v XOR push_bit 120 0xe1 else drop_bit 1 v)
       (if bit x n then z XOR v else z)"

definition gf_mult :: "block \<Rightarrow> block \<Rightarrow> block" where
  "gf_mult x y = gf_loop 128 x y 0"

fun ghash_blocks :: "nat \<Rightarrow> block \<Rightarrow> block \<Rightarrow> bytes \<Rightarrow> block" where
  "ghash_blocks 0 h y bs = y"
| "ghash_blocks (Suc n) h y bs =
     ghash_blocks n h (gf_mult (y XOR block_of (take 16 bs)) h) (drop 16 bs)"

definition gcm_ctr0 :: "bytes \<Rightarrow> block" where
  "gcm_ctr0 nonce = block_of (nonce @ [0, 0, 0, 1])"

definition gcm_crypt :: "(block \<Rightarrow> block) \<Rightarrow> bytes \<Rightarrow> bytes \<Rightarrow> bytes" where
  "gcm_crypt E nonce bs = xor_bytes bs (ctr_stream E (inc32 (gcm_ctr0 nonce)) ((length bs + 15) div 16))"

definition gcm_tag :: "(block \<Rightarrow> block) \<Rightarrow> bytes \<Rightarrow> bytes \<Rightarrow> bytes" where
  "gcm_tag E nonce ct =
     (let h = E 0;
          y = ghash_blocks ((length ct + 15) div 16) h 0 ct;
          s = gf_mult (y XOR of_nat (8 * length ct)) h
      in bytes_of_block (s XOR E (gcm_ctr0 nonce)))"

definition gcm_seal :: "(block \<Rightarrow> block) \<Rightarrow> bytes \<Rightarrow> bytes \<Rightarrow> bytes" where
  \<comment> \<open>\<^verbatim>\<open>gcm.Seal(nil, nonce, plaintext, nil)\<close>\<close>
  "gcm_seal E nonce pt = (let ct = gcm_crypt E nonce pt in ct @ gcm_tag E nonce ct)"

definition gcm_open :: "(block \<Rightarrow> block) \<Rightarrow> bytes \<Rightarrow> bytes \<Rightarrow> bytes option" where
  \<comment> \<open>\<^verbatim>\<open>gcm.Open(nil, nonce, ciphertext, nil)\<close>; \<open>None\<close> is the authentication error\<close>
  "gcm_open E nonce c =
     (if length c < 16 then None
      else let ct = take (length c - 16) c; tag = drop (length c - 16) c
           in if tag = gcm_tag E nonce ct then Some (gcm_crypt E nonce ct) else None)"

lemma length_bytes_of_block [simp, wire_len]: "length (bytes_of_block w) = 16"
  by (simp add: bytes_of_block_def)

lemma length_ctr_stream [simp, wire_len]: "length (ctr_stream E ctr n) = 16 * n"
  by (induction n arbitrary: ctr) auto

lemma length_gcm_crypt [simp, wire_len]: "length (gcm_crypt E nonce bs) = length bs"
proof -
  have "length bs \<le> 16 * ((length bs + 15) div 16)" by presburger
  then show ?thesis by (simp add: gcm_crypt_def xor_bytes_def)
qed

lemma length_gcm_tag [simp, wire_len]: "length (gcm_tag E nonce ct) = 16"
  by (simp add: gcm_tag_def Let_def)

lemma length_gcm_seal [simp, wire_len]: "length (gcm_seal E nonce pt) = length pt + 16"
  by (simp add: gcm_seal_def Let_def)

lemma xor_bytes_twice: "length xs \<le> length ys \<Longrightarrow> xor_bytes (xor_bytes xs ys) ys = xs"
proof (induction xs arbitrary: ys)
  case (Cons x xs)
  then show ?case by (cases ys) (auto simp: xor_bytes_def ac_simps)
qed (simp add: xor_bytes_def)

lemma gcm_crypt_twice: "gcm_crypt E nonce (gcm_crypt E nonce bs) = bs"
proof -
  have "length bs \<le> 16 * ((length bs + 15) div 16)" by presburger
  then show ?thesis
    by (simp add: gcm_crypt_def [of E nonce "gcm_crypt E nonce bs"])
      (simp add: gcm_crypt_def xor_bytes_twice)
qed

lemma gcm_open_seal [simp, wire_rt]: "gcm_open E nonce (gcm_seal E nonce pt) = Some pt"
  by (simp add: gcm_open_def gcm_seal_def Let_def gcm_crypt_twice)

lemma gcm_open_length: "gcm_open E nonce c = Some pt \<Longrightarrow> length c = length pt + 16"
  by (auto simp: gcm_open_def Let_def split: if_splits)

end
