(* ===== verification/Cell_Crypto.thy ===== *)
theory Cell_Crypto
  imports Cell Go_Crypto
begin

text \<open>
  The crypto helpers of \<^verbatim>\<open>src/common/cell.go\<close>: ephemeral X25519 key pairs,
  \<^verbatim>\<open>DeriveKey\<close>, \<^verbatim>\<open>Encrypt\<close> and \<^verbatim>\<open>Decrypt\<close>. Random bytes come from a
  tape \<open>rnd\<close> (\<^verbatim>\<open>crypto/rand.Read\<close> never fails in the Go version the module
  requires). The AES-256 block function is an argument \<open>aes\<close>, and so is the X25519 group
  of \<^verbatim>\<open>golang.org/x/crypto/curve25519\<close>, with its documented Diffie-Hellman law as the
  predicate \<open>x25519_ok\<close>. The locale \<open>hop_cipher\<close> is the contract of one onion layer;
  layering is proved there once and interpreted on \<open>Encrypt\<close> and \<open>Decrypt\<close>.
\<close>

section \<open>Key agreement\<close>

type_synonym scalar_mult = "bytes \<Rightarrow> bytes \<Rightarrow> bytes"

text \<open>\<^verbatim>\<open>ScalarBaseMult(k)\<close> is \<^verbatim>\<open>ScalarMult(k, Basepoint)\<close>; the base point is \<open>u = 9\<close>.\<close>

definition basepoint :: bytes where
  "basepoint = 9 # replicate 31 0"

definition ScalarBaseMult :: "scalar_mult \<Rightarrow> bytes \<Rightarrow> bytes" where
  "ScalarBaseMult sm k = sm k basepoint"

definition x25519_ok :: "scalar_mult \<Rightarrow> bool" where
  "x25519_ok sm \<longleftrightarrow>
     (\<forall>k u. length (sm k u) = 32) \<and>
     (\<forall>a b. length a = 32 \<longrightarrow> length b = 32 \<longrightarrow>
        sm a (ScalarBaseMult sm b) = sm b (ScalarBaseMult sm a))"

definition rand_bytes :: "(nat \<Rightarrow> byte) \<Rightarrow> nat \<Rightarrow> bytes" where
  \<comment> \<open>\<^verbatim>\<open>rand.Read\<close> into a buffer of \<open>n\<close> bytes\<close>
  "rand_bytes rnd n = map rnd [0..<n]"

definition GenKeyPair :: "scalar_mult \<Rightarrow> (nat \<Rightarrow> byte) \<Rightarrow> bytes \<times> bytes" where
  "GenKeyPair sm rnd = (let priv = rand_bytes rnd 32 in (priv, ScalarBaseMult sm priv))"

definition DeriveKey :: "scalar_mult \<Rightarrow> bytes \<Rightarrow> bytes \<Rightarrow> bytes" where
  "DeriveKey sm priv theirPub = sha256 (sm priv theirPub)"

definition RandomUint32 :: "(nat \<Rightarrow> byte) \<Rightarrow> uint32" where
  "RandomUint32 rnd = get32 (rand_bytes rnd 4)"

section \<open>Authenticated encryption\<close>

datatype crypt_error =
    BadKeyLength nat
  | CiphertextTooShort nat
  | AuthFailed

type_synonym block_cipher = "bytes \<Rightarrow> block \<Rightarrow> block"

definition gcmOverhead :: nat where
  \<comment> \<open>nonce and tag\<close>
  "gcmOverhead = 28"

lemma gcmOverhead_eq [simp]: "gcmOverhead = 28"
  by (simp add: gcmOverhead_def)

definition Encrypt :: "block_cipher \<Rightarrow> (nat \<Rightarrow> byte) \<Rightarrow> bytes \<Rightarrow> bytes \<Rightarrow> crypt_error + bytes" where
  "Encrypt aes rnd key plaintext =
     (if length key \<noteq> 32 then Inl (BadKeyLength (length key))
      else let nonce = rand_bytes rnd 12 in Inr (nonce @ gcm_seal (aes key) nonce plaintext))"

definition Decrypt :: "block_cipher \<Rightarrow> bytes \<Rightarrow> bytes \<Rightarrow> crypt_error + bytes" where
  "Decrypt aes key ciphertext =
     (if length key \<noteq> 32 then Inl (BadKeyLength (length key))
      else if length ciphertext < 12 + 16 then Inl (CiphertextTooShort (length ciphertext))
      else (case gcm_open (aes key) (take 12 ciphertext) (drop 12 ciphertext) of
              None \<Rightarrow> Inl AuthFailed
            | Some p \<Rightarrow> Inr p))"

lemma length_rand_bytes [simp, wire_len]: "length (rand_bytes rnd n) = n"
  by (simp add: rand_bytes_def)

lemma length_DeriveKey [simp, wire_len]: "length (DeriveKey sm priv pub) = 32"
  by (simp add: DeriveKey_def)

lemma length_GenKeyPair:
  "GenKeyPair sm rnd = (priv, pub) \<Longrightarrow> length priv = 32 \<and> pub = ScalarBaseMult sm priv"
  by (auto simp: GenKeyPair_def Let_def)

lemma DeriveKey_agree:
  "x25519_ok sm \<Longrightarrow> length a = 32 \<Longrightarrow> length b = 32 \<Longrightarrow>
   DeriveKey sm a (ScalarBaseMult sm b) = DeriveKey sm b (ScalarBaseMult sm a)"
  by (simp add: DeriveKey_def x25519_ok_def)

definition sample_sm :: scalar_mult where
  \<comment> \<open>a commutative toy group: pad both to 32 bytes and add bytewise\<close>
  "sample_sm k u = map (\<lambda>i. (if i < length k then k ! i else 0) + (if i < length u then u ! i else 0)) [0..<32]"

lemma sample_sm_ok: "x25519_ok sample_sm"
  by (simp add: x25519_ok_def sample_sm_def ScalarBaseMult_def basepoint_def ac_simps)

lemma Decrypt_Inr_key: "Decrypt aes k c = Inr p \<Longrightarrow> length k = 32"
  by (auto simp: Decrypt_def split: if_splits)

section \<open>Onion layers\<close>

text \<open>
  Wrapping encrypts under the keys of a list from its last to its first (the loops of
  \<^verbatim>\<open>extendCircuit\<close> and \<^verbatim>\<open>sendRequest\<close> count down), so the first key is the
  outermost layer; peeling decrypts from the first key on. \<open>rnds i\<close> is the tape of the
  layer \<open>i\<close>.
\<close>

fun wrap_layers ::
  "('r \<Rightarrow> bytes \<Rightarrow> bytes \<Rightarrow> 'e + bytes) \<Rightarrow> (nat \<Rightarrow> 'r) \<Rightarrow> bytes list \<Rightarrow> bytes \<Rightarrow> 'e + bytes" where
  "wrap_layers enc rnds [] p = Inr p"
| "wrap_layers enc rnds (k # ks) p =
     (case wrap_layers enc (\<lambda>i. rnds (Suc i)) ks p of
        Inl e \<Rightarrow> Inl e
      | Inr c \<Rightarrow> enc (rnds 0) k c)"

fun peel_layers :: "(bytes \<Rightarrow> bytes \<Rightarrow> 'e + bytes) \<Rightarrow> bytes list \<Rightarrow> bytes \<Rightarrow> 'e + bytes" where
  "peel_layers dec [] c = Inr c"
| "peel_layers dec (k # ks) c = (case dec k c of Inl e \<Rightarrow> Inl e | Inr c' \<Rightarrow> peel_layers dec ks c')"

locale hop_cipher =
  fixes enc :: "'r \<Rightarrow> bytes \<Rightarrow> bytes \<Rightarrow> 'e + bytes"
    and dec :: "bytes \<Rightarrow> bytes \<Rightarrow> 'e + bytes"
    and key_ok :: "bytes \<Rightarrow> bool"
    and ovh :: nat
  assumes enc_ok: "key_ok k \<Longrightarrow> \<exists>c. enc r k p = Inr c \<and> dec k c = Inr p"
    and enc_bad: "\<not> key_ok k \<Longrightarrow> \<exists>e. enc r k p = Inl e"
    and enc_len: "enc r k p = Inr c \<Longrightarrow> length c = length p + ovh"
    and dec_len: "dec k c = Inr p \<Longrightarrow> length c = length p + ovh"
begin

lemma dec_enc: "enc r k p = Inr c \<Longrightarrow> dec k c = Inr p"
  using enc_ok [of k r p] enc_bad [of k r p] by fastforce

lemma enc_defined: "key_ok k \<longleftrightarrow> (\<exists>c. enc r k p = Inr c)"
  using enc_ok [of k r p] enc_bad [of k r p] by fastforce

lemma wrap_defined: "list_all key_ok ks \<Longrightarrow> \<exists>c. wrap_layers enc rnds ks p = Inr c"
proof (induction ks arbitrary: rnds)
  case (Cons k ks)
  then obtain c where "wrap_layers enc (\<lambda>i. rnds (Suc i)) ks p = Inr c" by auto
  with Cons.prems enc_ok [of k "rnds 0" c] show ?case by auto
qed simp

lemma wrap_length: "wrap_layers enc rnds ks p = Inr c \<Longrightarrow> length c = length p + length ks * ovh"
  by (induction ks arbitrary: rnds c) (auto split: sum.splits dest: enc_len)

lemma peel_wrap: "wrap_layers enc rnds ks p = Inr c \<Longrightarrow> peel_layers dec ks c = Inr p"
  by (induction ks arbitrary: rnds c) (auto split: sum.splits dest: dec_enc)

lemma peel_append:
  "peel_layers dec (ks @ ls) c =
     (case peel_layers dec ks c of Inl e \<Rightarrow> Inl e | Inr c' \<Rightarrow> peel_layers dec ls c')"
  by (induction ks arbitrary: c) (auto split: sum.splits)

lemma peel_length: "peel_layers dec ks c = Inr p \<Longrightarrow> length c = length p + length ks * ovh"
  by (induction ks arbitrary: c) (auto split: sum.splits dest: dec_len)

lemma wrap_Cons_peel:
  assumes "wrap_layers enc rnds (k # ks) p = Inr c"
  obtains c' where "dec k c = Inr c'" "wrap_layers enc (\<lambda>i. rnds (Suc i)) ks p = Inr c'"
  using assms by (auto split: sum.splits dest: dec_enc)

lemma wrap_bad_key:
  "k \<in> set ks \<Longrightarrow> \<not> key_ok k \<Longrightarrow> \<exists>e. wrap_layers enc rnds ks p = Inl e"
proof (induction ks arbitrary: rnds)
  case (Cons k' ks)
  show ?case
  proof (cases "wrap_layers enc (\<lambda>i. rnds (Suc i)) ks p")
    case (Inr c)
    with Cons.IH [of "\<lambda>i. rnds (Suc i)"] Cons.prems have "k = k'" by fastforce
    with Inr enc_bad [of k "rnds 0" c] Cons.prems show ?thesis by auto
  qed simp
qed simp

end

interpretation gcm: hop_cipher "Encrypt aes" "Decrypt aes" "\<lambda>k. length k = 32" 28 for aes
proof unfold_locales
  fix k :: bytes and r p
  assume "length k = 32"
  then show "\<exists>c. Encrypt aes r k p = Inr c \<and> Decrypt aes k c = Inr p"
    by (simp add: Encrypt_def Decrypt_def Let_def)
next
  fix k c p
  assume "Decrypt aes k c = Inr p"
  then show "length c = length p + 28"
    by (auto simp: Decrypt_def split: if_splits option.splits dest!: gcm_open_length)
qed (auto simp: Encrypt_def Let_def split: if_splits)

text \<open>
  C23: Three onion layers laid by the client (exit innermost, entry outermost) are peeled one
  per hop: decrypting in turn with the entry, middle and exit keys returns the payload, and
  the onion is exactly 84 bytes longer than the payload, for every AES block function.
\<close>

theorem onion_roundtrip:
  assumes "length k0 = 32" "length k1 = 32" "length k2 = 32"
  shows "\<exists>c. wrap_layers (Encrypt aes) rnds [k0, k1, k2] p = Inr c \<and>
     length c = length p + 3 * gcmOverhead \<and>
     peel_layers (Decrypt aes) [k0, k1, k2] c = Inr p"
proof -
  obtain c where c: "wrap_layers (Encrypt aes) rnds [k0, k1, k2] p = Inr c"
    using gcm.wrap_defined [of "[k0, k1, k2]" aes rnds p] assms by auto
  with gcm.peel_wrap [OF c] gcm.wrap_length [OF c] show ?thesis by auto
qed

theorem onion_roundtrip_witness:
  "\<exists>c. wrap_layers (Encrypt (\<lambda>k b. b XOR block_of k)) (\<lambda>_ _. 4)
       [replicate 32 1, replicate 32 2, replicate 32 3] [104, 105] = Inr c \<and>
     length c = length ([104, 105] :: bytes) + 3 * gcmOverhead \<and>
     peel_layers (Decrypt (\<lambda>k b. b XOR block_of k)) [replicate 32 1, replicate 32 2, replicate 32 3] c =
       Inr [104, 105]"
  by (rule onion_roundtrip) simp_all

end
