(* ===== verification/Obfs.thy ===== *)
theory Obfs
  imports Cell
begin

text \<open>
  The obfuscation handshake of \<^verbatim>\<open>src/common/obfs.go\<close>. A connection is the bytes still
  to be read from the peer and the bytes written to it; a failing \<^verbatim>\<open>Write\<close> is an argument.
  The uTLS client of \<^verbatim>\<open>github.com/refraction-networking/utls\<close> is a parameter that maps
  the server name and the raw connection to a handshake error or to the wrapped connection.
\<close>

section \<open>Operations\<close>

record conn =
  inbox :: bytes
  outbox :: bytes

datatype obfs_error = WriteError | UtlsHandshake

definition obfsMinPreamble :: nat where "obfsMinPreamble = 32"
definition obfsMaxPreamble :: nat where "obfsMaxPreamble = 512"

lemma obfs_consts [simp]: "obfsMinPreamble = 32" "obfsMaxPreamble = 512"
  by (simp_all add: obfsMinPreamble_def obfsMaxPreamble_def)

definition ObfsPlain :: string where "ObfsPlain = ''plain''"
definition ObfsTLS :: string where "ObfsTLS = ''tls''"
definition ObfsUTLS :: string where "ObfsUTLS = ''utls''"
definition ObfsReality :: string where "ObfsReality = ''reality''"

definition obfs_preamble :: "byte \<Rightarrow> (nat \<Rightarrow> byte) \<Rightarrow> bytes" where
  \<comment> \<open>the buffer of \<^verbatim>\<open>writeObfsPreamble\<close>; \<open>nb\<close> and \<open>rnd\<close> are its random bytes\<close>
  "obfs_preamble nb rnd =
     (let n = unat nb mod (obfsMaxPreamble - obfsMinPreamble) + obfsMinPreamble
      in of_nat n # map rnd [0..<n])"

definition conn_write :: "bool \<Rightarrow> bytes \<Rightarrow> conn \<Rightarrow> obfs_error option \<times> conn" where
  "conn_write fails bs c =
     (if fails then (Some WriteError, c) else (None, c\<lparr>outbox := outbox c @ bs\<rparr>))"

definition writeObfsPreamble :: "bool \<Rightarrow> byte \<Rightarrow> (nat \<Rightarrow> byte) \<Rightarrow> conn \<Rightarrow> obfs_error option \<times> conn" where
  "writeObfsPreamble fails nb rnd c = conn_write fails (obfs_preamble nb rnd) c"

definition skip_preamble :: "bytes \<Rightarrow> bytes" where
  \<comment> \<open>the stream after \<^verbatim>\<open>readObfsPreamble\<close>; both read errors are ignored there, so a
      missing length byte reads as 0 and a short preamble is skipped as far as it goes\<close>
  "skip_preamble bs =
     (case bs of [] \<Rightarrow> []
      | b # rest \<Rightarrow> (let n = unat b in if n > 0 then drop n rest else rest))"

definition readObfsPreamble :: "conn \<Rightarrow> obfs_error option \<times> conn" where
  "readObfsPreamble c = (None, c\<lparr>inbox := skip_preamble (inbox c)\<rparr>)"

definition basicObfsHandshake :: "bool \<Rightarrow> byte \<Rightarrow> (nat \<Rightarrow> byte) \<Rightarrow> conn \<Rightarrow> obfs_error option \<times> conn" where
  "basicObfsHandshake fails nb rnd c =
     (case writeObfsPreamble fails nb rnd c of
        (Some e, c') \<Rightarrow> (Some e, c')
      | (None, c') \<Rightarrow> readObfsPreamble c')"

definition tlsObfsHandshake ::
  "(string \<Rightarrow> conn \<Rightarrow> conn option) \<Rightarrow> bool \<Rightarrow> byte \<Rightarrow> (nat \<Rightarrow> byte) \<Rightarrow> string \<Rightarrow> conn \<Rightarrow> obfs_error option \<times> conn" where
  "tlsObfsHandshake utls fails nb rnd sni0 c =
     (let sni = (if sni0 = '''' then ''www.cloudflare.com'' else sni0) in
      case utls sni c of
        None \<Rightarrow> (Some UtlsHandshake, c)
      | Some client \<Rightarrow> basicObfsHandshake fails nb rnd client)"

definition ObfsHandshake ::
  "(string \<Rightarrow> conn \<Rightarrow> conn option) \<Rightarrow> bool \<Rightarrow> byte \<Rightarrow> (nat \<Rightarrow> byte) \<Rightarrow> string \<Rightarrow> string \<Rightarrow> conn \<Rightarrow> obfs_error option \<times> conn" where
  "ObfsHandshake utls fails nb rnd mode serverName c =
     (if mode = ObfsUTLS \<or> mode = ObfsTLS \<or> mode = ObfsReality
      then tlsObfsHandshake utls fails nb rnd serverName c
      else basicObfsHandshake fails nb rnd c)"

section \<open>Synchronisation of the preamble\<close>

lemma preamble_prefix_byte:
  fixes nb :: byte
  shows "unat (of_nat (unat nb + 32) :: byte) =
     (if unat nb < 224 then unat nb + 32 else unat nb - 224)"
proof -
  have "(unat nb + 32) mod 256 = (if unat nb < 224 then unat nb + 32 else unat nb - 224)"
    using unat8_less [of nb] by (simp add: mod_if)
  then show ?thesis by (simp only: unat_of_nat8)
qed

lemma skip_preamble_Cons: "skip_preamble (b # rest) = drop (unat b) rest"
  by (simp add: skip_preamble_def Let_def)

lemma skip_preamble_in_sync: "unat nb < 224 \<Longrightarrow> skip_preamble (obfs_preamble nb rnd @ rest) = rest"
  using unat8_less [of nb] preamble_prefix_byte [of nb]
  by (simp add: obfs_preamble_def Let_def skip_preamble_Cons del: of_nat_add)

text \<open>
  C40: A peer that reads a preamble written by writeObfsPreamble ends up exactly behind it when
  the drawn byte is below 224. From 224 on the length byte has wrapped modulo 256, and the
  last 256 random bytes of the preamble are left in front of the first cell.
\<close>

theorem obfs_preamble_sync:
  "skip_preamble (obfs_preamble nb rnd @ rest) =
     (if unat nb < 224 then rest else map rnd [unat nb - 224..<unat nb + 32] @ rest)"
proof -
  have "skip_preamble (obfs_preamble nb rnd @ rest) =
      drop (unat (of_nat (unat nb + 32) :: byte)) (map rnd [0..<unat nb + 32] @ rest)"
    using unat8_less [of nb]
    by (simp add: obfs_preamble_def Let_def skip_preamble_Cons del: of_nat_add)
  also have "\<dots> = (if unat nb < 224 then rest else map rnd [unat nb - 224..<unat nb + 32] @ rest)"
    by (simp only: preamble_prefix_byte) (simp add: drop_map)
  finally show ?thesis .
qed

end
