(* ===== verification/Replay.thy ===== *)
theory Replay
  imports Prelude
begin

text \<open>
  \<^verbatim>\<open>src/common/replay.go\<close>: the replay filter and the idle-circuit tracker. Both keep a
  map of time stamps that a background goroutine purges. Time is an integer number of
  nanoseconds; the clock reading of each call is an argument. Go iterates over a map in an
  unspecified order, so \<^verbatim>\<open>sweep\<close> takes the iteration order as an argument.
  The locale \<open>stamped_store\<close> states when an entry of such a map may disappear; the
  survival lemma is proved there once and interpreted on the replay filter, on the tracker
  and (in the broker theory) on the token store.
\<close>

section \<open>Stores of time-stamped entries\<close>

locale stamped_store =
  fixes stamp :: "'s \<Rightarrow> 'k \<Rightarrow> int option"
    and step :: "'op \<Rightarrow> 's \<Rightarrow> 's"
    and op_time :: "'op \<Rightarrow> int"
    and drops :: "'op \<Rightarrow> 'k \<Rightarrow> bool"
    and ttl :: "'s \<Rightarrow> int"
  assumes keep: "stamp s k = Some t \<Longrightarrow> \<not> drops op k \<Longrightarrow> t \<le> op_time op \<Longrightarrow> op_time op \<le> t + ttl s \<Longrightarrow>
      \<exists>t'. stamp (step op s) k = Some t' \<and> t \<le> t' \<and> t' \<le> op_time op"
    and ttl_step: "ttl (step op s) = ttl s"
begin

lemma run_keeps:
  assumes "stamp s k = Some t" and "\<forall>op \<in> set ops. \<not> drops op k \<and> t \<le> op_time op \<and> op_time op \<le> t + ttl s"
    and "sorted (map op_time ops)"
  shows "\<exists>t'. stamp (fold step ops s) k = Some t' \<and> t \<le> t'"
  using assms
proof (induction ops arbitrary: s t)
  case (Cons op ops)
  then obtain t' where t': "stamp (step op s) k = Some t'" "t \<le> t'" "t' \<le> op_time op"
    using keep [of s k t op] by auto
  have "\<forall>o' \<in> set ops. \<not> drops o' k \<and> t' \<le> op_time o' \<and> op_time o' \<le> t' + ttl (step op s)"
    using Cons.prems t' by (fastforce simp: ttl_step)
  then obtain t'' where "stamp (fold step ops (step op s)) k = Some t''" "t' \<le> t''"
    using Cons.IH [OF t'(1)] Cons.prems(3) by auto
  with t' show ?case by auto
qed simp

end

section \<open>Replay filter\<close>

definition replayWindow :: int where
  \<comment> \<open>10 minutes\<close>
  "replayWindow = 10 * 60 * 1000000000"

record ReplayFilter =
  seen :: "string \<rightharpoonup> int"

definition NewReplayFilter :: ReplayFilter where
  "NewReplayFilter = \<lparr>seen = Map.empty\<rparr>"

definition replay_key :: "uint32 \<Rightarrow> bytes \<Rightarrow> string" where
  \<comment> \<open>\<^verbatim>\<open>fmt.Sprintf("%d:%x", circID, nonce)\<close>\<close>
  "replay_key circID nonce = dec_nat (unat circID) @ '':'' @ hex_encode nonce"

definition Allow :: "int \<Rightarrow> uint32 \<Rightarrow> bytes \<Rightarrow> ReplayFilter \<Rightarrow> bool \<times> ReplayFilter" where
  "Allow now circID nonce rf =
     (let key = replay_key circID nonce in
      if seen rf key \<noteq> None then (False, rf)
      else (True, rf\<lparr>seen := (seen rf)(key \<mapsto> now)\<rparr>))"

definition replay_gc :: "int \<Rightarrow> ReplayFilter \<Rightarrow> ReplayFilter" where
  \<comment> \<open>one tick of \<^verbatim>\<open>gc\<close>\<close>
  "replay_gc now rf =
     (let cutoff = now - replayWindow in
      rf\<lparr>seen := (\<lambda>k. case seen rf k of None \<Rightarrow> None | Some t \<Rightarrow> if t < cutoff then None else Some t)\<rparr>)"

datatype replay_op = OpAllow int uint32 bytes | OpGC int

fun replay_step :: "replay_op \<Rightarrow> ReplayFilter \<Rightarrow> ReplayFilter" where
  "replay_step (OpAllow now c n) rf = snd (Allow now c n rf)"
| "replay_step (OpGC now) rf = replay_gc now rf"

fun replay_time :: "replay_op \<Rightarrow> int" where
  "replay_time (OpAllow now c n) = now"
| "replay_time (OpGC now) = now"

lemma split_at_colon:
  assumes "c \<notin> set xs" "c \<notin> set xs'" "xs @ c # ys = xs' @ c # ys'"
  shows "xs = xs' \<and> ys = ys'"
  using assms
proof (induction xs arbitrary: xs')
  case Nil
  then show ?case by (cases xs') auto
next
  case (Cons x xs)
  then show ?case by (cases xs') auto
qed

lemma colon_not_digit: "CHR '':'' \<notin> set (dec_nat n)"
  using dec_nat_digits [of "CHR '':''" n] by auto

lemma replay_key_inject [simp]:
  "replay_key c n = replay_key c' n' \<longleftrightarrow> c = c' \<and> n = n'"
proof
  assume "replay_key c n = replay_key c' n'"
  then have "dec_nat (unat c) @ CHR '':'' # hex_encode n = dec_nat (unat c') @ CHR '':'' # hex_encode n'"
    by (simp add: replay_key_def)
  from split_at_colon [OF colon_not_digit colon_not_digit this] show "c = c' \<and> n = n'"
    by (simp add: word_unat_eq_iff)
qed simp

interpretation rf: stamped_store "\<lambda>rf (c, n). seen rf (replay_key c n)" replay_step replay_time
    "\<lambda>op k. False" "\<lambda>rf. replayWindow"
proof unfold_locales
  fix rf :: ReplayFilter and k :: "uint32 \<times> bytes" and t op
  obtain c n where k: "k = (c, n)" by (cases k)
  assume "(case k of (c, n) \<Rightarrow> seen rf (replay_key c n)) = Some t"
    and tm: "t \<le> replay_time op" "replay_time op \<le> t + replayWindow"
  then have t: "seen rf (replay_key c n) = Some t" using k by simp
  have "seen (replay_step op rf) (replay_key c n) = Some t"
    using t tm by (cases op) (auto simp: Allow_def replay_gc_def Let_def)
  then show "\<exists>t'. (case k of (c, n) \<Rightarrow> seen (replay_step op rf) (replay_key c n)) = Some t' \<and>
      t \<le> t' \<and> t' \<le> replay_time op"
    using k tm by auto
qed simp

text \<open>
  A (circID, nonce) pair the filter has accepted is rejected again at every later time
  within the 10-minute window, whatever other lookups and purges happen in between; distinct
  pairs never share a key.
\<close>

theorem replay_rejected_in_window:
  assumes "Allow now c n rf = (True, rf')"
    and "sorted (map replay_time ops)"
    and "\<forall>op \<in> set ops. now \<le> replay_time op \<and> replay_time op \<le> now + replayWindow"
  shows "fst (Allow later c n (fold replay_step ops rf')) = False"
proof -
  have "seen rf' (replay_key c n) = Some now"
    using assms(1) by (auto simp: Allow_def Let_def split: if_splits)
  then have "\<exists>t'. seen (fold replay_step ops rf') (replay_key c n) = Some t' \<and> now \<le> t'"
    using rf.run_keeps [of rf' "(c, n)" now ops] assms(2,3) by auto
  then show ?thesis by (auto simp: Allow_def Let_def)
qed

theorem replay_rejected_in_window_witness:
  "Allow 0 7 [1, 2] NewReplayFilter = (True, NewReplayFilter\<lparr>seen := [replay_key 7 [1, 2] \<mapsto> 0]\<rparr>) \<and>
   fst (Allow 11 7 [1, 2] (fold replay_step [OpGC 5, OpAllow 6 8 [1, 2]]
     (NewReplayFilter\<lparr>seen := [replay_key 7 [1, 2] \<mapsto> 0]\<rparr>))) = False"
proof -
  have 1: "Allow 0 7 [1, 2] NewReplayFilter = (True, NewReplayFilter\<lparr>seen := [replay_key 7 [1, 2] \<mapsto> 0]\<rparr>)"
    by (simp add: Allow_def NewReplayFilter_def)
  moreover have "sorted (map replay_time [OpGC 5, OpAllow 6 8 [1, 2]])" by simp
  moreover have "\<forall>op \<in> set [OpGC 5, OpAllow 6 8 [1, 2]]. 0 \<le> replay_time op \<and> replay_time op \<le> 0 + replayWindow"
    by (simp add: replayWindow_def)
  ultimately show ?thesis using replay_rejected_in_window [OF 1] by blast
qed

lemma replay_gc_bound: "seen (replay_gc now rf) k = Some t \<Longrightarrow> now - replayWindow \<le> t"
  by (auto simp: replay_gc_def Let_def split: option.splits if_splits)

section \<open>Circuit timeout tracker\<close>

record TimeoutTracker =
  lastSeen :: "uint32 \<rightharpoonup> int"
  idleTimeout :: int

definition NewTimeoutTracker :: "int \<Rightarrow> TimeoutTracker" where
  "NewTimeoutTracker idle = \<lparr>lastSeen = Map.empty, idleTimeout = idle\<rparr>"

definition Touch :: "int \<Rightarrow> uint32 \<Rightarrow> TimeoutTracker \<Rightarrow> TimeoutTracker" where
  "Touch now circID t = t\<lparr>lastSeen := (lastSeen t)(circID \<mapsto> now)\<rparr>"

definition Remove :: "uint32 \<Rightarrow> TimeoutTracker \<Rightarrow> TimeoutTracker" where
  "Remove circID t = t\<lparr>lastSeen := (lastSeen t)(circID := None)\<rparr>"

definition idle_expired :: "int \<Rightarrow> TimeoutTracker \<Rightarrow> uint32 \<Rightarrow> bool" where
  "idle_expired now t circID \<longleftrightarrow>
     (case lastSeen t circID of None \<Rightarrow> False | Some ts \<Rightarrow> ts < now - idleTimeout t)"

text \<open>
  One tick of \<^verbatim>\<open>sweep\<close> up to the callbacks: the expired circuits in iteration order
  \<open>order\<close> (an enumeration of the tracked ids) and the tracker without them.
\<close>

definition sweep :: "int \<Rightarrow> uint32 list \<Rightarrow> TimeoutTracker \<Rightarrow> uint32 list \<times> TimeoutTracker" where
  "sweep now order t =
     (filter (idle_expired now t) order,
      t\<lparr>lastSeen := (\<lambda>cid. if idle_expired now t cid \<and> cid \<in> set order then None else lastSeen t cid)\<rparr>)"

datatype tracker_op = OpTouch int uint32 | OpRemove int uint32 | OpSweep int "uint32 list"

fun tracker_step :: "tracker_op \<Rightarrow> TimeoutTracker \<Rightarrow> TimeoutTracker" where
  "tracker_step (OpTouch now cid) t = Touch now cid t"
| "tracker_step (OpRemove now cid) t = Remove cid t"
| "tracker_step (OpSweep now order) t = snd (sweep now order t)"

fun tracker_time :: "tracker_op \<Rightarrow> int" where
  "tracker_time (OpTouch now cid) = now"
| "tracker_time (OpRemove now cid) = now"
| "tracker_time (OpSweep now order) = now"

fun tracker_drops :: "tracker_op \<Rightarrow> uint32 \<Rightarrow> bool" where
  "tracker_drops (OpRemove now cid) cid' = (cid = cid')"
| "tracker_drops _ _ = False"

interpretation tt: stamped_store lastSeen tracker_step tracker_time tracker_drops idleTimeout
proof unfold_locales
  fix s :: TimeoutTracker and k t op
  assume "lastSeen s k = Some t" "\<not> tracker_drops op k" "t \<le> tracker_time op"
    "tracker_time op \<le> t + idleTimeout s"
  then show "\<exists>t'. lastSeen (tracker_step op s) k = Some t' \<and> t \<le> t' \<and> t' \<le> tracker_time op"
    by (cases op) (auto simp: Touch_def Remove_def sweep_def idle_expired_def)
next
  fix op s
  show "idleTimeout (tracker_step op s) = idleTimeout s"
    by (cases op) (simp_all add: Touch_def Remove_def sweep_def)
qed

lemma sweep_expired_iff:
  "cid \<in> set (fst (sweep now order t)) \<longleftrightarrow> cid \<in> set order \<and> idle_expired now t cid"
  by (auto simp: sweep_def)

lemma sweep_lastSeen:
  "dom (lastSeen t) \<subseteq> set order \<Longrightarrow>
   lastSeen (snd (sweep now order t)) cid = (if idle_expired now t cid then None else lastSeen t cid)"
  by (auto simp: sweep_def idle_expired_def split: option.splits)

lemma Touch_dom [simp]: "dom (lastSeen (Touch now cid t)) = insert cid (dom (lastSeen t))"
  by (simp add: Touch_def)

lemma Remove_dom [simp]: "dom (lastSeen (Remove cid t)) = dom (lastSeen t) - {cid}"
  by (simp add: Remove_def)

text \<open>
  A circuit that was touched is not reported by any sweep within the idle timeout, and a
  sweep after more than the timeout without a further touch reports it, exactly once, since
  it forgets what it reports.
\<close>

theorem idle_sweep_exact:
  assumes "lastSeen t cid = Some ts" "set order = dom (lastSeen t)"
  shows "(cid \<in> set (fst (sweep now order t)) \<longleftrightarrow> now > ts + idleTimeout t) \<and>
     (cid \<in> set (fst (sweep now order t)) \<longrightarrow>
        cid \<notin> set (fst (sweep later order' (snd (sweep now order t)))))"
  using assms by (auto simp: sweep_def idle_expired_def)

theorem idle_sweep_exact_witness:
  "5 \<in> set (fst (sweep 301 [5, 6] (Touch 0 5 (Touch 100 6 (NewTimeoutTracker 300))))) \<and>
   6 \<notin> set (fst (sweep 301 [5, 6] (Touch 0 5 (Touch 100 6 (NewTimeoutTracker 300)))))"
proof -
  let ?t = "Touch 0 5 (Touch 100 6 (NewTimeoutTracker 300))"
  have s: "lastSeen ?t 5 = Some 0" "lastSeen ?t 6 = Some 100" "idleTimeout ?t = 300"
    "set [5, 6] = dom (lastSeen ?t)"
    by (auto simp: Touch_def NewTimeoutTracker_def)
  from idle_sweep_exact [OF s(1,4), of 301 0 "[]"] idle_sweep_exact [OF s(2,4), of 301 0 "[]"] s(3)
  show ?thesis by simp
qed

end
