(* ===== verification/Config.thy ===== *)
theory Config
  imports Complex_Main Prelude
begin

text \<open>
  The shared data types of \<^verbatim>\<open>src/common/types.go\<close>, the configuration structs of
  \<^verbatim>\<open>src/common/config.go\<close> with their \<^verbatim>\<open>ApplyDefaults\<close>, and the log levels of
  \<^verbatim>\<open>src/common/logger.go\<close>. Field names carry a short prefix for their struct, because
  record fields are global in HOL. A \<^verbatim>\<open>float64\<close> setting is the rational number it holds.
  The locale \<open>defaulting\<close> is the contract the six \<^verbatim>\<open>ApplyDefaults\<close> methods share.
\<close>

section \<open>Shared types\<close>

type_synonym float64 = rat

definition KindRelay :: string where "KindRelay = ''relay''"
definition KindBroker :: string where "KindBroker = ''broker''"

record RelayDescriptor =
  rd_ID :: string
  rd_IP :: string
  rd_Port :: int
  rd_Role :: string
  rd_PublicKey :: string
  rd_Country :: string
  rd_Region :: string
  rd_OperMode :: string
  rd_Bandwidth :: int
  rd_Version :: string
  rd_LastSeen :: int

record BrokerDescriptor =
  bd_ID :: string
  bd_IP :: string
  bd_Port :: int
  bd_PublicKey :: string
  bd_Country :: string
  bd_Region :: string
  bd_Modes :: "string list"
  bd_LastSeen :: int

record SignedConsensus =
  sc_Relays :: "RelayDescriptor list"
  sc_Brokers :: "BrokerDescriptor list"
  sc_Timestamp :: int
  sc_Signature :: string
  sc_RelaysJSON :: string
  sc_BrokersJSON :: string

record RegisterRequest =
  rq_Kind :: string
  rq_Relay :: "RelayDescriptor option"
  rq_Broker :: "BrokerDescriptor option"
  rq_Timestamp :: int
  rq_HMAC :: string

record AssignRequest =
  aq_Role :: string
  aq_Country :: string
  aq_Region :: string
  aq_Mode :: string

record AssignResponse =
  ar_Relay :: RelayDescriptor
  ar_Token :: string
  ar_ExpiresAt :: int

definition TokenTTL :: int where
  \<comment> \<open>5 minutes, in nanoseconds\<close>
  "TokenTTL = 5 * 60 * 1000000000"

record IntroPoint =
  ip_RelayID :: string
  ip_RelayIP :: string
  ip_RelayPort :: int
  ip_AuthKey :: string

record HiddenServiceDescriptor =
  hd_Hostname :: string
  hd_IntroPoints :: "IntroPoint list"
  hd_PublicKey :: string
  hd_Signature :: string
  hd_PublishedAt :: int

record BridgeConfig =
  br_Endpoint :: string
  br_Token :: string
  br_Obfs :: string
  br_Mode :: string

record KindOffer =
  ko_SDP :: string

record KindAnswer =
  kan_SDP :: string

record KindPollResponse =
  kp_SessionID :: string
  kp_Offer :: string

record KindAnswerRequest =
  ka_SessionID :: string
  ka_Answer :: string

section \<open>Configuration defaults\<close>

text \<open>One line of an \<^verbatim>\<open>ApplyDefaults\<close>: a setting at its zero value \<open>z\<close> gets the default.\<close>

definition dflt :: "'a \<Rightarrow> 'a \<Rightarrow> 'a \<Rightarrow> 'a" where
  "dflt z d v = (if v = z then d else v)"

lemma dflt_set [simp]: "v \<noteq> z \<Longrightarrow> dflt z d v = v"
  by (simp add: dflt_def)

lemma dflt_complete [simp]: "d \<noteq> z \<Longrightarrow> dflt z d v \<noteq> z"
  by (simp add: dflt_def)

record DirectoryConfig =
  dc_ListenAddr :: string
  dc_TLSCert :: string
  dc_TLSKey :: string
  dc_KeyFile :: string
  dc_RegSecret :: string
  dc_LogLevel :: string
  dc_RegisterRPS :: float64
  dc_ConsensusRPS :: float64
  dc_ConsensusMaxAge :: int
  dc_PeerDirs :: "string list"
  dc_SyncTLSCA :: string

definition DirectoryConfig_ApplyDefaults :: "DirectoryConfig \<Rightarrow> DirectoryConfig" where
  "DirectoryConfig_ApplyDefaults c = c\<lparr>
     dc_ListenAddr := dflt '''' '':7000'' (dc_ListenAddr c),
     dc_KeyFile := dflt '''' ''directory.key'' (dc_KeyFile c),
     dc_LogLevel := dflt '''' ''info'' (dc_LogLevel c),
     dc_RegisterRPS := dflt 0 5 (dc_RegisterRPS c),
     dc_ConsensusRPS := dflt 0 20 (dc_ConsensusRPS c),
     dc_ConsensusMaxAge := dflt 0 300 (dc_ConsensusMaxAge c)\<rparr>"

definition DirectoryConfig_complete :: "DirectoryConfig \<Rightarrow> bool" where
  "DirectoryConfig_complete c \<longleftrightarrow>
     dc_ListenAddr c \<noteq> '''' \<and>
     dc_KeyFile c \<noteq> '''' \<and>
     dc_LogLevel c \<noteq> '''' \<and>
     dc_RegisterRPS c \<noteq> 0 \<and>
     dc_ConsensusRPS c \<noteq> 0 \<and>
     dc_ConsensusMaxAge c \<noteq> 0"

record RelayConfig =
  rc_ID :: string
  rc_IP :: string
  rc_Port :: int
  rc_HealthPort :: int
  rc_Role :: string
  rc_Country :: string
  rc_Region :: string
  rc_OperMode :: string
  rc_Bandwidth :: int
  rc_Version :: string
  rc_DirURL :: string
  rc_DirTLSCA :: string
  rc_RegSecret :: string
  rc_KeyFile :: string
  rc_InternalDNS :: string
  rc_LogLevel :: string
  rc_CircuitIdleSecs :: int

definition RelayConfig_ApplyDefaults :: "RelayConfig \<Rightarrow> RelayConfig" where
  "RelayConfig_ApplyDefaults c = c\<lparr>
     rc_Port := dflt 0 9001 (rc_Port c),
     rc_HealthPort := dflt 0 (int64 (dflt 0 9001 (rc_Port c) + 1000)) (rc_HealthPort c),
     rc_Role := dflt '''' ''middle'' (rc_Role c),
     rc_OperMode := dflt '''' ''normal'' (rc_OperMode c),
     rc_DirURL := dflt '''' ''https://127.0.0.1:7000'' (rc_DirURL c),
     rc_KeyFile := dflt '''' ''relay.key'' (rc_KeyFile c),
     rc_LogLevel := dflt '''' ''info'' (rc_LogLevel c),
     rc_CircuitIdleSecs := dflt 0 300 (rc_CircuitIdleSecs c),
     rc_Version := dflt '''' ''1.0.0'' (rc_Version c),
     rc_InternalDNS := dflt '''' ''127.0.0.1:2080'' (rc_InternalDNS c)\<rparr>"

definition RelayConfig_complete :: "RelayConfig \<Rightarrow> bool" where
  "RelayConfig_complete c \<longleftrightarrow>
     rc_Port c \<noteq> 0 \<and>
     (rc_HealthPort c \<noteq> 0 \<or> int64 (rc_Port c + 1000) = 0) \<and>
     rc_Role c \<noteq> '''' \<and>
     rc_OperMode c \<noteq> '''' \<and>
     rc_DirURL c \<noteq> '''' \<and>
     rc_KeyFile c \<noteq> '''' \<and>
     rc_LogLevel c \<noteq> '''' \<and>
     rc_CircuitIdleSecs c \<noteq> 0 \<and>
     rc_Version c \<noteq> '''' \<and>
     rc_InternalDNS c \<noteq> ''''"

record BrokerConfig =
  bc_ID :: string
  bc_IP :: string
  bc_Port :: int
  bc_Country :: string
  bc_Region :: string
  bc_Modes :: "string list"
  bc_DirURL :: string
  bc_DirTLSCA :: string
  bc_RegSecret :: string
  bc_KeyFile :: string
  bc_TLSCert :: string
  bc_TLSKey :: string
  bc_LogLevel :: string
  bc_STUNServers :: "string list"

definition BrokerConfig_ApplyDefaults :: "BrokerConfig \<Rightarrow> BrokerConfig" where
  "BrokerConfig_ApplyDefaults c = c\<lparr>
     bc_Port := dflt 0 7100 (bc_Port c),
     bc_DirURL := dflt '''' ''https://127.0.0.1:7000'' (bc_DirURL c),
     bc_KeyFile := dflt '''' ''broker.key'' (bc_KeyFile c),
     bc_LogLevel := dflt '''' ''info'' (bc_LogLevel c),
     bc_Modes := dflt [] [''normal''] (bc_Modes c),
     bc_STUNServers := dflt [] [''stun:stun.l.google.com:19302''] (bc_STUNServers c)\<rparr>"

definition BrokerConfig_complete :: "BrokerConfig \<Rightarrow> bool" where
  "BrokerConfig_complete c \<longleftrightarrow>
     bc_Port c \<noteq> 0 \<and>
     bc_DirURL c \<noteq> '''' \<and>
     bc_KeyFile c \<noteq> '''' \<and>
     bc_LogLevel c \<noteq> '''' \<and>
     bc_Modes c \<noteq> [] \<and>
     bc_STUNServers c \<noteq> []"

record BridgeServerConfig =
  gc_ForeignDirURL :: string
  gc_ForeignDirTLSCA :: string
  gc_UpstreamProxy :: string
  gc_ListenAddr :: string
  gc_Token :: string
  gc_Obfs :: string
  gc_Mode :: string
  gc_TLSCert :: string
  gc_TLSKey :: string
  gc_KeyFile :: string
  gc_LogLevel :: string

definition BridgeServerConfig_ApplyDefaults :: "BridgeServerConfig \<Rightarrow> BridgeServerConfig" where
  "BridgeServerConfig_ApplyDefaults c = c\<lparr>
     gc_ListenAddr := dflt '''' '':9000'' (gc_ListenAddr c),
     gc_Obfs := dflt '''' ''tls'' (gc_Obfs c),
     gc_Mode := dflt '''' ''secure'' (gc_Mode c),
     gc_KeyFile := dflt '''' ''bridge.key'' (gc_KeyFile c),
     gc_LogLevel := dflt '''' ''info'' (gc_LogLevel c)\<rparr>"

definition BridgeServerConfig_complete :: "BridgeServerConfig \<Rightarrow> bool" where
  "BridgeServerConfig_complete c \<longleftrightarrow>
     gc_ListenAddr c \<noteq> '''' \<and>
     gc_Obfs c \<noteq> '''' \<and>
     gc_Mode c \<noteq> '''' \<and>
     gc_KeyFile c \<noteq> '''' \<and>
     gc_LogLevel c \<noteq> ''''"

record ClientConfig =
  cc_DirURL :: string
  cc_BridgeURI :: string
  cc_BrokerID :: string
  cc_KindBrokerURL :: string
  cc_SOCKS5Addr :: string
  cc_HTTPProxyAddr :: string
  cc_CircuitCount :: int
  cc_CircuitRotateSecs :: int
  cc_GuardFile :: string
  cc_DirTLSCA :: string
  cc_LogLevel :: string

definition ClientConfig_ApplyDefaults :: "ClientConfig \<Rightarrow> ClientConfig" where
  "ClientConfig_ApplyDefaults c = c\<lparr>
     cc_DirURL := dflt '''' ''https://127.0.0.1:7000'' (cc_DirURL c),
     cc_SOCKS5Addr := dflt '''' ''127.0.0.1:1080'' (cc_SOCKS5Addr c),
     cc_HTTPProxyAddr := dflt '''' ''127.0.0.1:8080'' (cc_HTTPProxyAddr c),
     cc_CircuitCount := dflt 0 3 (cc_CircuitCount c),
     cc_CircuitRotateSecs := dflt 0 600 (cc_CircuitRotateSecs c),
     cc_GuardFile := dflt '''' ''.sbnet_guard'' (cc_GuardFile c),
     cc_LogLevel := dflt '''' ''info'' (cc_LogLevel c)\<rparr>"

definition ClientConfig_complete :: "ClientConfig \<Rightarrow> bool" where
  "ClientConfig_complete c \<longleftrightarrow>
     cc_DirURL c \<noteq> '''' \<and>
     cc_SOCKS5Addr c \<noteq> '''' \<and>
     cc_HTTPProxyAddr c \<noteq> '''' \<and>
     cc_CircuitCount c \<noteq> 0 \<and>
     cc_CircuitRotateSecs c \<noteq> 0 \<and>
     cc_GuardFile c \<noteq> '''' \<and>
     cc_LogLevel c \<noteq> ''''"

record KindConfig =
  kc_BrokerURL :: string
  kc_DirURL :: string
  kc_DirTLSCA :: string
  kc_STUNServers :: "string list"
  kc_Capacity :: int
  kc_LogLevel :: string

definition KindConfig_ApplyDefaults :: "KindConfig \<Rightarrow> KindConfig" where
  "KindConfig_ApplyDefaults c = c\<lparr>
     kc_BrokerURL := dflt '''' ''http://127.0.0.1:7100'' (kc_BrokerURL c),
     kc_DirURL := dflt '''' ''https://127.0.0.1:7000'' (kc_DirURL c),
     kc_STUNServers := dflt [] [''stun:stun.l.google.com:19302''] (kc_STUNServers c),
     kc_Capacity := dflt 0 4 (kc_Capacity c),
     kc_LogLevel := dflt '''' ''info'' (kc_LogLevel c)\<rparr>"

definition KindConfig_complete :: "KindConfig \<Rightarrow> bool" where
  "KindConfig_complete c \<longleftrightarrow>
     kc_BrokerURL c \<noteq> '''' \<and>
     kc_DirURL c \<noteq> '''' \<and>
     kc_STUNServers c \<noteq> [] \<and>
     kc_Capacity c \<noteq> 0 \<and>
     kc_LogLevel c \<noteq> ''''"

locale defaulting =
  fixes apply_defaults :: "'c \<Rightarrow> 'c"
    and complete :: "'c \<Rightarrow> bool"
  assumes defaults_complete: "complete (apply_defaults c)"
    and complete_unchanged: "complete c \<Longrightarrow> apply_defaults c = c"
begin

lemma defaults_idempotent: "apply_defaults (apply_defaults c) = apply_defaults c"
  by (rule complete_unchanged [OF defaults_complete])

lemma unchanged_iff_complete: "apply_defaults c = c \<longleftrightarrow> complete c"
  using defaults_complete [of c] complete_unchanged [of c] by auto

end

interpretation dir_cfg: defaulting DirectoryConfig_ApplyDefaults DirectoryConfig_complete
  by unfold_locales (simp_all add: DirectoryConfig_ApplyDefaults_def DirectoryConfig_complete_def)

interpretation relay_cfg: defaulting RelayConfig_ApplyDefaults RelayConfig_complete
proof unfold_locales
  fix c
  have health: "dflt 0 d v = (0 :: int) \<Longrightarrow> d = 0" for d v by (simp add: dflt_def split: if_splits)
  show "RelayConfig_complete (RelayConfig_ApplyDefaults c)"
    unfolding RelayConfig_ApplyDefaults_def RelayConfig_complete_def RelayConfig.select_convs
      RelayConfig.update_convs
    by (intro conjI) (auto dest: health)
next
  fix c
  assume c: "RelayConfig_complete c"
  then have "dflt 0 (int64 (dflt 0 9001 (rc_Port c) + 1000)) (rc_HealthPort c) = rc_HealthPort c"
    unfolding RelayConfig_complete_def dflt_def by (simp split: if_split)
  with c show "RelayConfig_ApplyDefaults c = c"
    unfolding RelayConfig_ApplyDefaults_def RelayConfig_complete_def by simp
qed

interpretation broker_cfg: defaulting BrokerConfig_ApplyDefaults BrokerConfig_complete
  by unfold_locales (simp_all add: BrokerConfig_ApplyDefaults_def BrokerConfig_complete_def)

interpretation bridge_cfg: defaulting BridgeServerConfig_ApplyDefaults BridgeServerConfig_complete
  by unfold_locales (simp_all add: BridgeServerConfig_ApplyDefaults_def BridgeServerConfig_complete_def)

interpretation client_cfg: defaulting ClientConfig_ApplyDefaults ClientConfig_complete
  by unfold_locales (simp_all add: ClientConfig_ApplyDefaults_def ClientConfig_complete_def)

interpretation kind_cfg: defaulting KindConfig_ApplyDefaults KindConfig_complete
  by unfold_locales (simp_all add: KindConfig_ApplyDefaults_def KindConfig_complete_def)

text \<open>
  ApplyDefaults of all six components is idempotent and changes a configuration exactly
  when one of the defaulted settings is missing: a complete configuration is never altered.
\<close>

theorem apply_defaults_contract:
  "(DirectoryConfig_ApplyDefaults d = d \<longleftrightarrow> DirectoryConfig_complete d) \<and>
   (RelayConfig_ApplyDefaults r = r \<longleftrightarrow> RelayConfig_complete r) \<and>
   (BrokerConfig_ApplyDefaults b = b \<longleftrightarrow> BrokerConfig_complete b) \<and>
   (BridgeServerConfig_ApplyDefaults g = g \<longleftrightarrow> BridgeServerConfig_complete g) \<and>
   (ClientConfig_ApplyDefaults c = c \<longleftrightarrow> ClientConfig_complete c) \<and>
   (KindConfig_ApplyDefaults k = k \<longleftrightarrow> KindConfig_complete k) \<and>
   DirectoryConfig_complete (DirectoryConfig_ApplyDefaults d) \<and>
   RelayConfig_complete (RelayConfig_ApplyDefaults r) \<and>
   BrokerConfig_complete (BrokerConfig_ApplyDefaults b) \<and>
   BridgeServerConfig_complete (BridgeServerConfig_ApplyDefaults g) \<and>
   ClientConfig_complete (ClientConfig_ApplyDefaults c) \<and>
   KindConfig_complete (KindConfig_ApplyDefaults k)"
  by (intro conjI dir_cfg.unchanged_iff_complete relay_cfg.unchanged_iff_complete
      broker_cfg.unchanged_iff_complete bridge_cfg.unchanged_iff_complete
      client_cfg.unchanged_iff_complete kind_cfg.unchanged_iff_complete
      dir_cfg.defaults_complete relay_cfg.defaults_complete broker_cfg.defaults_complete
      bridge_cfg.defaults_complete client_cfg.defaults_complete kind_cfg.defaults_complete)

section \<open>Log levels\<close>

datatype LogLevel = LogError | LogWarn | LogInfo | LogDebug

fun level_ord :: "LogLevel \<Rightarrow> nat" where
  "level_ord LogError = 0"
| "level_ord LogWarn = 1"
| "level_ord LogInfo = 2"
| "level_ord LogDebug = 3"

text \<open>
  \<^verbatim>\<open>strings.ToLower\<close> as far as it can produce the ASCII words the switch compares with:
  the letters A to Z, and U+0130 (bytes 196 176), whose lower case is the letter i. Every
  other upper-case letter maps outside of those words.
\<close>

fun to_lower :: "string \<Rightarrow> string" where
  "to_lower [] = []"
| "to_lower (c # s) =
     (if of_char c = (196 :: nat) \<and> s \<noteq> [] \<and> of_char (hd s) = (176 :: nat) then CHR ''i'' # to_lower (tl s)
      else (if 65 \<le> (of_char c :: nat) \<and> of_char c \<le> (90 :: nat) then char_of (of_char c + (32 :: nat)) else c)
             # to_lower s)"

definition ParseLogLevel :: "string \<Rightarrow> LogLevel" where
  "ParseLogLevel s =
     (let w = to_lower (TrimSpace s) in
      if w = ''debug'' then LogDebug
      else if w = ''info'' then LogInfo
      else if w = ''warn'' \<or> w = ''warning'' then LogWarn
      else if w = ''error'' then LogError
      else LogInfo)"

datatype log_writer = Stderr | OtherWriter nat

record Logger =
  lg_level :: LogLevel
  lg_component :: string
  lg_out :: log_writer

definition NewLogger :: "string \<Rightarrow> LogLevel \<Rightarrow> log_writer option \<Rightarrow> Logger" where
  "NewLogger component lvl w =
     \<lparr>lg_level = lvl, lg_component = component, lg_out = (case w of None \<Rightarrow> Stderr | Some x \<Rightarrow> x)\<rparr>"

definition logger_write ::
  "string \<Rightarrow> (string \<Rightarrow> 'a list \<Rightarrow> string) \<Rightarrow> Logger \<Rightarrow> LogLevel \<Rightarrow> string \<Rightarrow> string \<Rightarrow> 'a list \<Rightarrow> (log_writer \<times> string) option" where
  \<comment> \<open>the line \<^verbatim>\<open>write\<close> prints and where, for the formatted time \<open>ts\<close> and the formatter \<open>sprintf\<close>\<close>
  "logger_write ts sprintf l lvl tag msg args =
     (if level_ord lvl > level_ord (lg_level l) then None
      else let body = (if length args > 0 then sprintf msg args else msg) in
        Some (lg_out l, ts @ '' ['' @ tag @ ''] ['' @ lg_component l @ ''] '' @ body))"

fun log_tag :: "LogLevel \<Rightarrow> string" where
  \<comment> \<open>the tags of the methods \<^verbatim>\<open>Debug\<close>, \<^verbatim>\<open>Info\<close>, \<^verbatim>\<open>Warn\<close> and \<^verbatim>\<open>Error\<close>\<close>
  "log_tag LogDebug = ''DEBUG''"
| "log_tag LogInfo = ''INFO ''"
| "log_tag LogWarn = ''WARN ''"
| "log_tag LogError = ''ERROR''"

definition log_call ::
  "string \<Rightarrow> (string \<Rightarrow> 'a list \<Rightarrow> string) \<Rightarrow> LogLevel \<Rightarrow> Logger \<Rightarrow> string \<Rightarrow> 'a list \<Rightarrow> (log_writer \<times> string) option" where
  \<comment> \<open>the method of the given level\<close>
  "log_call ts sprintf lvl l msg args = logger_write ts sprintf l lvl (log_tag lvl) msg args"

lemma log_call_error: "\<exists>line. log_call ts sprintf LogError l msg args = Some (lg_out l, line)"
  by (simp add: log_call_def logger_write_def Let_def)

lemma log_call_mono:
  "log_call ts sprintf lvl (NewLogger cname l w) msg args = None \<longleftrightarrow> level_ord l < level_ord lvl"
  by (simp add: log_call_def logger_write_def NewLogger_def Let_def)

end
