(* ===== verification/Float64.thy ===== *)
theory Float64
  imports Config "HOL-Library.Log_Nat"
begin

text \<open>
  IEEE double precision as far as the program needs it: finite values are rationals and every
  operation is the exact result rounded to 53 significant bits, ties to even. The values that
  occur (request rates, scores below 20, 64-bit integers) are far from the overflow and
  subnormal ranges, which are not modelled.
\<close>

definition round_even :: "rat \<Rightarrow> int" where
  \<comment> \<open>nearest integer, ties to the even one\<close>
  "round_even x =
     (let n = \<lfloor>x\<rfloor>; d = x - of_int n in
      if d < 1 / 2 then n else if d > 1 / 2 then n + 1 else if even n then n else n + 1)"

definition pow2 :: "int \<Rightarrow> rat" where
  "pow2 e = (if e \<ge> 0 then 2 ^ nat e else 1 / 2 ^ nat (- e))"

definition log2_floor :: "rat \<Rightarrow> int" where
  \<comment> \<open>\<open>\<lfloor>log\<^sub>2 x\<rfloor>\<close> for positive \<open>x\<close>\<close>
  "log2_floor x =
     (case quotient_of x of (n, d) \<Rightarrow>
        let k = bitlen n - bitlen d in if pow2 k \<le> x then k else k - 1)"

definition fl :: "rat \<Rightarrow> float64" where
  \<comment> \<open>rounding to double precision\<close>
  "fl x = (if x = 0 then 0
     else let s = pow2 (52 - log2_floor \<bar>x\<bar>) in of_int (round_even (x * s)) / s)"

definition fmul :: "float64 \<Rightarrow> float64 \<Rightarrow> float64" where "fmul x y = fl (x * y)"
definition fadd :: "float64 \<Rightarrow> float64 \<Rightarrow> float64" where "fadd x y = fl (x + y)"
definition fdiv :: "float64 \<Rightarrow> float64 \<Rightarrow> float64" where "fdiv x y = fl (x / y)"

definition float_of_int :: "int \<Rightarrow> float64" where
  "float_of_int i = fl (of_int i)"

definition trunc :: "float64 \<Rightarrow> int" where
  \<comment> \<open>\<^verbatim>\<open>int(x)\<close>: towards zero\<close>
  "trunc x = (if x \<ge> 0 then \<lfloor>x\<rfloor> else - \<lfloor>- x\<rfloor>)"

definition fmt_f0 :: "float64 \<Rightarrow> string" where
  \<comment> \<open>the verb .0f of fmt; a negative value that rounds to zero keeps its sign\<close>
  "fmt_f0 x = (let n = round_even x in if n = 0 \<and> x < 0 then ''-0'' else dec_int n)"

end
