(* ===== verification/Keys.thy ===== *)
theory Keys
  imports Cell_Crypto
begin

text \<open>
  \<^verbatim>\<open>src/common/keys.go\<close>: the persistent identity keys. The file system is a map from paths
  to contents; whether \<^verbatim>\<open>os.WriteFile\<close> fails is an argument. A freshly generated ed25519
  pair is an argument too, with the documented shape of a private key (the seed followed by the
  public key) as the predicate \<open>ed25519_pair\<close>.
\<close>

section \<open>Operations\<close>

type_synonym filesystem = "string \<rightharpoonup> bytes"

datatype key_error = SaveKey string

definition read_hex_key :: "filesystem \<Rightarrow> string \<Rightarrow> nat \<Rightarrow> bytes option" where
  \<comment> \<open>\<^verbatim>\<open>os.ReadFile\<close>, \<^verbatim>\<open>TrimSpace\<close>, \<^verbatim>\<open>hex.DecodeString\<close> and the length check\<close>
  "read_hex_key fs path n =
     (case fs path of None \<Rightarrow> None
      | Some data \<Rightarrow>
          (case hex_decode (TrimSpace (string_of data)) of None \<Rightarrow> None
           | Some k \<Rightarrow> if length k = n then Some k else None))"

definition ed25519_pair :: "bytes \<Rightarrow> bytes \<Rightarrow> bool" where
  "ed25519_pair pub priv \<longleftrightarrow> length priv = 64 \<and> pub = drop 32 priv"

definition LoadOrCreateEd25519 ::
  "bytes \<times> bytes \<Rightarrow> bool \<Rightarrow> string \<Rightarrow> filesystem \<Rightarrow> (key_error + bytes \<times> bytes) \<times> filesystem" where
  \<comment> \<open>\<open>gen\<close> is the pair \<^verbatim>\<open>GenerateKey\<close> returns; the result is (public, private)\<close>
  "LoadOrCreateEd25519 gen wfail path fs =
     (case read_hex_key fs path 64 of
        Some priv \<Rightarrow> (Inr (drop 32 priv, priv), fs)
      | None \<Rightarrow>
          (case gen of (pub, priv) \<Rightarrow>
             if wfail then (Inl (SaveKey path), fs)
             else (Inr (pub, priv), fs(path \<mapsto> bytes_of (hex_encode priv)))))"

definition LoadOrCreateX25519 ::
  "scalar_mult \<Rightarrow> (nat \<Rightarrow> byte) \<Rightarrow> bool \<Rightarrow> string \<Rightarrow> filesystem \<Rightarrow> (key_error + bytes \<times> bytes) \<times> filesystem" where
  \<comment> \<open>the result is (private, public), as in the source\<close>
  "LoadOrCreateX25519 sm rnd wfail path fs =
     (case read_hex_key fs path 32 of
        Some priv \<Rightarrow> (Inr (priv, ScalarBaseMult sm priv), fs)
      | None \<Rightarrow>
          (let priv = rand_bytes rnd 32 in
             if wfail then (Inl (SaveKey path), fs)
             else (Inr (priv, ScalarBaseMult sm priv), fs(path \<mapsto> bytes_of (hex_encode priv)))))"

section \<open>Persistence\<close>

lemma read_hex_key_saved:
  "length k = n \<Longrightarrow> 0 < n \<Longrightarrow> read_hex_key (fs(path \<mapsto> bytes_of (hex_encode k))) path n = Some k"
  by (cases k) (simp_all add: read_hex_key_def)

text \<open>
  The X25519 identity of a relay survives restarts: once LoadOrCreateX25519 has returned
  a key pair, every later call on the resulting file system returns the same pair and writes
  nothing, whatever randomness it could draw.
\<close>

theorem x25519_key_persists:
  assumes "LoadOrCreateX25519 sm rnd wfail path fs = (Inr kp, fs')"
  shows "LoadOrCreateX25519 sm rnd' wfail' path fs' = (Inr kp, fs')"
proof (cases "read_hex_key fs path 32")
  case (Some priv)
  with assms show ?thesis by (auto simp: LoadOrCreateX25519_def)
next
  case None
  with assms have "\<not> wfail" "kp = (rand_bytes rnd 32, ScalarBaseMult sm (rand_bytes rnd 32))"
    and fs': "fs' = fs(path \<mapsto> bytes_of (hex_encode (rand_bytes rnd 32)))"
    by (auto simp: LoadOrCreateX25519_def Let_def split: if_splits)
  moreover have "read_hex_key fs' path 32 = Some (rand_bytes rnd 32)"
    unfolding fs' by (rule read_hex_key_saved) simp_all
  ultimately show ?thesis by (simp add: LoadOrCreateX25519_def)
qed

theorem x25519_key_persists_witness:
  "\<exists>kp fs'. LoadOrCreateX25519 (\<lambda>k u. k) (\<lambda>_. 5) False ''relay.key'' Map.empty = (Inr kp, fs') \<and>
     LoadOrCreateX25519 (\<lambda>k u. k) (\<lambda>_. 6) True ''relay.key'' fs' = (Inr kp, fs')"
proof -
  obtain kp fs' where "LoadOrCreateX25519 (\<lambda>k u. k) (\<lambda>_. 5) False ''relay.key'' Map.empty = (Inr kp, fs')"
    by (simp add: LoadOrCreateX25519_def read_hex_key_def Let_def)
  with x25519_key_persists [OF this] show ?thesis by blast
qed

text \<open>
  The same for the ed25519 key of the directory and the brokers: given a generated pair of
  the documented shape, the signing key that is stored is the one every later start loads, and
  its public half is unchanged, so published signatures stay verifiable.
\<close>

theorem ed25519_key_persists:
  assumes "ed25519_pair (fst gen) (snd gen)"
    and "LoadOrCreateEd25519 gen wfail path fs = (Inr kp, fs')"
  shows "LoadOrCreateEd25519 gen' wfail' path fs' = (Inr kp, fs') \<and> ed25519_pair (fst kp) (snd kp)"
proof (cases "read_hex_key fs path 64")
  case (Some priv)
  then have "length priv = 64" by (auto simp: read_hex_key_def split: option.splits if_splits)
  with Some assms(2) show ?thesis by (auto simp: LoadOrCreateEd25519_def ed25519_pair_def)
next
  case None
  obtain pub priv where gen: "gen = (pub, priv)" by (cases gen)
  with None assms have "kp = (pub, priv)" and pair: "length priv = 64" "pub = drop 32 priv"
    and fs': "fs' = fs(path \<mapsto> bytes_of (hex_encode priv))"
    by (auto simp: LoadOrCreateEd25519_def ed25519_pair_def split: if_splits)
  moreover have "read_hex_key fs' path 64 = Some priv"
    unfolding fs' using pair by (intro read_hex_key_saved) simp_all
  ultimately show ?thesis by (simp add: LoadOrCreateEd25519_def ed25519_pair_def)
qed

theorem ed25519_key_persists_witness:
  "ed25519_pair (replicate 32 2) (replicate 32 1 @ replicate 32 2) \<and>
   (\<exists>kp fs'. LoadOrCreateEd25519 (replicate 32 2, replicate 32 1 @ replicate 32 2) False ''k'' Map.empty = (Inr kp, fs') \<and>
     LoadOrCreateEd25519 ([], []) True ''k'' fs' = (Inr kp, fs'))"
proof -
  let ?gen = "(replicate 32 2, replicate 32 1 @ replicate 32 2) :: bytes \<times> bytes"
  have 1: "ed25519_pair (fst ?gen) (snd ?gen)" by (simp add: ed25519_pair_def)
  obtain kp fs' where 2: "LoadOrCreateEd25519 ?gen False ''k'' Map.empty = (Inr kp, fs')"
    by (simp add: LoadOrCreateEd25519_def read_hex_key_def)
  from 1 2 ed25519_key_persists [OF 1 2, of "([], [])" True] show ?thesis by auto
qed

end
