(* ===== verification/Consensus.thy ===== *)
theory Consensus
  imports Config Keys
begin

text \<open>
  \<^verbatim>\<open>src/common/consensus.go\<close>: the HTTP client configuration and the verified fetch of a
  directory consensus. The network is a parameter \<open>get\<close> (client, URL to response body), the
  certificate parser \<open>pem_ok\<close>, the JSON decoder \<open>decode\<close> and the ed25519 verification
  \<open>verify\<close> are parameters as well. Times are Unix seconds in \<^verbatim>\<open>int64\<close>.
\<close>

section \<open>Operations\<close>

record HTTPClient =
  hc_RootCAs :: "bytes option"   \<comment> \<open>\<open>None\<close>: the system pool\<close>
  hc_TimeoutSecs :: nat

datatype consensus_error =
    ReadCA string
  | NoValidCerts string
  | FetchPubkey
  | DecodePubkey
  | FetchConsensus
  | DecodeConsensus
  | DecodeSignature
  | SignatureInvalid
  | TimestampOutOfRange int

definition BuildHTTPClient :: "(bytes \<Rightarrow> bool) \<Rightarrow> filesystem \<Rightarrow> string \<Rightarrow> consensus_error + HTTPClient" where
  "BuildHTTPClient pem_ok fs caFile =
     (if caFile \<noteq> '''' then
        (case fs caFile of
           None \<Rightarrow> Inl (ReadCA caFile)
         | Some caPEM \<Rightarrow>
             if \<not> pem_ok caPEM then Inl (NoValidCerts caFile)
             else Inr \<lparr>hc_RootCAs = Some caPEM, hc_TimeoutSecs = 15\<rparr>)
      else Inr \<lparr>hc_RootCAs = None, hc_TimeoutSecs = 15\<rparr>)"

type_synonym verifier = "bytes \<Rightarrow> bytes \<Rightarrow> bytes \<Rightarrow> bool"

definition verify_document :: "verifier \<Rightarrow> int \<Rightarrow> bytes \<Rightarrow> SignedConsensus \<Rightarrow> consensus_error + SignedConsensus" where
  \<comment> \<open>the checks of \<^verbatim>\<open>FetchVerifiedConsensus\<close> on the decoded document\<close>
  "verify_document verify now dirPubkey consensus =
     (case hex_decode (sc_Signature consensus) of
        None \<Rightarrow> Inl DecodeSignature
      | Some sigBytes \<Rightarrow>
          let sigPayload = bytes_of (sc_RelaysJSON consensus) @ bytes_of (sc_BrokersJSON consensus) in
          if \<not> verify dirPubkey sigPayload sigBytes then Inl SignatureInvalid
          else let age = int64 (now - sc_Timestamp consensus) in
               if age > 600 \<or> age < - 60 then Inl (TimestampOutOfRange age)
               else Inr consensus)"

definition FetchVerifiedConsensus ::
  "(bytes \<Rightarrow> bool) \<Rightarrow> filesystem \<Rightarrow> (HTTPClient \<Rightarrow> string \<Rightarrow> bytes option) \<Rightarrow> (bytes \<Rightarrow> SignedConsensus option) \<Rightarrow>
   verifier \<Rightarrow> int \<Rightarrow> string \<Rightarrow> string \<Rightarrow> consensus_error + SignedConsensus" where
  "FetchVerifiedConsensus pem_ok fs get decode verify now dirURL caFile =
     (case BuildHTTPClient pem_ok fs caFile of
        Inl e \<Rightarrow> Inl e
      | Inr client \<Rightarrow>
          (case get client (dirURL @ ''/pubkey'') of
             None \<Rightarrow> Inl FetchPubkey
           | Some pkBytes \<Rightarrow>
               (case hex_decode (TrimSpace (string_of pkBytes)) of
                  None \<Rightarrow> Inl DecodePubkey
                | Some pubkey \<Rightarrow>
                    if length pubkey \<noteq> 32 then Inl DecodePubkey
                    else (case get client (dirURL @ ''/consensus'') of
                            None \<Rightarrow> Inl FetchConsensus
                          | Some body \<Rightarrow>
                              (case decode body of
                                 None \<Rightarrow> Inl DecodeConsensus
                               | Some consensus \<Rightarrow> verify_document verify now pubkey consensus)))))"

section \<open>What an accepted consensus guarantees\<close>

lemma verify_document_Inr:
  "verify_document verify now pk d = Inr d' \<longleftrightarrow>
     d' = d \<and>
     (\<exists>sig. hex_decode (sc_Signature d) = Some sig \<and>
        verify pk (bytes_of (sc_RelaysJSON d) @ bytes_of (sc_BrokersJSON d)) sig) \<and>
     - 60 \<le> int64 (now - sc_Timestamp d) \<and> int64 (now - sc_Timestamp d) \<le> 600"
  by (auto simp: verify_document_def Let_def split: option.splits if_splits)

lemma FetchVerified_Inr:
  "FetchVerifiedConsensus pem_ok fs get decode verify now dirURL caFile = Inr d \<longleftrightarrow>
     (\<exists>cl pk body pub. BuildHTTPClient pem_ok fs caFile = Inr cl \<and>
        get cl (dirURL @ ''/pubkey'') = Some pk \<and>
        hex_decode (TrimSpace (string_of pk)) = Some pub \<and> length pub = 32 \<and>
        get cl (dirURL @ ''/consensus'') = Some body \<and>
        (\<exists>d0. decode body = Some d0 \<and> verify_document verify now pub d0 = Inr d))"
  by (auto simp: FetchVerifiedConsensus_def split: sum.splits option.splits if_splits)

text \<open>
  A consensus is only returned when the ed25519 signature over RelaysJSON and BrokersJSON
  verifies under the 32-byte key the directory served, and its timestamp is at most 600
  seconds old and at most 60 seconds in the future; with a CA file configured, all requests
  went through a client that trusts that CA only.
\<close>

theorem fetched_consensus_verified:
  assumes "FetchVerifiedConsensus pem_ok fs get decode verify now dirURL caFile = Inr d"
  shows "\<exists>pub sig. length pub = 32 \<and> hex_decode (sc_Signature d) = Some sig \<and>
     verify pub (bytes_of (sc_RelaysJSON d @ sc_BrokersJSON d)) sig \<and>
     - 60 \<le> int64 (now - sc_Timestamp d) \<and> int64 (now - sc_Timestamp d) \<le> 600 \<and>
     (caFile \<noteq> '''' \<longrightarrow> (\<exists>pem cl. fs caFile = Some pem \<and> pem_ok pem \<and> hc_RootCAs cl = Some pem \<and>
        (\<exists>body. get cl (dirURL @ ''/consensus'') = Some body \<and> decode body = Some d)))"
proof -
  obtain cl pk body pub d0 where cl: "BuildHTTPClient pem_ok fs caFile = Inr cl"
    and b: "length pub = 32" "get cl (dirURL @ ''/consensus'') = Some body" "decode body = Some d0"
    and v: "verify_document verify now pub d0 = Inr d"
    using assms unfolding FetchVerified_Inr by blast
  have d0: "d0 = d" using v by (simp add: verify_document_Inr)
  have ca: "caFile \<noteq> '''' \<longrightarrow> (\<exists>pem. fs caFile = Some pem \<and> pem_ok pem \<and> hc_RootCAs cl = Some pem)"
    using cl by (auto simp: BuildHTTPClient_def split: option.splits if_splits)
  obtain sig where s: "hex_decode (sc_Signature d) = Some sig"
    "verify pub (bytes_of (sc_RelaysJSON d @ sc_BrokersJSON d)) sig"
    using v by (auto simp: verify_document_Inr d0)
  have t: "- 60 \<le> int64 (now - sc_Timestamp d) \<and> int64 (now - sc_Timestamp d) \<le> 600"
    using v by (simp add: verify_document_Inr d0)
  show ?thesis
    using s t b ca d0 by (intro exI [of _ pub] exI [of _ sig]) blast
qed

definition sample_doc :: SignedConsensus where
  "sample_doc = \<lparr>sc_Relays = [], sc_Brokers = [], sc_Timestamp = 1000, sc_Signature = ''00'',
     sc_RelaysJSON = ''[]'', sc_BrokersJSON = ''[]''\<rparr>"

lemma sample_fetch:
  "FetchVerifiedConsensus (\<lambda>_. True) Map.empty
     (\<lambda>cl url. if url = ''d/pubkey'' then Some (bytes_of (hex_encode (replicate 32 7))) else Some [])
     (\<lambda>_. Some d) (\<lambda>pk m s. True) 1100 ''d'' '''' = Inr d"
  if "hex_decode (sc_Signature d) \<noteq> None" "sc_Timestamp d = 1000"
  using that
  by (auto simp: FetchVerified_Inr BuildHTTPClient_def verify_document_Inr int64_def)

theorem fetched_consensus_verified_witness:
  "\<exists>pub sig. length (pub :: bytes) = 32 \<and> hex_decode (sc_Signature sample_doc) = Some sig \<and>
     int64 (1100 - sc_Timestamp sample_doc) \<le> 600"
proof -
  have "FetchVerifiedConsensus (\<lambda>_. True) Map.empty
     (\<lambda>cl url. if url = ''d/pubkey'' then Some (bytes_of (hex_encode (replicate 32 7))) else Some [])
     (\<lambda>_. Some sample_doc) (\<lambda>pk m s. True) 1100 ''d'' '''' = Inr sample_doc"
    by (rule sample_fetch) (simp_all add: sample_doc_def from_hex_def)
  from fetched_consensus_verified [OF this] show ?thesis by metis
qed

text \<open>
  C39: The signature does not bind the relay list that is used. From any document that passes,
  replacing the decoded Relays and Brokers by arbitrary lists, and the Timestamp by any fresh
  one, gives a document that passes as well: a man in the middle who keeps the two signed JSON
  strings can hand clients, brokers and bridges relays of its own choice.
\<close>

theorem consensus_relays_unbound:
  assumes "verify_document verify now pub d = Inr d"
    and "- 60 \<le> int64 (now' - ts)" "int64 (now' - ts) \<le> 600"
  shows "verify_document verify now' pub
      (d\<lparr>sc_Relays := evil_relays, sc_Brokers := evil_brokers, sc_Timestamp := ts\<rparr>) =
    Inr (d\<lparr>sc_Relays := evil_relays, sc_Brokers := evil_brokers, sc_Timestamp := ts\<rparr>)"
  using assms by (simp add: verify_document_Inr)

theorem consensus_relays_unbound_witness:
  "\<exists>r. sc_Relays sample_doc = [] \<and>
     verify_document (\<lambda>pk m s. m = bytes_of ''[][]'') 2000 [] (sample_doc\<lparr>sc_Relays := [r], sc_Brokers := [], sc_Timestamp := 2000\<rparr>) =
       Inr (sample_doc\<lparr>sc_Relays := [r], sc_Brokers := [], sc_Timestamp := 2000\<rparr>)"
proof -
  have "verify_document (\<lambda>pk m s. m = bytes_of ''[][]'') 1000 [] sample_doc = Inr sample_doc"
    by (simp add: verify_document_Inr sample_doc_def int64_def from_hex_def bytes_of_def)
  from consensus_relays_unbound [OF this, of 2000 2000] show ?thesis
    by (auto simp: sample_doc_def int64_def)
qed

end
