(* ===== verification/Directory.thy ===== *)
theory Directory
  imports Float64 Consensus "HOL-Library.Multiset"
begin

text \<open>
  The directory authority, \<^verbatim>\<open>src/directory/main.go\<close>: rate limiting, HMAC-authenticated
  registration, gossip between directories and the signed consensus. A handler takes the decoded
  request body (\<open>None\<close> when JSON decoding fails) and returns the status code, the body text and
  the new server state; the requests it sends to peers are part of its result. Clock readings
  are arguments, one per call of \<^verbatim>\<open>time.Now\<close>. The token bucket of
  \<^verbatim>\<open>golang.org/x/time/rate\<close>, the JSON encoder and the ed25519 signer are parameters. Map
  iteration order is an argument.
\<close>

section \<open>Server state\<close>

record 'lim directoryServer =
  ds_cfg :: DirectoryConfig
  ds_privKey :: bytes
  ds_pubKey :: bytes
  ds_relays :: "string \<rightharpoonup> RelayDescriptor"
  ds_brokers :: "string \<rightharpoonup> BrokerDescriptor"
  ds_limiters :: "string \<rightharpoonup> 'lim"

definition newServer ::
  "(bytes \<Rightarrow> bool) \<Rightarrow> bytes \<times> bytes \<Rightarrow> bool \<Rightarrow> DirectoryConfig \<Rightarrow> filesystem \<Rightarrow>
   'lim directoryServer option \<times> filesystem" where
  \<comment> \<open>\<open>None\<close> is the error return; the sync client only has to be buildable\<close>
  "newServer pem_ok gen wfail cfg fs =
     (case LoadOrCreateEd25519 gen wfail (dc_KeyFile cfg) fs of
        (Inl e, fs') \<Rightarrow> (None, fs')
      | (Inr (pub, priv), fs') \<Rightarrow>
          (case BuildHTTPClient pem_ok fs' (dc_SyncTLSCA cfg) of
             Inl e \<Rightarrow> (None, fs')
           | Inr syncClient \<Rightarrow>
               (Some \<lparr>ds_cfg = cfg, ds_privKey = priv, ds_pubKey = pub, ds_relays = Map.empty,
                  ds_brokers = Map.empty, ds_limiters = Map.empty\<rparr>, fs')))"

section \<open>Rate limiting\<close>

definition limiter_key :: "string \<Rightarrow> float64 \<Rightarrow> string" where
  "limiter_key ip rps = ip @ ''@'' @ fmt_f0 rps"

definition limiter ::
  "(float64 \<Rightarrow> int \<Rightarrow> 'lim) \<Rightarrow> string \<Rightarrow> float64 \<Rightarrow> 'lim directoryServer \<Rightarrow> 'lim \<times> 'lim directoryServer" where
  "limiter newLimiter ip rps s =
     (let key = limiter_key ip rps in
      case ds_limiters s key of
        Some l \<Rightarrow> (l, s)
      | None \<Rightarrow> let l = newLimiter rps (trunc (fmul rps 3) + 1)
                in (l, s\<lparr>ds_limiters := (ds_limiters s)(key \<mapsto> l)\<rparr>))"

record http_req =
  hr_RemoteAddr :: string
  hr_XForwardedFor :: string

type_synonym http_resp = "nat \<times> string"

definition rateLimit ::
  "(float64 \<Rightarrow> int \<Rightarrow> 'lim) \<Rightarrow> ('lim \<Rightarrow> bool \<times> 'lim) \<Rightarrow> float64 \<Rightarrow> http_req \<Rightarrow>
   ('lim directoryServer \<Rightarrow> (http_resp \<times> 'x) \<times> 'lim directoryServer) \<Rightarrow> 'x \<Rightarrow>
   'lim directoryServer \<Rightarrow> (http_resp \<times> 'x) \<times> 'lim directoryServer" where
  \<comment> \<open>\<open>allow\<close> is \<^verbatim>\<open>Limiter.Allow\<close>; it updates the shared limiter in place\<close>
  "rateLimit newLimiter allow rps r next_h none s =
     (let ip = (if hr_XForwardedFor r \<noteq> '''' then hr_XForwardedFor r else hr_RemoteAddr r);
          (l, s1) = limiter newLimiter ip rps s;
          (ok, l') = allow l;
          s2 = s1\<lparr>ds_limiters := (ds_limiters s1)(limiter_key ip rps \<mapsto> l')\<rparr>
      in if \<not> ok then (((429, ''rate limit exceeded''), none), s2) else next_h s2)"

section \<open>HMAC verification\<close>

definition hmacMessage :: "RegisterRequest \<Rightarrow> string option" where
  "hmacMessage req =
     (if rq_Kind req = KindRelay then
        (case rq_Relay req of None \<Rightarrow> None
         | Some rd \<Rightarrow> Some (rd_ID rd @ rd_IP rd @ rd_Role rd @ rd_PublicKey rd))
      else if rq_Kind req = KindBroker then
        (case rq_Broker req of None \<Rightarrow> None
         | Some bd \<Rightarrow> Some (bd_ID bd @ bd_IP bd @ bd_PublicKey bd))
      else None)"

definition registration_mac :: "string \<Rightarrow> string \<Rightarrow> string" where
  "registration_mac secret msg = hex_encode (hmac_sha256 (bytes_of secret) (bytes_of msg))"

definition verifyHMAC :: "int \<Rightarrow> 'lim directoryServer \<Rightarrow> RegisterRequest \<Rightarrow> int \<Rightarrow> bool" where
  "verifyHMAC now s req window =
     (let delta = int64 (now - rq_Timestamp req) in
      if delta > window \<or> delta < - window then False
      else (case hmacMessage req of
              None \<Rightarrow> False
            | Some msg \<Rightarrow> rq_HMAC req = registration_mac (dc_RegSecret (ds_cfg s)) msg))"

section \<open>Registration and gossip\<close>

text \<open>
  The update of \<^verbatim>\<open>s.relays\<close> and \<^verbatim>\<open>s.brokers\<close> is the same code twice: the descriptor
  is stored if its id is new or its time stamp is strictly newer.
\<close>

definition put_newer :: "('d \<Rightarrow> string) \<Rightarrow> ('d \<Rightarrow> int) \<Rightarrow> 'd \<Rightarrow> (string \<rightharpoonup> 'd) \<Rightarrow> bool \<times> (string \<rightharpoonup> 'd)" where
  "put_newer key seen_at d m =
     (case m (key d) of
        None \<Rightarrow> (True, m(key d \<mapsto> d))
      | Some old \<Rightarrow> if seen_at d > seen_at old then (True, m(key d \<mapsto> d)) else (False, m))"

definition storeRegistration ::
  "int \<Rightarrow> RegisterRequest \<Rightarrow> bool \<Rightarrow> 'lim directoryServer \<Rightarrow>
   (RegisterRequest \<times> bool \<times> string \<times> nat) \<times> 'lim directoryServer" where
  "storeRegistration now req stampNow s =
     (if rq_Kind req = KindRelay then
        (case rq_Relay req of
           None \<Rightarrow> ((req, False, ''missing relay'', 400), s)
         | Some rd0 \<Rightarrow>
             if rd_Role rd0 \<notin> {''entry'', ''middle'', ''exit''} then ((req, False, ''invalid role'', 400), s)
             else let rd = (if stampNow then rd0\<lparr>rd_LastSeen := now\<rparr> else rd0);
                      (changed, m) = put_newer rd_ID rd_LastSeen rd (ds_relays s)
                  in ((req\<lparr>rq_Relay := Some rd\<rparr>, changed, '''', 0), s\<lparr>ds_relays := m\<rparr>))
      else if rq_Kind req = KindBroker then
        (case rq_Broker req of
           None \<Rightarrow> ((req, False, ''missing broker'', 400), s)
         | Some bd0 \<Rightarrow>
             let bd = (if stampNow then bd0\<lparr>bd_LastSeen := now\<rparr> else bd0);
                 (changed, m) = put_newer bd_ID bd_LastSeen bd (ds_brokers s)
             in ((req\<lparr>rq_Broker := Some bd\<rparr>, changed, '''', 0), s\<lparr>ds_brokers := m\<rparr>))
      else ((req, False, ''unknown kind'', 400), s))"

definition gossip :: "int \<Rightarrow> 'lim directoryServer \<Rightarrow> RegisterRequest \<Rightarrow> (string \<times> RegisterRequest) list" where
  \<comment> \<open>the POST requests sent to the peers\<close>
  "gossip now s req =
     (if dc_PeerDirs (ds_cfg s) = [] then []
      else (case hmacMessage req of
              None \<Rightarrow> []
            | Some msg \<Rightarrow>
                let out = req\<lparr>rq_Timestamp := now, rq_HMAC := registration_mac (dc_RegSecret (ds_cfg s)) msg\<rparr>
                in map (\<lambda>peer. (peer @ ''/sync'', out)) (dc_PeerDirs (ds_cfg s))))"

section \<open>Handlers\<close>

definition handleRegister ::
  "int \<Rightarrow> int \<Rightarrow> int \<Rightarrow> RegisterRequest option \<Rightarrow> 'lim directoryServer \<Rightarrow>
   (http_resp \<times> (string \<times> RegisterRequest) list) \<times> 'lim directoryServer" where
  "handleRegister now1 now2 now3 body s =
     (case body of
        None \<Rightarrow> (((400, ''bad request''), []), s)
      | Some req \<Rightarrow>
          if \<not> verifyHMAC now1 s req 30 then (((401, ''unauthorized''), []), s)
          else (case storeRegistration now2 req True s of
                  ((stored, changed, msg, code), s') \<Rightarrow>
                    if code \<noteq> 0 then (((code, msg), []), s')
                    else (((200, ''''), if changed then gossip now3 s' stored else []), s')))"

definition handleSync ::
  "int \<Rightarrow> int \<Rightarrow> RegisterRequest option \<Rightarrow> 'lim directoryServer \<Rightarrow>
   (http_resp \<times> (string \<times> RegisterRequest) list) \<times> 'lim directoryServer" where
  "handleSync now1 now2 body s =
     (case body of
        None \<Rightarrow> (((400, ''bad request''), []), s)
      | Some req \<Rightarrow>
          if \<not> verifyHMAC now1 s req 120 then (((401, ''unauthorized''), []), s)
          else (case storeRegistration now2 req False s of
                  ((stored, changed, msg, code), s') \<Rightarrow>
                    if code \<noteq> 0 then (((code, msg), []), s') else (((200, ''''), []), s')))"

definition fresh_list :: "('d \<Rightarrow> int) \<Rightarrow> int \<Rightarrow> int \<Rightarrow> string list \<Rightarrow> (string \<rightharpoonup> 'd) \<Rightarrow> 'd list" where
  \<comment> \<open>the two loops of \<^verbatim>\<open>handleConsensus\<close>; \<open>order\<close> is the map iteration order\<close>
  "fresh_list seen_at now maxAge order m =
     filter (\<lambda>d. int64 (now - seen_at d) < maxAge) (List.map_filter m order)"

definition handleConsensus ::
  "(RelayDescriptor list \<Rightarrow> string option) \<Rightarrow> (BrokerDescriptor list \<Rightarrow> string option) \<Rightarrow> (bytes \<Rightarrow> bytes \<Rightarrow> bytes) \<Rightarrow>
   int \<Rightarrow> string list \<Rightarrow> string list \<Rightarrow> 'lim directoryServer \<Rightarrow> http_resp + SignedConsensus" where
  "handleConsensus marshalR marshalB sign now rorder border s =
     (let maxAge = dc_ConsensusMaxAge (ds_cfg s);
          relayList = fresh_list rd_LastSeen now maxAge rorder (ds_relays s);
          brokerList = fresh_list bd_LastSeen now maxAge border (ds_brokers s)
      in case marshalR relayList of
           None \<Rightarrow> Inl (500, ''internal error'')
         | Some relaysJSON \<Rightarrow>
             (case marshalB brokerList of
                None \<Rightarrow> Inl (500, ''internal error'')
              | Some brokersJSON \<Rightarrow>
                  let sig = sign (ds_privKey s) (bytes_of relaysJSON @ bytes_of brokersJSON)
                  in Inr \<lparr>sc_Relays = relayList, sc_Brokers = brokerList, sc_Timestamp = now,
                         sc_Signature = hex_encode sig, sc_RelaysJSON = relaysJSON,
                         sc_BrokersJSON = brokersJSON\<rparr>))"

definition handlePubkey :: "'lim directoryServer \<Rightarrow> http_resp" where
  "handlePubkey s = (200, hex_encode (ds_pubKey s))"

definition dir_handleHealth :: "'lim directoryServer \<Rightarrow> nat \<times> nat" where
  \<comment> \<open>the two counts of the JSON object\<close>
  "dir_handleHealth s = (card (dom (ds_relays s)), card (dom (ds_brokers s)))"

section \<open>The routes\<close>

datatype dir_op =
    DRegister http_req int int int "RegisterRequest option"
  | DSync http_req int int "RegisterRequest option"
  | DConsensus http_req

fun dir_step ::
  "(float64 \<Rightarrow> int \<Rightarrow> 'lim) \<Rightarrow> ('lim \<Rightarrow> bool \<times> 'lim) \<Rightarrow> dir_op \<Rightarrow> 'lim directoryServer \<Rightarrow> 'lim directoryServer" where
  \<comment> \<open>the state after one request to a route of \<^verbatim>\<open>buildMux\<close> that can change it\<close>
  "dir_step nl al (DRegister r n1 n2 n3 body) s =
     snd (rateLimit nl al (dc_RegisterRPS (ds_cfg s)) r (handleRegister n1 n2 n3 body) [] s)"
| "dir_step nl al (DSync r n1 n2 body) s =
     snd (rateLimit nl al (dc_ConsensusRPS (ds_cfg s)) r (handleSync n1 n2 body) [] s)"
| "dir_step nl al (DConsensus r) s =
     snd (rateLimit nl al (dc_ConsensusRPS (ds_cfg s)) r (\<lambda>s'. (((200, ''''), ()), s')) () s)"

inductive dir_reachable ::
  "(float64 \<Rightarrow> int \<Rightarrow> 'lim) \<Rightarrow> ('lim \<Rightarrow> bool \<times> 'lim) \<Rightarrow> 'lim directoryServer \<Rightarrow> bool"
  for nl al where
  start: "newServer pem_ok gen wfail cfg fs = (Some s, fs') \<Longrightarrow> dir_reachable nl al s"
| step: "dir_reachable nl al s \<Longrightarrow> dir_reachable nl al (dir_step nl al op s)"

section \<open>Storing the newer descriptor\<close>

lemma put_newer_Some:
  "put_newer key seen_at d m = (b, m') \<Longrightarrow> m' k = Some x \<Longrightarrow>
   m k = Some x \<or> (k = key d \<and> x = d)"
  by (auto simp: put_newer_def split: option.splits if_splits)

lemma put_newer_mono:
  "put_newer key seen_at d m = (b, m') \<Longrightarrow> m k = Some x \<Longrightarrow>
   \<exists>x'. m' k = Some x' \<and> seen_at x \<le> seen_at x'"
  by (auto simp: put_newer_def split: option.splits if_splits)

lemma put_newer_twice:
  "put_newer key seen_at d m = (b, m') \<Longrightarrow> put_newer key seen_at d m' = (False, m')"
  by (auto simp: put_newer_def split: option.splits if_splits)

lemma put_newer_commute:
  assumes "key d \<noteq> key e \<or> seen_at d \<noteq> seen_at e \<or> d = e"
  shows "snd (put_newer key seen_at d (snd (put_newer key seen_at e m))) =
         snd (put_newer key seen_at e (snd (put_newer key seen_at d m)))"
proof (cases "key d = key e")
  case True
  with assms show ?thesis
    by (cases "m (key e)") (auto simp: put_newer_def)
next
  case False
  then show ?thesis
    by (auto simp: put_newer_def fun_upd_twist split: option.splits)
qed

section \<open>State invariant\<close>

definition wf_dir :: "'lim directoryServer \<Rightarrow> bool" where
  "wf_dir s \<longleftrightarrow>
     (\<forall>k d. ds_relays s k = Some d \<longrightarrow> rd_ID d = k \<and> rd_Role d \<in> {''entry'', ''middle'', ''exit''}) \<and>
     (\<forall>k d. ds_brokers s k = Some d \<longrightarrow> bd_ID d = k)"

definition dir_mono :: "'lim directoryServer \<Rightarrow> 'lim directoryServer \<Rightarrow> bool" where
  \<comment> \<open>no descriptor disappears and no time stamp goes back\<close>
  "dir_mono s s' \<longleftrightarrow>
     (\<forall>k d. ds_relays s k = Some d \<longrightarrow> (\<exists>d'. ds_relays s' k = Some d' \<and> rd_LastSeen d \<le> rd_LastSeen d')) \<and>
     (\<forall>k d. ds_brokers s k = Some d \<longrightarrow> (\<exists>d'. ds_brokers s' k = Some d' \<and> bd_LastSeen d \<le> bd_LastSeen d'))"

lemma dir_mono_refl [simp]: "dir_mono s s"
  by (auto simp: dir_mono_def)

lemma storeRegistration_cases:
  assumes "storeRegistration now req stamp s = (res, s')"
  obtains "s' = s"
  | rd b m where "put_newer rd_ID rd_LastSeen rd (ds_relays s) = (b, m)" "s' = s\<lparr>ds_relays := m\<rparr>"
      "rd_Role rd \<in> {''entry'', ''middle'', ''exit''}"
  | bd b m where "put_newer bd_ID bd_LastSeen bd (ds_brokers s) = (b, m)" "s' = s\<lparr>ds_brokers := m\<rparr>"
proof (cases "rq_Kind req = KindRelay")
  case True
  show ?thesis
  proof (cases "rq_Relay req")
    case None
    with True assms that(1) show ?thesis by (simp add: storeRegistration_def)
  next
    case (Some rd0)
    show ?thesis
    proof (cases "rd_Role rd0 \<in> {''entry'', ''middle'', ''exit''}")
      case False
      with True Some assms that(1) show ?thesis by (simp add: storeRegistration_def)
    next
      case role: True
      let ?rd = "if stamp then rd0\<lparr>rd_LastSeen := now\<rparr> else rd0"
      obtain b m where "put_newer rd_ID rd_LastSeen ?rd (ds_relays s) = (b, m)" by fastforce
      with True Some role assms that(2) [of ?rd b m] show ?thesis
        by (auto simp: storeRegistration_def Let_def)
    qed
  qed
next
  case notR: False
  show ?thesis
  proof (cases "rq_Kind req = KindBroker \<and> rq_Broker req \<noteq> None")
    case False
    with notR assms that(1) show ?thesis
      by (auto simp: storeRegistration_def split: if_splits option.splits)
  next
    case True
    then obtain bd0 where b0: "rq_Broker req = Some bd0" by auto
    let ?bd = "if stamp then bd0\<lparr>bd_LastSeen := now\<rparr> else bd0"
    obtain b m where "put_newer bd_ID bd_LastSeen ?bd (ds_brokers s) = (b, m)" by fastforce
    with True notR b0 assms that(3) [of ?bd b m] show ?thesis
      by (auto simp: storeRegistration_def Let_def)
  qed
qed

lemma storeRegistration_wf:
  assumes "storeRegistration now req stamp s = (res, s')" "wf_dir s"
  shows "wf_dir s' \<and> dir_mono s s'"
  using assms(1)
proof (cases rule: storeRegistration_cases)
  case 1
  with assms show ?thesis by simp
next
  case (2 rd b m)
  with assms(2) show ?thesis
    by (auto simp: wf_dir_def dir_mono_def dest: put_newer_Some put_newer_mono)
next
  case (3 bd b m)
  with assms(2) show ?thesis
    by (auto simp: wf_dir_def dir_mono_def dest: put_newer_Some put_newer_mono)
qed

lemma limiter_frame:
  "limiter nl ip rps s = (l, s') \<Longrightarrow> ds_relays s' = ds_relays s \<and> ds_brokers s' = ds_brokers s \<and>
     ds_cfg s' = ds_cfg s \<and> ds_pubKey s' = ds_pubKey s \<and> ds_privKey s' = ds_privKey s"
  by (auto simp: limiter_def Let_def split: option.splits)

text \<open>Rate limiting either refuses, touching only the limiters, or hands over to the handler.\<close>

lemma rateLimit_cases:
  obtains s1 where "rateLimit nl al rps r h none s = (((429, ''rate limit exceeded''), none), s1)"
      "ds_relays s1 = ds_relays s" "ds_brokers s1 = ds_brokers s" "ds_cfg s1 = ds_cfg s"
  | s1 where "rateLimit nl al rps r h none s = h s1"
      "ds_relays s1 = ds_relays s" "ds_brokers s1 = ds_brokers s" "ds_cfg s1 = ds_cfg s"
proof -
  let ?ip = "if hr_XForwardedFor r \<noteq> '''' then hr_XForwardedFor r else hr_RemoteAddr r"
  obtain l s0 where l: "limiter nl ?ip rps s = (l, s0)" by fastforce
  obtain ok l' where a: "al l = (ok, l')" by fastforce
  let ?s2 = "s0\<lparr>ds_limiters := (ds_limiters s0)(limiter_key ?ip rps \<mapsto> l')\<rparr>"
  have "rateLimit nl al rps r h none s =
      (if \<not> ok then (((429, ''rate limit exceeded''), none), ?s2) else h ?s2)"
    using l a by (simp add: rateLimit_def Let_def)
  with that(1) [of ?s2] that(2) [of ?s2] limiter_frame [OF l] show ?thesis by (cases ok) auto
qed

lemma wf_dir_cong:
  "ds_relays s1 = ds_relays s \<Longrightarrow> ds_brokers s1 = ds_brokers s \<Longrightarrow> wf_dir s1 = wf_dir s \<and> dir_mono s s1"
  by (auto simp: wf_dir_def dir_mono_def)

lemma dir_mono_cong:
  "ds_relays s1 = ds_relays s \<Longrightarrow> ds_brokers s1 = ds_brokers s \<Longrightarrow> dir_mono s1 s' = dir_mono s s'"
  by (auto simp: dir_mono_def)

lemma handleRegister_wf:
  assumes "wf_dir s"
  shows "wf_dir (snd (handleRegister n1 n2 n3 body s)) \<and> dir_mono s (snd (handleRegister n1 n2 n3 body s))"
  using assms
  by (auto simp: handleRegister_def split: option.splits prod.splits dest: storeRegistration_wf)

lemma handleSync_wf:
  assumes "wf_dir s"
  shows "wf_dir (snd (handleSync n1 n2 body s)) \<and> dir_mono s (snd (handleSync n1 n2 body s))"
  using assms
  by (auto simp: handleSync_def split: option.splits prod.splits dest: storeRegistration_wf)

lemma rateLimit_wf:
  assumes "wf_dir s"
    and h: "\<And>s'. wf_dir s' \<Longrightarrow> wf_dir (snd (h s')) \<and> dir_mono s' (snd (h s'))"
  shows "wf_dir (snd (rateLimit nl al rps r h none s)) \<and> dir_mono s (snd (rateLimit nl al rps r h none s))"
proof (cases rule: rateLimit_cases [of nl al rps r h none s])
  case (1 s1)
  with assms(1) wf_dir_cong [of s1 s] show ?thesis by simp
next
  case (2 s1)
  with assms(1) wf_dir_cong [of s1 s] h [of s1] dir_mono_cong [of s1 s] show ?thesis by simp
qed

lemma dir_step_wf:
  assumes "wf_dir s"
  shows "wf_dir (dir_step nl al op s) \<and> dir_mono s (dir_step nl al op s)"
proof (cases op)
  case (DRegister r n1 n2 n3 body)
  from assms show ?thesis unfolding DRegister dir_step.simps by (rule rateLimit_wf) (rule handleRegister_wf)
next
  case (DSync r n1 n2 body)
  from assms show ?thesis unfolding DSync dir_step.simps by (rule rateLimit_wf) (rule handleSync_wf)
next
  case (DConsensus r)
  from assms show ?thesis unfolding DConsensus dir_step.simps by (rule rateLimit_wf) simp
qed

lemma newServer_wf: "newServer pem_ok gen wfail cfg fs = (Some s, fs') \<Longrightarrow> wf_dir s"
  by (auto simp: newServer_def wf_dir_def split: prod.splits sum.splits)

lemma reachable_wf: "dir_reachable nl al s \<Longrightarrow> wf_dir s"
  by (induction rule: dir_reachable.induct) (auto dest: newServer_wf dir_step_wf)

text \<open>
  In every state the directory can reach through its HTTP routes, each stored relay sits
  under its own id and has one of the three roles, each broker sits under its own id, and
  no further request ever removes a descriptor or moves its LastSeen back.
\<close>

theorem directory_invariant:
  assumes "dir_reachable nl al s"
  shows "wf_dir s \<and> wf_dir (dir_step nl al op s) \<and> dir_mono s (dir_step nl al op s)"
  using reachable_wf [OF assms] dir_step_wf by blast

definition sample_dir_cfg :: DirectoryConfig where
  "sample_dir_cfg = \<lparr>dc_ListenAddr = '''', dc_TLSCert = '''', dc_TLSKey = '''', dc_KeyFile = ''k'',
     dc_RegSecret = ''s'', dc_LogLevel = '''', dc_RegisterRPS = 5, dc_ConsensusRPS = 20,
     dc_ConsensusMaxAge = 300, dc_PeerDirs = [], dc_SyncTLSCA = ''''\<rparr>"

theorem directory_invariant_witness:
  "\<exists>s :: unit directoryServer. dir_reachable (\<lambda>_ _. ()) (\<lambda>l. (True, l)) s \<and> wf_dir s \<and>
     wf_dir (dir_step (\<lambda>_ _. ()) (\<lambda>l. (True, l)) (DConsensus \<lparr>hr_RemoteAddr = ''a'', hr_XForwardedFor = ''''\<rparr>) s)"
proof -
  obtain s :: "unit directoryServer" and fs' where
    "newServer (\<lambda>_. True) ([], []) False sample_dir_cfg Map.empty = (Some s, fs')"
    by (simp add: newServer_def LoadOrCreateEd25519_def read_hex_key_def BuildHTTPClient_def sample_dir_cfg_def)
  then have "dir_reachable (\<lambda>_ _. ()) (\<lambda>l. (True, l)) s" by (rule dir_reachable.start)
  with directory_invariant [OF this] show ?thesis by blast
qed

section \<open>Authentication\<close>

lemma verifyHMAC_iff:
  "verifyHMAC now s req w \<longleftrightarrow>
     - w \<le> int64 (now - rq_Timestamp req) \<and> int64 (now - rq_Timestamp req) \<le> w \<and>
     (\<exists>msg. hmacMessage req = Some msg \<and> rq_HMAC req = registration_mac (dc_RegSecret (ds_cfg s)) msg)"
  by (auto simp: verifyHMAC_def Let_def split: option.splits)

lemma handleRegister_unauth:
  "body = None \<or> (\<exists>req. body = Some req \<and> \<not> verifyHMAC n1 s req 30) \<Longrightarrow>
   snd (handleRegister n1 n2 n3 body s) = s"
  by (auto simp: handleRegister_def)

lemma handleSync_unauth:
  "body = None \<or> (\<exists>req. body = Some req \<and> \<not> verifyHMAC n1 s req 120) \<Longrightarrow>
   snd (handleSync n1 n2 body s) = s"
  by (auto simp: handleSync_def)

definition dir_tables :: "'lim directoryServer \<Rightarrow> (string \<rightharpoonup> RelayDescriptor) \<times> (string \<rightharpoonup> BrokerDescriptor)" where
  "dir_tables s = (ds_relays s, ds_brokers s)"

lemma rateLimit_changes:
  assumes "dir_tables (snd (rateLimit nl al rps r h none s)) \<noteq> dir_tables s"
  shows "\<exists>s1. ds_cfg s1 = ds_cfg s \<and> snd (h s1) \<noteq> s1"
proof (cases rule: rateLimit_cases [of nl al rps r h none s])
  case (1 s1)
  with assms show ?thesis by (simp add: dir_tables_def)
next
  case (2 s1)
  with assms have "snd (h s1) \<noteq> s1" by (auto simp: dir_tables_def)
  with 2 show ?thesis by blast
qed

text \<open>
  A request to any route changes the stored relays or brokers only when it is a POST to
  /register or /sync whose HMAC is the one computed with the directory's registration secret
  over the descriptor's identity, and whose timestamp lies within 30 respectively 120 seconds
  of the directory's clock.
\<close>

theorem registration_authenticated:
  fixes s :: "'lim directoryServer"
  assumes "dir_tables (dir_step nl al op s) \<noteq> dir_tables s"
  shows "\<exists>req now w msg.
     ((\<exists>r n2 n3. op = DRegister r now n2 n3 (Some req) \<and> w = 30) \<or>
      (\<exists>r n2. op = DSync r now n2 (Some req) \<and> w = 120)) \<and>
     - w \<le> int64 (now - rq_Timestamp req) \<and> int64 (now - rq_Timestamp req) \<le> w \<and>
     hmacMessage req = Some msg \<and> rq_HMAC req = registration_mac (dc_RegSecret (ds_cfg s)) msg"
proof (cases op)
  case (DRegister r n1 n2 n3 body)
  then obtain s1 :: "'lim directoryServer" where s1: "ds_cfg s1 = ds_cfg s" "snd (handleRegister n1 n2 n3 body s1) \<noteq> s1"
    using rateLimit_changes [OF assms [unfolded DRegister dir_step.simps]] by blast
  then obtain req where "body = Some req" "verifyHMAC n1 s1 req 30"
    using handleRegister_unauth [of body n1 s1 n2 n3] by (cases body) auto
  with s1 DRegister show ?thesis by (auto simp: verifyHMAC_iff)
next
  case (DSync r n1 n2 body)
  then obtain s1 :: "'lim directoryServer" where s1: "ds_cfg s1 = ds_cfg s" "snd (handleSync n1 n2 body s1) \<noteq> s1"
    using rateLimit_changes [OF assms [unfolded DSync dir_step.simps]] by blast
  then obtain req where "body = Some req" "verifyHMAC n1 s1 req 120"
    using handleSync_unauth [of body n1 s1 n2] by (cases body) auto
  with s1 DSync show ?thesis by (auto simp: verifyHMAC_iff)
next
  case (DConsensus r)
  then show ?thesis using rateLimit_changes [OF assms [unfolded DConsensus dir_step.simps]] by simp
qed

definition sample_dir :: "unit directoryServer" where
  "sample_dir = \<lparr>ds_cfg = sample_dir_cfg, ds_privKey = [], ds_pubKey = replicate 32 1,
     ds_relays = Map.empty, ds_brokers = Map.empty, ds_limiters = Map.empty\<rparr>"

definition sample_relay :: RelayDescriptor where
  "sample_relay = \<lparr>rd_ID = ''r1'', rd_IP = ''10.0.0.1'', rd_Port = 9001, rd_Role = ''exit'', rd_PublicKey = ''ab'',
     rd_Country = ''de'', rd_Region = ''eu'', rd_OperMode = ''normal'', rd_Bandwidth = 100,
     rd_Version = ''1.0.0'', rd_LastSeen = 0\<rparr>"

definition sample_request :: RegisterRequest where
  "sample_request = \<lparr>rq_Kind = KindRelay, rq_Relay = Some sample_relay, rq_Broker = None,
     rq_Timestamp = 1000, rq_HMAC = registration_mac ''s'' ''r110.0.0.1exitab''\<rparr>"

lemma sample_verify:
  "- w \<le> int64 (now - 1000) \<Longrightarrow> int64 (now - 1000) \<le> w \<Longrightarrow> ds_cfg s = sample_dir_cfg \<Longrightarrow>
   verifyHMAC now s sample_request w"
  by (simp add: verifyHMAC_iff sample_request_def hmacMessage_def sample_relay_def sample_dir_cfg_def)

lemma sample_register:
  "dir_step (\<lambda>_ _. ()) (\<lambda>l. (True, l)) (DRegister \<lparr>hr_RemoteAddr = ''a'', hr_XForwardedFor = ''''\<rparr>
      1010 1010 1010 (Some sample_request)) sample_dir =
   sample_dir\<lparr>ds_relays := [''r1'' \<mapsto> sample_relay\<lparr>rd_LastSeen := 1010\<rparr>],
     ds_limiters := [limiter_key ''a'' 5 \<mapsto> ()]\<rparr>"
proof -
  let ?s = "sample_dir\<lparr>ds_limiters := [limiter_key ''a'' 5 \<mapsto> ()]\<rparr>"
  have "verifyHMAC 1010 ?s sample_request 30"
    by (rule sample_verify) (simp_all add: int64_def sample_dir_def)
  then have "snd (handleRegister 1010 1010 1010 (Some sample_request) ?s) =
      ?s\<lparr>ds_relays := [''r1'' \<mapsto> sample_relay\<lparr>rd_LastSeen := 1010\<rparr>]\<rparr>"
    by (simp add: handleRegister_def storeRegistration_def sample_request_def sample_relay_def
        sample_dir_def put_newer_def Let_def)
  then show ?thesis
    by (simp add: rateLimit_def limiter_def sample_dir_def sample_dir_cfg_def Let_def)
qed

theorem registration_authenticated_witness:
  "\<exists>req now w msg. (now = 1010 \<and> w = 30 \<and> req = sample_request) \<and>
     - w \<le> int64 (now - rq_Timestamp req) \<and> int64 (now - rq_Timestamp req) \<le> w \<and>
     hmacMessage req = Some msg \<and> rq_HMAC req = registration_mac (dc_RegSecret (ds_cfg sample_dir)) msg"
proof -
  have "dir_tables (dir_step (\<lambda>_ _. ()) (\<lambda>l. (True, l)) (DRegister \<lparr>hr_RemoteAddr = ''a'', hr_XForwardedFor = ''''\<rparr>
      1010 1010 1010 (Some sample_request)) sample_dir) \<noteq> dir_tables sample_dir"
    unfolding sample_register by (simp add: dir_tables_def sample_dir_def fun_eq_iff)
  from registration_authenticated [OF this] show ?thesis by auto
qed

section \<open>The published consensus\<close>

lemma map_filter_enum:
  "set order = dom m \<Longrightarrow> d \<in> set (List.map_filter m order) \<longleftrightarrow> (\<exists>k. m k = Some d)"
  by (force simp: List.map_filter_def)

lemma fresh_list_iff:
  "set order = dom m \<Longrightarrow>
   d \<in> set (fresh_list seen_at now maxAge order m) \<longleftrightarrow>
     (\<exists>k. m k = Some d) \<and> int64 (now - seen_at d) < maxAge"
  by (auto simp: fresh_list_def map_filter_enum)

text \<open>
  C26: End to end, the consensus a directory serves is accepted by FetchVerifiedConsensus at
  every node whose clock is at most 60 seconds behind and 600 seconds ahead, given a signature
  scheme that verifies its own signatures and a JSON codec that round-trips; and it lists
  exactly the relays and brokers seen within ConsensusMaxAge.
\<close>

theorem honest_consensus_accepted:
  assumes sig: "\<forall>msg. verify (ds_pubKey s) msg (sign (ds_privKey s) msg)"
    and key: "length (ds_pubKey s) = 32"
    and doc: "handleConsensus marshalR marshalB sign now rorder border s = Inr d"
    and json: "decode (encode d) = Some d"
    and net: "\<forall>cl. get cl (dirURL @ ''/pubkey'') = Some (bytes_of (snd (handlePubkey s))) \<and>
       get cl (dirURL @ ''/consensus'') = Some (encode d)"
    and clock: "- 60 \<le> int64 (now' - now)" "int64 (now' - now) \<le> 600"
    and order: "set rorder = dom (ds_relays s)" "set border = dom (ds_brokers s)"
  shows "FetchVerifiedConsensus pem_ok fs get decode verify now' dirURL '''' = Inr d \<and>
     (\<forall>rd. rd \<in> set (sc_Relays d) \<longleftrightarrow>
        (\<exists>k. ds_relays s k = Some rd) \<and> int64 (now - rd_LastSeen rd) < dc_ConsensusMaxAge (ds_cfg s)) \<and>
     (\<forall>bd. bd \<in> set (sc_Brokers d) \<longleftrightarrow>
        (\<exists>k. ds_brokers s k = Some bd) \<and> int64 (now - bd_LastSeen bd) < dc_ConsensusMaxAge (ds_cfg s))"
proof -
  obtain rj bj where d: "sc_RelaysJSON d = rj" "sc_BrokersJSON d = bj" "sc_Timestamp d = now"
    "sc_Signature d = hex_encode (sign (ds_privKey s) (bytes_of rj @ bytes_of bj))"
    and rl: "sc_Relays d = fresh_list rd_LastSeen now (dc_ConsensusMaxAge (ds_cfg s)) rorder (ds_relays s)"
    and bl: "sc_Brokers d = fresh_list bd_LastSeen now (dc_ConsensusMaxAge (ds_cfg s)) border (ds_brokers s)"
    using doc by (auto simp: handleConsensus_def Let_def split: option.splits)
  have ne: "ds_pubKey s \<noteq> []" using key by auto
  have "verify_document verify now' (ds_pubKey s) d = Inr d"
    using sig clock d by (simp add: verify_document_Inr)
  then have "FetchVerifiedConsensus pem_ok fs get decode verify now' dirURL '''' = Inr d"
    using key json net ne
    by (simp add: FetchVerified_Inr BuildHTTPClient_def handlePubkey_def)
  then show ?thesis using rl bl order by (simp add: fresh_list_iff)
qed

theorem honest_consensus_accepted_witness:
  "\<exists>d. FetchVerifiedConsensus (\<lambda>_. True) Map.empty
       (\<lambda>cl url. if url = ''u/pubkey'' then Some (bytes_of (snd (handlePubkey sample_dir))) else Some [7])
       (\<lambda>_. Some d) (\<lambda>pk m sg. sg = m) 1100 ''u'' '''' = Inr d \<and> sc_Timestamp d = 1000"
proof -
  let ?d = "\<lparr>sc_Relays = [], sc_Brokers = [], sc_Timestamp = 1000, sc_Signature = hex_encode (bytes_of ''[][]''),
     sc_RelaysJSON = ''[]'', sc_BrokersJSON = ''[]''\<rparr>"
  have doc: "handleConsensus (\<lambda>_. Some ''[]'') (\<lambda>_. Some ''[]'') (\<lambda>k m. m) 1000 [] [] sample_dir = Inr ?d"
    by (simp add: handleConsensus_def fresh_list_def List.map_filter_def Let_def bytes_of_def)
  have "FetchVerifiedConsensus (\<lambda>_. True) Map.empty
       (\<lambda>cl url. if url = ''u/pubkey'' then Some (bytes_of (snd (handlePubkey sample_dir))) else Some [7])
       (\<lambda>_. Some ?d) (\<lambda>pk m sg. sg = m) 1100 ''u'' '''' = Inr ?d"
    using honest_consensus_accepted [where verify = "\<lambda>pk m sg. sg = m" and s = sample_dir and sign = "\<lambda>k m. m"
        and encode = "\<lambda>_. [7]" and decode = "\<lambda>_. Some ?d" and dirURL = "''u''" and now' = 1100
        and get = "\<lambda>cl url. if url = ''u/pubkey'' then Some (bytes_of (snd (handlePubkey sample_dir))) else Some [7]",
        OF _ _ doc]
    by (simp add: sample_dir_def int64_def)
  then show ?thesis by auto
qed

section \<open>Gossip converges\<close>

definition sync_req :: "int \<times> int \<times> RegisterRequest \<Rightarrow> 'lim directoryServer \<Rightarrow> 'lim directoryServer" where
  \<comment> \<open>the state after one \<^verbatim>\<open>/sync\<close> request, with the two clock readings of its handling\<close>
  "sync_req = (\<lambda>(n1, n2, req) s. snd (handleSync n1 n2 (Some req) s))"

definition sync_relay :: "int \<Rightarrow> 'lim directoryServer \<Rightarrow> RegisterRequest \<Rightarrow> RelayDescriptor option" where
  "sync_relay now s req =
     (if verifyHMAC now s req 120 \<and> rq_Kind req = KindRelay then
        (case rq_Relay req of None \<Rightarrow> None
         | Some rd \<Rightarrow> if rd_Role rd \<in> {''entry'', ''middle'', ''exit''} then Some rd else None)
      else None)"

definition sync_broker :: "int \<Rightarrow> 'lim directoryServer \<Rightarrow> RegisterRequest \<Rightarrow> BrokerDescriptor option" where
  "sync_broker now s req =
     (if verifyHMAC now s req 120 \<and> rq_Kind req = KindBroker then rq_Broker req else None)"

definition put_opt :: "('d \<Rightarrow> string) \<Rightarrow> ('d \<Rightarrow> int) \<Rightarrow> 'd option \<Rightarrow> (string \<rightharpoonup> 'd) \<Rightarrow> (string \<rightharpoonup> 'd)" where
  "put_opt key seen_at x m = (case x of None \<Rightarrow> m | Some d \<Rightarrow> snd (put_newer key seen_at d m))"

lemma KindRelay_not_Broker [simp]: "KindRelay \<noteq> KindBroker" "KindBroker \<noteq> KindRelay"
  by (simp_all add: KindRelay_def KindBroker_def)

lemma verifyHMAC_tables [simp]:
  "verifyHMAC now (s\<lparr>ds_relays := a\<rparr>) req w = verifyHMAC now s req w"
  "verifyHMAC now (s\<lparr>ds_brokers := b\<rparr>) req w = verifyHMAC now s req w"
  by (simp_all add: verifyHMAC_iff)

lemma sync_req_effect:
  "sync_req (n1, n2, req) s =
     s\<lparr>ds_relays := put_opt rd_ID rd_LastSeen (sync_relay n1 s req) (ds_relays s),
       ds_brokers := put_opt bd_ID bd_LastSeen (sync_broker n1 s req) (ds_brokers s)\<rparr>"
proof (cases "verifyHMAC n1 s req 120")
  case ok: True
  consider "rq_Kind req = KindRelay" | "rq_Kind req = KindBroker" | "rq_Kind req \<notin> {KindRelay, KindBroker}"
    by blast
  then show ?thesis
  proof cases
    case 1
    with ok show ?thesis
      by (cases "rq_Relay req") (simp_all add: sync_req_def handleSync_def storeRegistration_def
          sync_relay_def sync_broker_def put_opt_def split_beta)
  next
    case 2
    with ok show ?thesis
      by (cases "rq_Broker req") (simp_all add: sync_req_def handleSync_def storeRegistration_def
          sync_relay_def sync_broker_def put_opt_def split_beta)
  qed (simp add: ok sync_req_def handleSync_def storeRegistration_def sync_relay_def sync_broker_def put_opt_def)
qed (simp add: sync_req_def handleSync_def sync_relay_def sync_broker_def put_opt_def)

lemma put_opt_commute:
  assumes "\<And>d e. x = Some d \<Longrightarrow> y = Some e \<Longrightarrow> key d \<noteq> key e \<or> seen_at d \<noteq> seen_at e \<or> d = e"
  shows "put_opt key seen_at x (put_opt key seen_at y m) = put_opt key seen_at y (put_opt key seen_at x m)"
proof (cases x)
  case x: (Some d)
  show ?thesis
  proof (cases y)
    case (Some e)
    with x assms have "key d \<noteq> key e \<or> seen_at d \<noteq> seen_at e \<or> d = e" by blast
    from put_newer_commute [OF this] show ?thesis using x Some by (simp add: put_opt_def)
  qed (simp add: put_opt_def)
qed (simp add: put_opt_def)

lemma put_opt_twice [simp]: "put_opt key seen_at x (put_opt key seen_at x m) = put_opt key seen_at x m"
  using put_newer_twice [of key seen_at "the x" m] by (cases x) (auto simp: put_opt_def prod_eq_iff)

definition sync_compatible :: "RegisterRequest \<Rightarrow> RegisterRequest \<Rightarrow> bool" where
  \<comment> \<open>no two different descriptors with the same id and time stamp\<close>
  "sync_compatible q q' \<longleftrightarrow>
     (case (rq_Relay q, rq_Relay q') of
        (Some d, Some e) \<Rightarrow> rd_ID d \<noteq> rd_ID e \<or> rd_LastSeen d \<noteq> rd_LastSeen e \<or> d = e | _ \<Rightarrow> True) \<and>
     (case (rq_Broker q, rq_Broker q') of
        (Some d, Some e) \<Rightarrow> bd_ID d \<noteq> bd_ID e \<or> bd_LastSeen d \<noteq> bd_LastSeen e \<or> d = e | _ \<Rightarrow> True)"

lemma sync_relay_Some: "sync_relay n s q = Some d \<Longrightarrow> rq_Relay q = Some d"
  by (auto simp: sync_relay_def split: option.splits if_splits)

lemma sync_broker_Some: "sync_broker n s q = Some d \<Longrightarrow> rq_Broker q = Some d"
  by (auto simp: sync_broker_def split: if_splits)

lemma sync_req_commute:
  assumes "sync_compatible (snd (snd x)) (snd (snd y))"
  shows "sync_req x \<circ> sync_req y = sync_req y \<circ> sync_req x"
proof
  fix s
  obtain n1 n2 q m1 m2 q' where xy: "x = (n1, n2, q)" "y = (m1, m2, q')" by (cases x; cases y) auto
  have cfg: "sync_relay n (s\<lparr>ds_relays := a, ds_brokers := b\<rparr>) r = sync_relay n s r"
    "sync_broker n (s\<lparr>ds_relays := a, ds_brokers := b\<rparr>) r = sync_broker n s r" for n a b r
    by (simp_all add: sync_relay_def sync_broker_def)
  have 1: "put_opt rd_ID rd_LastSeen (sync_relay n1 s q) (put_opt rd_ID rd_LastSeen (sync_relay m1 s q') m) =
      put_opt rd_ID rd_LastSeen (sync_relay m1 s q') (put_opt rd_ID rd_LastSeen (sync_relay n1 s q) m)" for m
    using assms xy by (intro put_opt_commute) (auto simp: sync_compatible_def dest!: sync_relay_Some)
  have 2: "put_opt bd_ID bd_LastSeen (sync_broker n1 s q) (put_opt bd_ID bd_LastSeen (sync_broker m1 s q') m) =
      put_opt bd_ID bd_LastSeen (sync_broker m1 s q') (put_opt bd_ID bd_LastSeen (sync_broker n1 s q) m)" for m
    using assms xy by (intro put_opt_commute) (auto simp: sync_compatible_def dest!: sync_broker_Some)
  show "(sync_req x \<circ> sync_req y) s = (sync_req y \<circ> sync_req x) s"
    unfolding xy by (simp add: sync_req_effect cfg 1 2)
qed

text \<open>
  C28: Directories that receive the same gossip converge: applying a batch of /sync requests in
  any order gives the same state (as long as no two different descriptors carry the same id and
  the same LastSeen), and a second delivery of a request already applied changes nothing.
\<close>

theorem gossip_converges:
  assumes "mset reqs = mset reqs'"
    and "\<forall>x \<in> set reqs. \<forall>y \<in> set reqs. sync_compatible (snd (snd x)) (snd (snd y))"
  shows "fold sync_req reqs s = fold sync_req reqs' s \<and>
     sync_req x (sync_req x s) = sync_req x s"
proof
  show "fold sync_req reqs s = fold sync_req reqs' s"
    using fold_multiset_equiv [of reqs sync_req reqs'] sync_req_commute assms by metis
  obtain n1 n2 q where x: "x = (n1, n2, q)" by (cases x) auto
  show "sync_req x (sync_req x s) = sync_req x s"
    unfolding x by (simp add: sync_req_effect sync_relay_def sync_broker_def)
qed

theorem gossip_converges_witness:
  "fold sync_req [(1000, 1000, sample_request), (1001, 1001, sample_request\<lparr>rq_Relay := None\<rparr>)] sample_dir =
   fold sync_req [(1001, 1001, sample_request\<lparr>rq_Relay := None\<rparr>), (1000, 1000, sample_request)] sample_dir"
  by (rule conjunct1 [OF gossip_converges]) (simp_all add: sync_compatible_def sample_request_def)

section \<open>What the registration HMAC does not cover\<close>

text \<open>
  C29: The HMAC covers neither the timestamp nor the port nor LastSeen, and it does not separate the fields
  it covers, so a captured registration is enough to take an id over. Any descriptor whose id, address, role and key
  concatenate to the same string (for instance with the last characters of the id moved to the front of the
  address), with any port and a LastSeen in the future, is accepted by /sync with a fresh timestamp and stored under
  its own id; from then on until that LastSeen the registrations of the real relay of this id are
  answered with 200 but leave the table as it is, although the comment of storeRegistration calls a direct
  registration unconditional.
\<close>

theorem captured_registration_pins:
  fixes s :: "'lim directoryServer"
  assumes "verifyHMAC t0 s req w" "rq_Kind req = KindRelay" "rq_Relay req = Some rd"
    and "rd_ID rd' @ rd_IP rd' @ rd_Role rd' @ rd_PublicKey rd' = rd_ID rd @ rd_IP rd @ rd_Role rd @ rd_PublicKey rd"
    and "rd_Role rd' \<in> {''entry'', ''middle'', ''exit''}"
    and "\<forall>old. ds_relays s (rd_ID rd') = Some old \<longrightarrow> rd_LastSeen old < rd_LastSeen rd'"
    and "- 120 \<le> int64 (t1 - ts)" "int64 (t1 - ts) \<le> 120"
    and "verifyHMAC n1 s own 30" "rq_Kind own = KindRelay" "rq_Relay own = Some rd2"
    and "rd_ID rd2 = rd_ID rd'" "rd_Role rd2 \<in> {''entry'', ''middle'', ''exit''}" "n2 \<le> rd_LastSeen rd'"
    and "forged = req\<lparr>rq_Timestamp := ts, rq_Relay := Some rd'\<rparr>"
    and "s' = snd (handleSync t1 t2 (Some forged) s)"
  shows "ds_relays s' (rd_ID rd') = Some rd' \<and> handleRegister n1 n2 n3 (Some own) s' = (((200, ''''), []), s')"
proof -
  have "verifyHMAC t1 s forged 120"
    using assms(1-4,7,8) unfolding assms(15) by (simp add: verifyHMAC_iff hmacMessage_def)
  then have "sync_relay t1 s forged = Some rd'" "sync_broker t1 s forged = None"
    using assms(2,5) unfolding assms(15) by (simp_all add: sync_relay_def sync_broker_def)
  then have s': "s' = s\<lparr>ds_relays := (ds_relays s)(rd_ID rd' \<mapsto> rd')\<rparr>"
    using sync_req_effect [of t1 t2 forged s] assms(6) unfolding assms(16)
    by (cases "ds_relays s (rd_ID rd')") (auto simp: sync_req_def put_opt_def put_newer_def)
  have "put_newer rd_ID rd_LastSeen (rd2\<lparr>rd_LastSeen := n2\<rparr>) (ds_relays s') = (False, ds_relays s')"
    using assms(12,14) s' by (simp add: put_newer_def)
  then have "storeRegistration n2 own True s' =
      ((own\<lparr>rq_Relay := Some (rd2\<lparr>rd_LastSeen := n2\<rparr>)\<rparr>, False, '''', 0), s')"
    using assms(10,11,13) by (simp add: storeRegistration_def)
  then have "handleRegister n1 n2 n3 (Some own) s' = (((200, ''''), []), s')"
    using assms(9) s' by (simp add: handleRegister_def)
  then show ?thesis using s' by simp
qed

theorem captured_registration_pins_witness:
  "\<exists>s' own. ds_relays s' ''r'' = Some (sample_relay\<lparr>rd_ID := ''r'', rd_IP := ''1'' @ rd_IP sample_relay, rd_Port := 6666, rd_LastSeen := 99999\<rparr>) \<and>
     handleRegister 1010 5000 5000 (Some own) s' = (((200, ''''), []), s' :: unit directoryServer)"
proof -
  let ?rd = "sample_relay\<lparr>rd_ID := ''r'', rd_IP := ''1'' @ rd_IP sample_relay, rd_Port := 6666, rd_LastSeen := 99999\<rparr>"
  let ?own = "sample_request\<lparr>rq_Relay := Some (?rd\<lparr>rd_Port := 9001\<rparr>)\<rparr>"
  have v: "verifyHMAC 1010 sample_dir sample_request 30"
    by (rule sample_verify) (simp_all add: int64_def sample_dir_def)
  have k: "rq_Kind sample_request = KindRelay" "rq_Relay sample_request = Some sample_relay"
    by (simp_all add: sample_request_def)
  have m: "rd_ID ?rd @ rd_IP ?rd @ rd_Role ?rd @ rd_PublicKey ?rd =
      rd_ID sample_relay @ rd_IP sample_relay @ rd_Role sample_relay @ rd_PublicKey sample_relay"
    "rd_Role ?rd \<in> {''entry'', ''middle'', ''exit''}" by (simp_all add: sample_relay_def)
  have o: "verifyHMAC 1010 sample_dir ?own 30" using v k by (simp add: verifyHMAC_iff hmacMessage_def) (simp add: sample_relay_def)
  let ?s = "snd (handleSync 2000 2000 (Some (sample_request\<lparr>rq_Timestamp := 2000, rq_Relay := Some ?rd\<rparr>)) sample_dir)"
  have "ds_relays ?s (rd_ID ?rd) = Some ?rd \<and> handleRegister 1010 5000 5000 (Some ?own) ?s = (((200, ''''), []), ?s)"
    by (rule captured_registration_pins [OF v k m _ _ _ o, where ?rd2.0 = "?rd\<lparr>rd_Port := 9001\<rparr>" and ts = 2000 and ?t1.0 = 2000])
       (use k m(2) in \<open>simp_all add: sample_dir_def int64_def\<close>)
  then show ?thesis by (intro exI [of _ ?s] exI [of _ ?own]) simp
qed

section \<open>Configuration\<close>

definition dir_loadConfig :: "DirectoryConfig option \<Rightarrow> DirectoryConfig \<Rightarrow> (string \<Rightarrow> string) \<Rightarrow> DirectoryConfig option" where
  \<comment> \<open>\<open>file\<close> is the parsed file if there is one, \<open>zero\<close> the zero value, \<open>env\<close> is \<^verbatim>\<open>os.Getenv\<close>; \<open>None\<close> is
      \<^verbatim>\<open>log.Fatal\<close>\<close>
  "dir_loadConfig file zero env =
     (let cfg = DirectoryConfig_ApplyDefaults (case file of None \<Rightarrow> zero | Some c \<Rightarrow> c);
          cfg1 = (if env ''SBNET_REG_SECRET'' \<noteq> '''' then cfg\<lparr>dc_RegSecret := env ''SBNET_REG_SECRET''\<rparr> else cfg)
      in if dc_RegSecret cfg1 = '''' then None else Some cfg1)"

lemma dir_loadConfig_secret:
  "dir_loadConfig file zero env = Some cfg \<Longrightarrow> dc_RegSecret cfg \<noteq> '''' \<and> dc_ConsensusMaxAge cfg \<noteq> 0"
proof -
  have "dc_ConsensusMaxAge (DirectoryConfig_ApplyDefaults c) \<noteq> 0" for c
    by (simp add: DirectoryConfig_ApplyDefaults_def dflt_def Let_def)
  then show "dir_loadConfig file zero env = Some cfg \<Longrightarrow> ?thesis"
    unfolding dir_loadConfig_def Let_def by (auto split: if_splits)
qed

end
