(* ===== verification/Relay.thy ===== *)
theory Relay
  imports Fragment Cell_Crypto Obfs Replay Directory
begin

text \<open>
  The onion relay, \<^verbatim>\<open>src/relay/main.go\<close>. A connection is a number; what the server writes
  to it, closes or starts is a list of events in program order. A cell that is written is the event
  \<open>SendCell\<close>, whose bytes are \<open>MarshalCell\<close> of the cell under some padding (theory \<open>Cell\<close>).
  Everything a handler takes from outside (clock, randomness, AES, X25519, dialling, the
  obfuscation handshake, name resolution) is an argument. A handler is executed as one
  step; \<open>None\<close> is a run that does not return and \<open>Inl\<close> a run-time panic.
\<close>

section \<open>State\<close>

type_synonym conn_id = nat

record Circuit =
  circ_ID :: uint32
  circ_InConn :: conn_id
  circ_OutConn :: "conn_id option"
  circ_Key :: bytes

record relayServer =
  rs_cfg :: RelayConfig
  rs_pubKeyHex :: string
  rs_circuits :: "uint32 \<rightharpoonup> Circuit"
  rs_replay :: ReplayFilter
  rs_timeout :: TimeoutTracker
  rs_reasm :: "uint32 \<rightharpoonup> Reassembler"

datatype relay_event =
    SendCell conn_id Cell
  | CloseConn conn_id
  | SpawnForward Circuit
  | SpawnExit Circuit bytes

record relay_env =
  re_sm :: scalar_mult
  re_aes :: block_cipher
  re_rnd :: "nat \<Rightarrow> byte"
  re_obfs :: "conn \<Rightarrow> obfs_error option \<times> conn"
  re_dial :: "string \<Rightarrow> (conn_id \<times> conn) option"

type_synonym relay_result = "(go_panic + relay_event list \<times> relayServer) option"

definition newRelayServer ::
  "scalar_mult \<Rightarrow> (nat \<Rightarrow> byte) \<Rightarrow> bool \<Rightarrow> RelayConfig \<Rightarrow> filesystem \<Rightarrow> (key_error + relayServer) \<times> filesystem" where
  "newRelayServer sm rnd wfail cfg fs =
     (case LoadOrCreateX25519 sm rnd wfail (rc_KeyFile cfg) fs of
        (Inl e, fs') \<Rightarrow> (Inl e, fs')
      | (Inr (priv, pub), fs') \<Rightarrow>
          let idle = int64 (rc_CircuitIdleSecs cfg * 1000000000) in
          (Inr \<lparr>rs_cfg = cfg, rs_pubKeyHex = hex_encode pub, rs_circuits = Map.empty,
              rs_replay = NewReplayFilter, rs_timeout = NewTimeoutTracker idle, rs_reasm = Map.empty\<rparr>, fs'))"

section \<open>Circuit life cycle\<close>

definition writeIn :: "Circuit \<Rightarrow> Cell \<Rightarrow> relay_event" where
  "writeIn circ c = SendCell (circ_InConn circ) c"

definition destroyCircuit :: "uint32 \<Rightarrow> relayServer \<Rightarrow> relay_event list \<times> relayServer" where
  "destroyCircuit circID s =
     (let (evs, s1) =
        (case rs_circuits s circID of
           None \<Rightarrow> ([], s)
         | Some circ \<Rightarrow>
             ((case circ_OutConn circ of
                 None \<Rightarrow> []
               | Some out \<Rightarrow> [SendCell out (mkCell circID CmdDestroy 0 []), CloseConn out]),
              s\<lparr>rs_circuits := (rs_circuits s)(circID := None)\<rparr>))
      in (evs, s1\<lparr>rs_timeout := Remove circID (rs_timeout s1)\<rparr>))"

fun destroy_all :: "uint32 list \<Rightarrow> relayServer \<Rightarrow> relay_event list \<times> relayServer" where
  "destroy_all [] s = ([], s)"
| "destroy_all (cid # cids) s =
     (let (evs, s1) = destroyCircuit cid s; (evs', s2) = destroy_all cids s1 in (evs @ evs', s2))"

definition idle_tick :: "int \<Rightarrow> uint32 list \<Rightarrow> relayServer \<Rightarrow> relay_event list \<times> relayServer" where
  \<comment> \<open>one tick of the tracker, with \<^verbatim>\<open>destroyCircuit\<close> as its callback\<close>
  "idle_tick now order s =
     (let (expired, t) = sweep now order (rs_timeout s) in destroy_all expired (s\<lparr>rs_timeout := t\<rparr>))"

section \<open>Cell handler\<close>

definition body_slice :: "Cell \<Rightarrow> go_panic + bytes" where
  \<comment> \<open>\<^verbatim>\<open>c.Body[:c.Length]\<close>\<close>
  "body_slice c = (if unat (Length c) > length (Body c) then Inl SliceOutOfRange else Inr (cell_data c))"

definition reassemble :: "Cell \<Rightarrow> relayServer \<Rightarrow> (go_panic + Cell option \<times> relayServer) option" where
  \<comment> \<open>the first part of \<^verbatim>\<open>handleCell\<close>: \<open>None\<close> inside means \<^verbatim>\<open>return\<close>\<close>
  "reassemble c s =
     (if Command c = CmdFragment \<or> Command c = CmdFragFinal then
        (let ra = (case rs_reasm s (CircID c) of None \<Rightarrow> empty_reasm | Some ra \<Rightarrow> ra) in
         case Add ra c of
           None \<Rightarrow> None
         | Some (Inl p) \<Rightarrow> Some (Inl p)
         | Some (Inr ((payload, finished), ra')) \<Rightarrow>
             let s' = s\<lparr>rs_reasm := (rs_reasm s)(CircID c := (if finished then None else Some ra'))\<rparr> in
             if \<not> finished then Some (Inr (None, s'))
             else let payload' = (if length payload > CellBodyMax then take CellBodyMax payload else payload)
                  in Some (Inr (Some (mkCell (CircID c) CmdRelay (length payload') payload'), s')))
      else Some (Inr (Some c, s)))"

definition handleCreate :: "relay_env \<Rightarrow> Cell \<Rightarrow> conn_id \<Rightarrow> relayServer \<Rightarrow> relay_event list \<times> relayServer" where
  "handleCreate env c conn s =
     (let clientPub = take 32 (Body c);
          (priv, pub) = GenKeyPair (re_sm env) (re_rnd env);
          key = DeriveKey (re_sm env) priv clientPub;
          circ = \<lparr>circ_ID = CircID c, circ_InConn = conn, circ_OutConn = None, circ_Key = key\<rparr>
      in ([SendCell conn (mkCell (CircID c) CmdCreated 32 pub)],
          s\<lparr>rs_circuits := (rs_circuits s)(CircID c \<mapsto> circ)\<rparr>))"

definition extend_next ::
  "relay_env \<Rightarrow> uint32 \<Rightarrow> Circuit \<Rightarrow> conn_id \<Rightarrow> bytes \<Rightarrow> relayServer \<Rightarrow> relay_event list \<times> relayServer" where
  \<comment> \<open>\<^verbatim>\<open>CmdExtend\<close> at the last hop, on the decrypted payload\<close>
  "extend_next env cid circ conn payload s =
     (if length payload < 34 then ([], s)
      else let addrLen = unat (payload ! 0) in
        if 1 + addrLen + 32 > length payload then ([], s)
        else let nextAddr = string_of (slice 1 (1 + addrLen) payload);
                 clientEphPub = slice (1 + addrLen) (1 + addrLen + 32) payload
             in case re_dial env nextAddr of
                  None \<Rightarrow> ([], s)
                | Some (next, nextConn) \<Rightarrow>
                    (case re_obfs env nextConn of
                       (Some e, _) \<Rightarrow> ([CloseConn next], s)
                     | (None, nextConn') \<Rightarrow>
                         let create = SendCell next (mkCell cid CmdCreate 32 clientEphPub) in
                         case fst (ReadCell tcp_readFull (inbox nextConn')) of
                           Inl e \<Rightarrow> ([create, CloseConn next], s)
                         | Inr created \<Rightarrow>
                             if Command created \<noteq> CmdCreated then ([create, CloseConn next], s)
                             else let circ' = circ\<lparr>circ_OutConn := Some next\<rparr> in
                               ([create, SpawnForward circ',
                                 SendCell conn (mkCell cid CmdExtended 32 (take 32 (Body created)))],
                                s\<lparr>rs_circuits := (rs_circuits s)(cid \<mapsto> circ')\<rparr>)))"

definition handleExtend ::
  "relay_env \<Rightarrow> Cell \<Rightarrow> conn_id \<Rightarrow> relayServer \<Rightarrow> go_panic + relay_event list \<times> relayServer" where
  "handleExtend env c conn s =
     (case rs_circuits s (CircID c) of
        None \<Rightarrow> Inr ([], s)
      | Some circ \<Rightarrow>
          (case body_slice c of
             Inl p \<Rightarrow> Inl p
           | Inr body \<Rightarrow>
               (case Decrypt (re_aes env) (circ_Key circ) body of
                  Inl e \<Rightarrow> Inr ([], s)
                | Inr payload \<Rightarrow>
                    (case circ_OutConn circ of
                       Some out \<Rightarrow>
                         if length payload > CellBodyMax then Inr ([], s)
                         else Inr ([SendCell out (mkCell (CircID c) CmdExtend (length payload) payload)], s)
                     | None \<Rightarrow> Inr (extend_next env (CircID c) circ conn payload s)))))"

definition handleRelay ::
  "relay_env \<Rightarrow> Cell \<Rightarrow> relayServer \<Rightarrow> go_panic + relay_event list \<times> relayServer" where
  "handleRelay env c s =
     (case rs_circuits s (CircID c) of
        None \<Rightarrow> Inr ([], s)
      | Some circ \<Rightarrow>
          (case body_slice c of
             Inl p \<Rightarrow> Inl p
           | Inr body \<Rightarrow>
               (case Decrypt (re_aes env) (circ_Key circ) body of
                  Inl e \<Rightarrow> Inr ([], s)
                | Inr payload \<Rightarrow>
                    if rc_Role (rs_cfg s) = ''exit'' then Inr ([SpawnExit circ payload], s)
                    else (case circ_OutConn circ of
                            None \<Rightarrow> Inr ([], s)
                          | Some out \<Rightarrow>
                              if length payload + gcmOverhead > CellBodyMax
                              then Inr (map (SendCell out) (Fragment (CircID c) (RandomUint32 (re_rnd env)) payload), s)
                              else Inr ([SendCell out (mkCell (CircID c) CmdRelay (length payload) payload)], s)))))"

definition handlePing ::
  "Cell \<Rightarrow> conn_id \<Rightarrow> relayServer \<Rightarrow> go_panic + relay_event list \<times> relayServer" where
  "handlePing c conn s =
     (case body_slice c of
        Inl p \<Rightarrow> Inl p
      | Inr body \<Rightarrow> Inr ([SendCell conn (mkCell (CircID c) CmdPong (unat (Length c)) body)], s))"

definition dispatch ::
  "relay_env \<Rightarrow> Cell \<Rightarrow> conn_id \<Rightarrow> relayServer \<Rightarrow> go_panic + relay_event list \<times> relayServer" where
  \<comment> \<open>the \<^verbatim>\<open>switch\<close>\<close>
  "dispatch env c conn s =
     (if Command c = CmdCreate then Inr (handleCreate env c conn s)
      else if Command c = CmdExtend then handleExtend env c conn s
      else if Command c = CmdRelay then handleRelay env c s
      else if Command c = CmdPing then handlePing c conn s
      else if Command c = CmdDestroy then Inr (destroyCircuit (CircID c) s)
      else Inr ([], s))"

definition handleCell :: "relay_env \<Rightarrow> int \<Rightarrow> Cell \<Rightarrow> conn_id \<Rightarrow> relayServer \<Rightarrow> relay_result" where
  "handleCell env now c conn s =
     (let s1 = s\<lparr>rs_timeout := Touch now (CircID c) (rs_timeout s)\<rparr> in
      case reassemble c s1 of
        None \<Rightarrow> None
      | Some (Inl p) \<Rightarrow> Some (Inl p)
      | Some (Inr (None, s2)) \<Rightarrow> Some (Inr ([], s2))
      | Some (Inr (Some c', s2)) \<Rightarrow> Some (dispatch env c' conn s2))"

section \<open>Backward direction\<close>

definition forward_cell :: "block_cipher \<Rightarrow> (nat \<Rightarrow> byte) \<Rightarrow> Circuit \<Rightarrow> Cell \<Rightarrow> Cell option" where
  \<comment> \<open>one iteration of \<^verbatim>\<open>forwardCells\<close> on a cell read from \<^verbatim>\<open>OutConn\<close>; \<open>None\<close> ends
      the goroutine\<close>
  "forward_cell aes rnd circ c =
     (if Command c = CmdRelay \<or> Command c = CmdRelayDone then
        (case Encrypt aes rnd (circ_Key circ) (cell_data c) of
           Inl e \<Rightarrow> None
         | Inr enc \<Rightarrow>
             if length enc > CellBodyMax then None
             else Some (c\<lparr>Length := of_nat (length enc), Body := go_copy (Body c) enc\<rparr>))
      else Some c)"

fun forward_loop :: "block_cipher \<Rightarrow> (nat \<Rightarrow> nat \<Rightarrow> byte) \<Rightarrow> Circuit \<Rightarrow> Cell list \<Rightarrow> relay_event list" where
  "forward_loop aes rnds circ [] = []"
| "forward_loop aes rnds circ (c # cs) =
     (case forward_cell aes (rnds 0) circ c of
        None \<Rightarrow> []
      | Some c' \<Rightarrow> writeIn circ c' # forward_loop aes (\<lambda>i. rnds (Suc i)) circ cs)"

definition forwardCells :: "block_cipher \<Rightarrow> (nat \<Rightarrow> nat \<Rightarrow> byte) \<Rightarrow> Circuit \<Rightarrow> bytes \<Rightarrow> relay_event list" where
  \<comment> \<open>on the bytes \<^verbatim>\<open>OutConn\<close> delivers until it fails; every cell takes at least 9 of them, so
      their number is fuel enough\<close>
  "forwardCells aes rnds circ stream =
     forward_loop aes rnds circ (fst (read_cells (length stream) tcp_readFull stream))"

section \<open>Exit relay\<close>

record exit_env =
  ee_aes :: block_cipher
  ee_rnds :: "nat \<Rightarrow> nat \<Rightarrow> byte"
  ee_lookupHost :: "string \<Rightarrow> string list option"
  ee_doh :: "string \<Rightarrow> string option"                   \<comment> \<open>GET the URL and decode the \<^verbatim>\<open>ip\<close> field\<close>
  ee_dial :: "string \<Rightarrow> string + (bytes \<Rightarrow> bool \<times> (bytes \<times> bool) list)"
    \<comment> \<open>the error text, or the origin: for the bytes written to it, whether the write fails and
        what each \<^verbatim>\<open>Read\<close> returns (bytes, error); after the last one reading fails\<close>

definition HasSuffix :: "string \<Rightarrow> string \<Rightarrow> bool" where
  "HasSuffix s suf = (length suf \<le> length s \<and> drop (length s - length suf) s = suf)"

definition resolveInternal :: "exit_env \<Rightarrow> RelayConfig \<Rightarrow> string \<Rightarrow> string" where
  "resolveInternal env cfg host =
     (if rc_InternalDNS cfg = '''' then ''''
      else (case ee_doh env (''http://'' @ rc_InternalDNS cfg @ ''/dns-query?name='' @ host) of
              None \<Rightarrow> '''' | Some ip \<Rightarrow> ip))"

definition resolveHost :: "exit_env \<Rightarrow> RelayConfig \<Rightarrow> string \<Rightarrow> string" where
  "resolveHost env cfg host =
     (if HasSuffix host ''.sbnet'' then resolveInternal env cfg host
      else (case ee_lookupHost env host of
              Some (a # _) \<Rightarrow> a | _ \<Rightarrow> ''''))"

definition exit_reply :: "block_cipher \<Rightarrow> (nat \<Rightarrow> byte) \<Rightarrow> Circuit \<Rightarrow> CellCmd \<Rightarrow> bytes \<Rightarrow> relay_event option" where
  \<comment> \<open>encrypt, check the size, build the cell: the same code for data, error and done cells\<close>
  "exit_reply aes rnd circ cmd plain =
     (case Encrypt aes rnd (circ_Key circ) plain of
        Inl e \<Rightarrow> None
      | Inr enc \<Rightarrow>
          if length enc > CellBodyMax then None
          else Some (writeIn circ (mkCell (circ_ID circ) cmd (length enc) enc)))"

definition sendDone :: "block_cipher \<Rightarrow> (nat \<Rightarrow> byte) \<Rightarrow> Circuit \<Rightarrow> relay_event list" where
  "sendDone aes rnd circ = (case exit_reply aes rnd circ CmdRelayDone [0] of None \<Rightarrow> [] | Some e \<Rightarrow> [e])"

definition crlf :: string where
  "crlf = [char_of (13 :: nat), char_of (10 :: nat)]"

definition exit_error_body :: "string \<Rightarrow> string" where
  "exit_error_body msg =
     ''HTTP/1.0 502 Bad Gateway'' @ crlf @ ''Content-Length: '' @ dec_nat (length msg) @ crlf @ crlf @ msg"

definition sendExitError :: "block_cipher \<Rightarrow> (nat \<Rightarrow> byte) \<Rightarrow> Circuit \<Rightarrow> string \<Rightarrow> relay_event list" where
  "sendExitError aes rnd circ msg =
     (case exit_reply aes rnd circ CmdRelay (bytes_of (exit_error_body msg)) of None \<Rightarrow> [] | Some e \<Rightarrow> [e])"

definition exit_chunk :: nat where
  \<comment> \<open>size of the read buffer: room for three layers\<close>
  "exit_chunk = CellBodyMax - 3 * gcmOverhead"

fun exit_loop :: "block_cipher \<Rightarrow> (nat \<Rightarrow> nat \<Rightarrow> byte) \<Rightarrow> Circuit \<Rightarrow> (bytes \<times> bool) list \<Rightarrow> relay_event list" where
  "exit_loop aes rnds circ [] = []"
| "exit_loop aes rnds circ ((buf, readErr) # reads) =
     (let more = (if readErr then [] else exit_loop aes (\<lambda>i. rnds (Suc i)) circ reads) in
      if take exit_chunk buf \<noteq> [] then
        (case exit_reply aes (rnds 0) circ CmdRelay (take exit_chunk buf) of
           None \<Rightarrow> []
         | Some e \<Rightarrow> e # more)
      else more)"

definition handleExitRelay :: "exit_env \<Rightarrow> RelayConfig \<Rightarrow> Circuit \<Rightarrow> bytes \<Rightarrow> relay_event list" where
  "handleExitRelay env cfg circ payload =
     (if length payload < 4 then []
      else let hostLen = unat (get16 (slice 0 2 payload)) in
        if 2 + hostLen + 2 > length payload then []
        else let host = string_of (slice 2 (2 + hostLen) payload);
                 port = get16 (slice (2 + hostLen) (4 + hostLen) payload);
                 reqData = drop (4 + hostLen) payload;
                 resolvedIP = resolveHost env cfg host;
                 done = sendDone (ee_aes env) (ee_rnds env 0) circ;
                 err = sendExitError (ee_aes env) (ee_rnds env 1) circ
             in if resolvedIP = '''' then err (''could not resolve host: '' @ host) @ done
                else let addr = JoinHostPort resolvedIP (dec_nat (unat port)) in
                  case ee_dial env addr of
                    Inl e \<Rightarrow> err (''could not connect to '' @ addr @ '': '' @ e) @ done
                  | Inr origin \<Rightarrow>
                      (case origin reqData of
                         (writeErr, reads) \<Rightarrow>
                           if writeErr then done
                           else exit_loop (ee_aes env) (\<lambda>i. ee_rnds env (i + 2)) circ reads @ done))"

section \<open>Connections, health, registration\<close>

fun conn_loop ::
  "(nat \<Rightarrow> relay_env) \<Rightarrow> (nat \<Rightarrow> int) \<Rightarrow> conn_id \<Rightarrow> Cell list \<Rightarrow> relayServer \<Rightarrow> relay_result" where
  "conn_loop envs clock conn [] s = Some (Inr ([CloseConn conn], s))"
| "conn_loop envs clock conn (c # cs) s =
     (case handleCell (envs 0) (clock 0) c conn s of
        None \<Rightarrow> None
      | Some (Inl p) \<Rightarrow> Some (Inl p)
      | Some (Inr (evs, s1)) \<Rightarrow>
          (case conn_loop (\<lambda>i. envs (Suc i)) (\<lambda>i. clock (Suc i)) conn cs s1 of
             None \<Rightarrow> None
           | Some (Inl p) \<Rightarrow> Some (Inl p)
           | Some (Inr (evs', s2)) \<Rightarrow> Some (Inr (evs @ evs', s2))))"

definition handleConn ::
  "(conn \<Rightarrow> obfs_error option \<times> conn) \<Rightarrow> (nat \<Rightarrow> relay_env) \<Rightarrow> (nat \<Rightarrow> int) \<Rightarrow> conn_id \<Rightarrow> conn \<Rightarrow> relayServer \<Rightarrow> relay_result" where
  \<comment> \<open>on the bytes the peer sends until the connection ends\<close>
  "handleConn obfs envs clock conn c s =
     (case obfs c of
        (Some e, _) \<Rightarrow> Some (Inr ([CloseConn conn], s))
      | (None, c') \<Rightarrow>
          conn_loop envs clock conn (fst (read_cells (length (inbox c')) tcp_readFull (inbox c'))) s)"

definition relay_health :: "relayServer \<Rightarrow> string \<times> string \<times> string \<times> nat \<times> string" where
  "relay_health s = (rc_ID (rs_cfg s), rc_Role (rs_cfg s), rc_Country (rs_cfg s),
     card (dom (rs_circuits s)), rc_Version (rs_cfg s))"

definition relay_descriptor :: "relayServer \<Rightarrow> RelayDescriptor" where
  "relay_descriptor s =
     (let cfg = rs_cfg s in
      \<lparr>rd_ID = rc_ID cfg, rd_IP = rc_IP cfg, rd_Port = rc_Port cfg, rd_Role = rc_Role cfg,
       rd_PublicKey = rs_pubKeyHex s, rd_Country = rc_Country cfg, rd_Region = rc_Region cfg,
       rd_OperMode = rc_OperMode cfg, rd_Bandwidth = rc_Bandwidth cfg, rd_Version = rc_Version cfg,
       rd_LastSeen = 0\<rparr>)"

definition relay_keepAlive :: "string \<Rightarrow> int \<Rightarrow> relayServer \<Rightarrow> (string \<times> RegisterRequest) option" where
  \<comment> \<open>one call of \<^verbatim>\<open>register\<close> in \<^verbatim>\<open>keepAlive\<close>: URL and request; \<open>env_secret\<close> is
      \<^verbatim>\<open>SBNET_REG_SECRET\<close>\<close>
  "relay_keepAlive env_secret now s =
     (let secret = (if rc_RegSecret (rs_cfg s) = '''' then env_secret else rc_RegSecret (rs_cfg s)) in
      if secret = '''' then None
      else let rd = relay_descriptor s in
        Some (rc_DirURL (rs_cfg s) @ ''/register'',
          \<lparr>rq_Kind = KindRelay, rq_Relay = Some rd, rq_Broker = None, rq_Timestamp = now,
           rq_HMAC = registration_mac secret (rd_ID rd @ rd_IP rd @ rd_Role rd @ rd_PublicKey rd)\<rparr>))"

section \<open>Handlers on well-formed cells\<close>

lemma body_slice_wf [simp]: "wf_cell c \<Longrightarrow> body_slice c = Inr (cell_data c)"
  by (simp add: body_slice_def wf_cell_def)

lemma length_cell_data: "wf_cell c \<Longrightarrow> length (cell_data c) = unat (Length c)"
  by (simp add: cell_data_def wf_cell_def)

lemma decrypt_bound:
  assumes "wf_cell c" "Decrypt aes k (cell_data c) = Inr p"
  shows "length p \<le> 477"
  using gcm.dec_len [OF assms(2)] assms(1) length_cell_data [of c] by (simp add: wf_cell_def)

lemma max_index: "w \<noteq> - 1 \<Longrightarrow> unat (w :: uint16) < 65535"
proof -
  assume "w \<noteq> - 1"
  moreover have "unat (- 1 :: uint16) = 65535" by transfer (simp add: mask_eq_exp_minus_1)
  ultimately have "unat w \<noteq> 65535" by (metis word_unat_eq_iff)
  then show ?thesis using unat16_less [of w] by linarith
qed

lemma complete_payload_defined: "finalIdx r \<noteq> - 1 \<Longrightarrow> \<exists>res. complete_payload r = Some res"
  using max_index [of "finalIdx r"]
  by (auto simp: complete_payload_def all_present_from gather_from)

lemma Add_no_panic: "wf_cell c \<Longrightarrow> Add r c \<noteq> Some (Inl p)"
  by (auto simp: Add_def wf_cell_def)

lemma Add_defined:
  "wf_cell c \<Longrightarrow> finalIdx (store_piece r c) \<noteq> - 1 \<Longrightarrow> \<exists>res r'. Add r c = Some (Inr (res, r'))"
  using complete_payload_defined [of "store_piece r c"] by (auto simp: Add_def wf_cell_def)

lemma reassemble_wf:
  "reassemble c s = Some (Inr (Some c', s')) \<Longrightarrow> wf_cell c \<Longrightarrow> wf_cell c'"
  by (auto simp: reassemble_def Let_def wf_mkCell split: if_splits option.splits sum.splits prod.splits)

lemma reassemble_frame:
  "reassemble c s = Some (Inr (r, s')) \<Longrightarrow> \<exists>m. s' = s\<lparr>rs_reasm := m\<rparr>"
  by (cases s) (auto simp: reassemble_def Let_def split: if_splits option.splits sum.splits prod.splits)

lemma reassemble_no_panic: "wf_cell c \<Longrightarrow> reassemble c s \<noteq> Some (Inl p)"
  by (auto simp: reassemble_def Let_def Add_no_panic split: option.splits sum.splits prod.splits
      dest: Add_no_panic)

lemma reassemble_other:
  "Command c \<notin> {CmdFragment, CmdFragFinal} \<Longrightarrow> reassemble c s = Some (Inr (Some c, s))"
  by (simp add: reassemble_def)

lemma dispatch_no_panic: "wf_cell c \<Longrightarrow> \<exists>evs s'. dispatch env c conn s = Inr (evs, s')"
  by (auto simp: dispatch_def handleExtend_def handleRelay_def handlePing_def
      split: option.splits sum.splits intro: prod.exhaust [of "handleCreate env c conn s"]
      prod.exhaust [of "destroyCircuit (CircID c) s"])



section \<open>Invariant\<close>

definition wf_relay :: "relayServer \<Rightarrow> bool" where
  "wf_relay s \<longleftrightarrow>
     (\<forall>cid circ. rs_circuits s cid = Some circ \<longrightarrow>
        circ_ID circ = cid \<and> length (circ_Key circ) = 32 \<and> cid \<in> dom (lastSeen (rs_timeout s)))"

inductive relay_step :: "relayServer \<Rightarrow> relay_event list \<Rightarrow> relayServer \<Rightarrow> bool" where
  cell: "wf_cell c \<Longrightarrow> handleCell env now c conn s = Some (Inr (evs, s')) \<Longrightarrow> relay_step s evs s'"
| tick: "set order = dom (lastSeen (rs_timeout s)) \<Longrightarrow> idle_tick now order s = (evs, s') \<Longrightarrow> relay_step s evs s'"

inductive relay_reachable :: "relayServer \<Rightarrow> bool" where
  start: "newRelayServer sm rnd wfail cfg fs = (Inr s, fs') \<Longrightarrow> relay_reachable s"
| step: "relay_reachable s \<Longrightarrow> relay_step s evs s' \<Longrightarrow> relay_reachable s'"

inductive_cases relay_stepE: "relay_step s evs s'"

lemma destroyCircuit_circuits [simp]:
  "rs_circuits (snd (destroyCircuit cid s)) = (rs_circuits s)(cid := None)"
  by (auto simp: destroyCircuit_def fun_eq_iff split: option.splits)

lemma destroyCircuit_other [simp]:
  "rs_timeout (snd (destroyCircuit cid s)) = Remove cid (rs_timeout s)"
  "rs_replay (snd (destroyCircuit cid s)) = rs_replay s"
  "rs_reasm (snd (destroyCircuit cid s)) = rs_reasm s"
  by (simp_all add: destroyCircuit_def split: option.splits)

lemma destroyCircuit_wf: "wf_relay s \<Longrightarrow> wf_relay (snd (destroyCircuit cid s))"
  by (auto simp: wf_relay_def)

lemma destroy_all_circuits:
  "rs_circuits (snd (destroy_all cids s)) cid = (if cid \<in> set cids then None else rs_circuits s cid)"
  by (induction cids arbitrary: s) (auto simp: split_beta)

lemma destroy_all_events:
  "cid \<in> set cids \<Longrightarrow> rs_circuits s cid = Some circ \<Longrightarrow> circ_OutConn circ = Some out \<Longrightarrow>
   SendCell out (mkCell cid CmdDestroy 0 []) \<in> set (fst (destroy_all cids s)) \<and>
   CloseConn out \<in> set (fst (destroy_all cids s))"
proof (induction cids arbitrary: s)
  case (Cons x xs)
  show ?case
  proof (cases "x = cid")
    case True
    with Cons.prems have "fst (destroyCircuit x s) = [SendCell out (mkCell cid CmdDestroy 0 []), CloseConn out]"
      by (simp add: destroyCircuit_def)
    then show ?thesis by (simp add: split_beta)
  next
    case False
    with Cons.prems Cons.IH [of "snd (destroyCircuit x s)"] show ?thesis by (simp add: split_beta)
  qed
qed simp

lemma destroy_all_timeout:
  "lastSeen (rs_timeout (snd (destroy_all cids s))) cid =
     (if cid \<in> set cids then None else lastSeen (rs_timeout s) cid)"
  by (induction cids arbitrary: s) (auto simp: split_beta Remove_def)

lemma destroy_all_replay [simp]: "rs_replay (snd (destroy_all cids s)) = rs_replay s"
  by (induction cids arbitrary: s) (auto simp: split_beta)

lemma handleCreate_wf:
  "wf_relay s \<Longrightarrow> CircID c \<in> dom (lastSeen (rs_timeout s)) \<Longrightarrow> wf_relay (snd (handleCreate env c conn s))"
  by (auto simp: wf_relay_def handleCreate_def split_beta Let_def)

lemma extend_next_state:
  "snd (extend_next env cid circ conn payload s) = s \<or>
   (\<exists>out. snd (extend_next env cid circ conn payload s) =
      s\<lparr>rs_circuits := (rs_circuits s)(cid \<mapsto> circ\<lparr>circ_OutConn := Some out\<rparr>)\<rparr>)"
  by (auto simp: extend_next_def Let_def split: option.splits prod.splits sum.splits)

lemma handleExtend_wf:
  assumes "wf_relay s" "handleExtend env c conn s = Inr (evs, s')"
  shows "wf_relay s' \<and> rs_replay s' = rs_replay s"
proof (cases "rs_circuits s (CircID c)")
  case (Some circ)
  have "s' = s \<or> (\<exists>out. s' = s\<lparr>rs_circuits := (rs_circuits s)(CircID c \<mapsto> circ\<lparr>circ_OutConn := Some out\<rparr>)\<rparr>)"
    using assms(2) Some extend_next_state [of env "CircID c" circ conn _ s]
    by (auto simp: handleExtend_def split: sum.splits option.splits if_splits) (metis snd_conv)+
  with assms(1) Some show ?thesis by (auto simp: wf_relay_def domIff split: if_splits)
qed (use assms in \<open>auto simp: handleExtend_def\<close>)

lemma handleRelay_state: "handleRelay env c s = Inr (evs, s') \<Longrightarrow> s' = s"
  by (auto simp: handleRelay_def split: option.splits sum.splits if_splits)

lemma dispatch_wf:
  assumes "wf_relay s" "CircID c \<in> dom (lastSeen (rs_timeout s))" "dispatch env c conn s = Inr (evs, s')"
  shows "wf_relay s' \<and> rs_replay s' = rs_replay s"
proof -
  have ping: "handlePing c conn s = Inr (evs, s') \<Longrightarrow> s' = s"
    by (auto simp: handlePing_def split: sum.splits)
  consider (create) "handleCreate env c conn s = (evs, s')" | (extend) "handleExtend env c conn s = Inr (evs, s')"
    | (same) "s' = s" | (destroy) "destroyCircuit (CircID c) s = (evs, s')"
    using assms(3) handleRelay_state [of env c s evs s'] ping
    unfolding dispatch_def by (metis sum.inject(2) snd_conv)
  then show ?thesis
  proof cases
    case create
    then have "s' = snd (handleCreate env c conn s)" by (metis snd_conv)
    with handleCreate_wf [OF assms(1,2)] show ?thesis by (simp add: handleCreate_def split_beta Let_def)
  next
    case destroy
    then have "s' = snd (destroyCircuit (CircID c) s)" by (metis snd_conv)
    with destroyCircuit_wf [OF assms(1)] show ?thesis by simp
  qed (use assms(1) handleExtend_wf in auto)
qed

lemma handleCell_wf:
  assumes "wf_relay s" "handleCell env now c conn s = Some (Inr (evs, s'))"
  shows "wf_relay s' \<and> rs_replay s' = rs_replay s"
proof -
  let ?s = "s\<lparr>rs_timeout := Touch now (CircID c) (rs_timeout s)\<rparr>"
  obtain r s2 where r: "reassemble c ?s = Some (Inr (r, s2))"
    using assms(2) by (auto simp: handleCell_def Let_def split: option.splits sum.splits)
  obtain m where s2: "s2 = ?s\<lparr>rs_reasm := m\<rparr>" using reassemble_frame [OF r] by blast
  have wf2: "wf_relay s2" "rs_replay s2 = rs_replay s" using assms(1) s2 by (auto simp: wf_relay_def)
  show ?thesis
  proof (cases r)
    case None
    with r assms(2) wf2 show ?thesis by (simp add: handleCell_def Let_def)
  next
    case (Some c')
    have "CircID c' = CircID c"
      using r Some by (auto simp: reassemble_def Let_def split: if_splits option.splits sum.splits prod.splits)
    then have "CircID c' \<in> dom (lastSeen (rs_timeout s2))" using s2 by simp
    moreover have "dispatch env c' conn s2 = Inr (evs, s')"
      using r Some assms(2) by (simp add: handleCell_def Let_def)
    ultimately show ?thesis using dispatch_wf wf2 by metis
  qed
qed

lemma idle_tick_circuits:
  assumes "set order = dom (lastSeen (rs_timeout s))"
  shows "rs_circuits (snd (idle_tick now order s)) cid =
     (if idle_expired now (rs_timeout s) cid then None else rs_circuits s cid)"
proof -
  have "cid \<in> set (fst (sweep now order (rs_timeout s))) \<longleftrightarrow> idle_expired now (rs_timeout s) cid"
    using assms by (auto simp: sweep_expired_iff idle_expired_def split: option.splits)
  then show ?thesis by (simp add: idle_tick_def split_beta Let_def destroy_all_circuits)
qed

lemma idle_tick_lastSeen:
  assumes "set order = dom (lastSeen (rs_timeout s))"
  shows "lastSeen (rs_timeout (snd (idle_tick now order s))) cid =
     (if idle_expired now (rs_timeout s) cid then None else lastSeen (rs_timeout s) cid)"
  using assms sweep_lastSeen [of "rs_timeout s" order now cid]
  by (auto simp: idle_tick_def split_beta Let_def destroy_all_timeout sweep_expired_iff)

lemma relay_step_wf: "relay_step s evs s' \<Longrightarrow> wf_relay s \<Longrightarrow> wf_relay s' \<and> rs_replay s' = rs_replay s"
proof (erule relay_stepE)
  fix order now
  assume o: "set order = dom (lastSeen (rs_timeout s))" and t: "idle_tick now order s = (evs, s')" and "wf_relay s"
  moreover have "rs_replay s' = rs_replay s"
    using t by (auto simp: idle_tick_def split_beta Let_def prod_eq_iff)
  ultimately show "wf_relay s' \<and> rs_replay s' = rs_replay s"
    using idle_tick_circuits [OF o, of now] idle_tick_lastSeen [OF o, of now]
    by (auto simp: wf_relay_def domIff split: if_splits)
qed (use handleCell_wf in blast)

lemma newRelayServer_wf:
  "newRelayServer sm rnd wfail cfg fs = (Inr s, fs') \<Longrightarrow> wf_relay s \<and> rs_replay s = NewReplayFilter"
  by (auto simp: newRelayServer_def Let_def wf_relay_def split: prod.splits sum.splits)


definition sample_relay_cfg :: RelayConfig where
  "sample_relay_cfg = RelayConfig_ApplyDefaults
     \<lparr>rc_ID = ''r1'', rc_IP = ''10.0.0.1'', rc_Port = 0, rc_HealthPort = 0, rc_Role = '''', rc_Country = '''',
      rc_Region = '''', rc_OperMode = '''', rc_Bandwidth = 0, rc_Version = '''', rc_DirURL = '''',
      rc_DirTLSCA = '''', rc_RegSecret = ''s'', rc_KeyFile = '''', rc_InternalDNS = '''', rc_LogLevel = '''',
      rc_CircuitIdleSecs = 0\<rparr>"


text \<open>
  C19: An idle sweep removes exactly the circuits that were not touched for longer than the
  configured idle time, together with their timer, and tells the next hop of each of them:
  a Destroy cell goes to its outgoing connection, which is then closed.
\<close>

theorem idle_circuits_torn_down:
  assumes "set order = dom (lastSeen (rs_timeout s))" "idle_tick now order s = (evs, s')"
  shows "(idle_expired now (rs_timeout s) cid \<longrightarrow>
       rs_circuits s' cid = None \<and> lastSeen (rs_timeout s') cid = None \<and>
       (\<forall>circ out. rs_circuits s cid = Some circ \<and> circ_OutConn circ = Some out \<longrightarrow>
          SendCell out (mkCell cid CmdDestroy 0 []) \<in> set evs \<and> CloseConn out \<in> set evs)) \<and>
     (\<not> idle_expired now (rs_timeout s) cid \<longrightarrow>
       rs_circuits s' cid = rs_circuits s cid \<and> lastSeen (rs_timeout s') cid = lastSeen (rs_timeout s) cid)"
proof -
  have s': "s' = snd (idle_tick now order s)" and evs: "evs = fst (idle_tick now order s)"
    using assms(2) by simp_all
  have "SendCell out (mkCell cid CmdDestroy 0 []) \<in> set evs \<and> CloseConn out \<in> set evs"
    if "idle_expired now (rs_timeout s) cid" "rs_circuits s cid = Some circ" "circ_OutConn circ = Some out" for circ out
  proof -
    have "cid \<in> set (fst (sweep now order (rs_timeout s)))"
      using that(1) assms(1) by (auto simp: sweep_expired_iff idle_expired_def split: option.splits)
    from destroy_all_events [OF this _ that(3), of "s\<lparr>rs_timeout := snd (sweep now order (rs_timeout s))\<rparr>"] that(2)
    show ?thesis by (simp add: evs idle_tick_def split_beta Let_def)
  qed
  then show ?thesis
    using idle_tick_circuits [OF assms(1)] idle_tick_lastSeen [OF assms(1)] s' by simp
qed

theorem idle_circuits_torn_down_witness:
  "\<exists>s evs s'. idle_tick 301 [7] s = (evs, s') \<and> rs_circuits s 7 \<noteq> None \<and> rs_circuits s' 7 = None \<and>
     CloseConn 3 \<in> set evs"
proof -
  let ?s = "\<lparr>rs_cfg = sample_relay_cfg, rs_pubKeyHex = '''',
     rs_circuits = [7 \<mapsto> \<lparr>circ_ID = 7, circ_InConn = 1, circ_OutConn = Some 3, circ_Key = replicate 32 0\<rparr>],
     rs_replay = NewReplayFilter, rs_timeout = Touch 0 7 (NewTimeoutTracker 300), rs_reasm = Map.empty\<rparr>"
  obtain evs s' where t: "idle_tick 301 [7] ?s = (evs, s')" by fastforce
  have o: "set [7] = dom (lastSeen (rs_timeout ?s))" by (simp add: NewTimeoutTracker_def)
  have "idle_expired 301 (rs_timeout ?s) 7" by (simp add: idle_expired_def Touch_def NewTimeoutTracker_def)
  with idle_circuits_torn_down [OF o t, of 7] t show ?thesis by fastforce
qed

section \<open>Forward direction\<close>

lemma handleCell_other:
  "Command c \<notin> {CmdFragment, CmdFragFinal} \<Longrightarrow>
   handleCell env now c conn s = Some (dispatch env c conn (s\<lparr>rs_timeout := Touch now (CircID c) (rs_timeout s)\<rparr>))"
  by (simp add: handleCell_def reassemble_other Let_def)

lemmas relay_cmds = cmd_defs handleCell_other dispatch_def

lemma relay_cell_effect:
  assumes "wf_cell c" "Command c = CmdRelay" "rs_circuits s (CircID c) = Some circ"
    and "Decrypt (re_aes env) (circ_Key circ) (cell_data c) = Inr p"
  shows "handleCell env now c conn s =
     Some (Inr (if rc_Role (rs_cfg s) = ''exit'' then [SpawnExit circ p]
                else (case circ_OutConn circ of None \<Rightarrow> []
                      | Some out \<Rightarrow> [SendCell out (mkCell (CircID c) CmdRelay (length p) p)]),
                s\<lparr>rs_timeout := Touch now (CircID c) (rs_timeout s)\<rparr>))"
  using assms decrypt_bound [OF assms(1,4)]
  by (simp add: relay_cmds handleRelay_def split: option.split)

lemma relay_cell_bad:
  assumes "wf_cell c" "Command c = CmdRelay"
    and "rs_circuits s (CircID c) = None \<or>
      (\<exists>circ e. rs_circuits s (CircID c) = Some circ \<and> Decrypt (re_aes env) (circ_Key circ) (cell_data c) = Inl e)"
  shows "handleCell env now c conn s = Some (Inr ([], s\<lparr>rs_timeout := Touch now (CircID c) (rs_timeout s)\<rparr>))"
  using assms by (auto simp: relay_cmds handleRelay_def)

definition sample_circ :: Circuit where
  "sample_circ = \<lparr>circ_ID = 7, circ_InConn = 1, circ_OutConn = None, circ_Key = replicate 32 0\<rparr>"

definition sample_exit :: relayServer where
  "sample_exit = \<lparr>rs_cfg = sample_relay_cfg\<lparr>rc_Role := ''exit''\<rparr>, rs_pubKeyHex = '''',
     rs_circuits = [7 \<mapsto> sample_circ],
     rs_replay = NewReplayFilter, rs_timeout = NewTimeoutTracker 300, rs_reasm = Map.empty\<rparr>"

definition sample_env :: relay_env where
  "sample_env = \<lparr>re_sm = (\<lambda>k u. map2 (XOR) k u), re_aes = (\<lambda>k b. b XOR block_of k), re_rnd = (\<lambda>i. of_nat i),
     re_obfs = (\<lambda>c. (None, c)), re_dial = (\<lambda>a. None)\<rparr>"

lemma sample_exit_role [simp]: "rc_Role (rs_cfg sample_exit) = ''exit''"
  by (simp add: sample_exit_def)

lemma sample_relay_cell:
  obtains c where "wf_cell c" "Command c = CmdRelay" "CircID c = 7"
    "rs_circuits sample_exit (CircID c) = Some sample_circ"
    "Decrypt (re_aes sample_env) (circ_Key sample_circ) (cell_data c) = Inr [104, 105]"
proof -
  obtain e where e: "Encrypt (re_aes sample_env) (\<lambda>_. 3) (replicate 32 0) [104, 105] = Inr e"
    "Decrypt (re_aes sample_env) (replicate 32 0) e = Inr [104, 105]"
    using gcm.enc_ok [of "replicate 32 0" "re_aes sample_env" "\<lambda>_. 3" "[104, 105]"] by auto
  have "length e \<le> CellBodyMax" using gcm.enc_len [OF e(1)] by simp
  with that [of "mkCell 7 CmdRelay (length e) e"] e(2) show ?thesis
    by (simp add: wf_mkCell sample_exit_def sample_circ_def)
qed

text \<open>
  C7: A relay cell that authenticates under the circuit's key is handled by removing exactly one
  layer: at an exit the payload goes to the exit handler, at any other relay with a next hop it
  leaves as one relay cell of at most 477 bytes, so the fragmentation branch is never
  taken; a cell of an unknown circuit, or one that fails authentication, produces nothing.
  Apart from the idle timer no state changes.
\<close>

theorem relay_peels_one_layer:
  assumes "wf_cell c" "Command c = CmdRelay"
  shows "handleCell env now c conn s =
     Some (Inr (case rs_circuits s (CircID c) of None \<Rightarrow> []
       | Some circ \<Rightarrow>
           (case Decrypt (re_aes env) (circ_Key circ) (cell_data c) of Inl e \<Rightarrow> []
            | Inr p \<Rightarrow> if rc_Role (rs_cfg s) = ''exit'' then [SpawnExit circ p]
                else (case circ_OutConn circ of None \<Rightarrow> []
                      | Some out \<Rightarrow> [SendCell out (mkCell (CircID c) CmdRelay (length p) p)])),
       s\<lparr>rs_timeout := Touch now (CircID c) (rs_timeout s)\<rparr>)) \<and>
     (\<forall>circ p. Decrypt (re_aes env) (circ_Key circ) (cell_data c) = Inr p \<longrightarrow> length p \<le> 477)"
proof
  show "\<forall>circ p. Decrypt (re_aes env) (circ_Key circ) (cell_data c) = Inr p \<longrightarrow> length p \<le> 477"
    using decrypt_bound [OF assms(1)] by blast
qed (use relay_cell_bad [OF assms] relay_cell_effect [OF assms] in \<open>auto split: option.split sum.split\<close>)

theorem relay_peels_one_layer_witness:
  "\<exists>c. handleCell sample_env 1 c 1 sample_exit =
     Some (Inr ([SpawnExit sample_circ [104, 105]], sample_exit\<lparr>rs_timeout := Touch 1 7 (rs_timeout sample_exit)\<rparr>))"
proof -
  obtain c where c: "wf_cell c" "Command c = CmdRelay" "CircID c = 7"
    "rs_circuits sample_exit (CircID c) = Some sample_circ"
    "Decrypt (re_aes sample_env) (circ_Key sample_circ) (cell_data c) = Inr [104, 105]"
    by (rule sample_relay_cell)
  from relay_peels_one_layer [OF c(1,2), of sample_env 1 1 sample_exit] c show ?thesis
    by auto
qed

text \<open>
  Relay cells are not protected against replay. A relay that has handled a relay cell handles
  an identical copy at any later time in the same way and emits the same cells or starts the same
  exit request again, although it owns a replay filter.
\<close>

theorem relay_accepts_replays:
  assumes "wf_cell c" "Command c = CmdRelay"
    and "handleCell env now c conn s = Some (Inr (evs, s1))" "re_aes env' = re_aes env"
  shows "\<exists>s2. handleCell env' later c conn' s1 = Some (Inr (evs, s2)) \<and> rs_circuits s2 = rs_circuits s"
proof -
  let ?t = "s\<lparr>rs_timeout := Touch now (CircID c) (rs_timeout s)\<rparr>"
  have "handleCell env now c conn s = Some (handleRelay env c ?t)"
    using assms(2) by (simp add: relay_cmds)
  with assms(3) have "handleRelay env c ?t = Inr (evs, s1)" by simp
  from handleRelay_state [OF this] have "s1 = ?t" .
  then have s1: "rs_circuits s1 = rs_circuits s" "rs_cfg s1 = rs_cfg s" by simp_all
  show ?thesis
  proof (cases "\<exists>circ p. rs_circuits s (CircID c) = Some circ \<and> Decrypt (re_aes env) (circ_Key circ) (cell_data c) = Inr p")
    case True
    then obtain circ p where cp: "rs_circuits s (CircID c) = Some circ"
      "Decrypt (re_aes env) (circ_Key circ) (cell_data c) = Inr p" by blast
    with s1 assms(4) have "rs_circuits s1 (CircID c) = Some circ"
      "Decrypt (re_aes env') (circ_Key circ) (cell_data c) = Inr p" by simp_all
    from relay_cell_effect [OF assms(1,2) this] relay_cell_effect [OF assms(1,2) cp] assms(3) s1
    show ?thesis by auto
  next
    case False
    then have bad: "rs_circuits s (CircID c) = None \<or>
      (\<exists>circ e. rs_circuits s (CircID c) = Some circ \<and> Decrypt (re_aes env) (circ_Key circ) (cell_data c) = Inl e)"
      by (cases "rs_circuits s (CircID c)") (auto, metis sum.exhaust)
    with s1 assms(4) relay_cell_bad [OF assms(1,2), of s1 env'] relay_cell_bad [OF assms(1,2) bad] assms(3)
    show ?thesis by auto
  qed
qed

theorem relay_accepts_replays_witness:
  "\<exists>c s1 s2. handleCell sample_env 1 c 1 sample_exit = Some (Inr ([SpawnExit sample_circ [104, 105]], s1)) \<and>
     handleCell sample_env 2 c 1 s1 = Some (Inr ([SpawnExit sample_circ [104, 105]], s2))"
proof -
  obtain c where c: "wf_cell c" "Command c = CmdRelay" "CircID c = 7"
    "rs_circuits sample_exit (CircID c) = Some sample_circ"
    "Decrypt (re_aes sample_env) (circ_Key sample_circ) (cell_data c) = Inr [104, 105]"
    by (rule sample_relay_cell)
  obtain s1 where h: "handleCell sample_env 1 c 1 sample_exit = Some (Inr ([SpawnExit sample_circ [104, 105]], s1))"
    using relay_cell_effect [OF c(1,2,4,5)] by simp
  from relay_accepts_replays [OF c(1,2) h refl, of 2 1] h show ?thesis by blast
qed

section \<open>Key agreement and backward direction\<close>

lemma create_effect:
  assumes "Command c = CmdCreate"
  shows "handleCell env now c conn s =
     (let priv = rand_bytes (re_rnd env) 32;
          key = DeriveKey (re_sm env) priv (take 32 (Body c))
      in Some (Inr ([SendCell conn (mkCell (CircID c) CmdCreated 32 (ScalarBaseMult (re_sm env) priv))],
           s\<lparr>rs_timeout := Touch now (CircID c) (rs_timeout s),
             rs_circuits := (rs_circuits s)(CircID c \<mapsto>
               \<lparr>circ_ID = CircID c, circ_InConn = conn, circ_OutConn = None, circ_Key = key\<rparr>)\<rparr>)))"
  using assms by (simp add: relay_cmds handleCreate_def GenKeyPair_def Let_def)

lemma mkCell_body32 [simp]: "length src = 32 \<Longrightarrow> take 32 (Body (mkCell cid cmd n src)) = src"
  by (simp add: mkCell_def)

text \<open>
  Creating a hop agrees on a key: for a client key pair, the Create cell with the public key
  is answered with one Created cell, and the key the client derives from the 32 bytes in it is the
  key the relay stored for the circuit, given the Diffie-Hellman law of X25519.
\<close>

theorem create_agrees_on_key:
  assumes "x25519_ok (re_sm env)" "length priv = 32"
    and "c = mkCell cid CmdCreate 32 (ScalarBaseMult (re_sm env) priv)"
  shows "\<exists>reply s' circ. handleCell env now c conn s = Some (Inr ([SendCell conn reply], s')) \<and>
     Command reply = CmdCreated \<and> CircID reply = cid \<and> wf_cell reply \<and>
     rs_circuits s' cid = Some circ \<and> circ_InConn circ = conn \<and> circ_OutConn circ = None \<and>
     circ_Key circ = DeriveKey (re_sm env) priv (take 32 (Body reply)) \<and>
     (\<forall>other. other \<noteq> cid \<longrightarrow> rs_circuits s' other = rs_circuits s other)"
proof -
  let ?b = "rand_bytes (re_rnd env) 32"
  have len: "length (ScalarBaseMult (re_sm env) k) = 32" for k
    using assms(1) by (simp add: x25519_ok_def ScalarBaseMult_def)
  have "DeriveKey (re_sm env) ?b (ScalarBaseMult (re_sm env) priv) =
      DeriveKey (re_sm env) priv (ScalarBaseMult (re_sm env) ?b)"
    using DeriveKey_agree [OF assms(1), of ?b priv] assms(2) by simp
  then show ?thesis
    using create_effect [of c env now conn s] len assms(3) by (simp add: Let_def wf_mkCell)
qed

theorem create_agrees_on_key_witness:
  "\<exists>reply s' circ. handleCell (sample_env\<lparr>re_sm := sample_sm\<rparr>) 1
       (mkCell 8 CmdCreate 32 (ScalarBaseMult sample_sm (replicate 32 2))) 4 sample_exit =
       Some (Inr ([SendCell 4 reply], s')) \<and> rs_circuits s' 8 = Some circ \<and>
     circ_Key circ = DeriveKey sample_sm (replicate 32 2) (take 32 (Body reply))"
  using create_agrees_on_key [of "sample_env\<lparr>re_sm := sample_sm\<rparr>" "replicate 32 2"
      "mkCell 8 CmdCreate 32 (ScalarBaseMult sample_sm (replicate 32 2))" 8 1 4 sample_exit] sample_sm_ok
  by auto

lemma forward_cell_layer:
  assumes "wf_cell c" "Command c \<in> {CmdRelay, CmdRelayDone}" "length (circ_Key circ) = 32"
  shows "if unat (Length c) \<le> 477
     then \<exists>c'. forward_cell aes rnd circ c = Some c' \<and> wf_cell c' \<and> Command c' = Command c \<and> CircID c' = CircID c \<and>
       Encrypt aes rnd (circ_Key circ) (cell_data c) = Inr (cell_data c') \<and>
       Decrypt aes (circ_Key circ) (cell_data c') = Inr (cell_data c)
     else forward_cell aes rnd circ c = None"
proof -
  obtain e where e: "Encrypt aes rnd (circ_Key circ) (cell_data c) = Inr e" "Decrypt aes (circ_Key circ) e = Inr (cell_data c)"
    using gcm.enc_ok [of "circ_Key circ" aes rnd "cell_data c"] assms(3) by auto
  have le: "length e = unat (Length c) + 28" using gcm.enc_len [OF e(1)] length_cell_data [OF assms(1)] by simp
  let ?c = "c\<lparr>Length := of_nat (length e), Body := go_copy (Body c) e\<rparr>"
  have "cell_data ?c = e" if "length e \<le> 505"
    using that assms(1) by (simp add: cell_data_def wf_cell_def)
  moreover have "wf_cell ?c" if "length e \<le> 505" using that assms(1) by (simp add: wf_cell_def)
  ultimately show ?thesis using e le assms(2) by (auto simp: forward_cell_def)
qed

text \<open>
  C8: On the way back a relay adds exactly one layer: a data or end-of-response cell of at most 477
  bytes from the next hop is forwarded with the same command and circuit id, and decrypting it
  with the circuit's key gives back the bytes received. The end-of-response cell is re-encrypted
  like the others. A longer one ends the forwarding goroutine and nothing after it is forwarded.
\<close>

theorem backward_layer_exact:
  assumes "wf_cell c" "Command c \<in> {CmdRelay, CmdRelayDone}" "length (circ_Key circ) = 32"
  shows "(unat (Length c) \<le> 477 \<longrightarrow>
       (\<exists>c'. forward_loop aes rnds circ (c # cs) =
           SendCell (circ_InConn circ) c' # forward_loop aes (\<lambda>i. rnds (Suc i)) circ cs \<and>
         Command c' = Command c \<and> CircID c' = CircID c \<and> wf_cell c' \<and>
         Decrypt aes (circ_Key circ) (cell_data c') = Inr (cell_data c))) \<and>
     (477 < unat (Length c) \<longrightarrow> forward_loop aes rnds circ (c # cs) = [])"
  using forward_cell_layer [OF assms, of aes "rnds 0"]
  by (auto simp: writeIn_def split: if_splits)

theorem backward_layer_exact_witness:
  "\<exists>c'. forward_loop (\<lambda>k b. b XOR block_of k) (\<lambda>_ _. 1) sample_circ [mkCell 7 CmdRelayDone 1 [0]] = [SendCell 1 c'] \<and>
     Command c' = CmdRelayDone \<and> Decrypt (\<lambda>k b. b XOR block_of k) (replicate 32 0) (cell_data c') = Inr [0]"
proof -
  let ?c = "mkCell 7 CmdRelayDone 1 [0]"
  have "wf_cell ?c" "Command ?c \<in> {CmdRelay, CmdRelayDone}" "length (circ_Key sample_circ) = 32"
    by (simp_all add: wf_mkCell sample_circ_def)
  moreover have "cell_data ?c = [0]" using cell_data_mkCell [of "[0]" 7 CmdRelayDone] by simp
  ultimately show ?thesis
    using backward_layer_exact [of ?c sample_circ "\<lambda>k b. b XOR block_of k" "\<lambda>_ _. 1" "[]"]
    by (auto simp: sample_circ_def)
qed

section \<open>Registration with the directory\<close>

text \<open>
  C20: The relay's keepalive is accepted: a directory with the same registration secret whose clock
  differs by at most 30 seconds answers 200 to the request keepAlive builds, and if it holds no
  newer descriptor it stores the relay's, stamped with its own clock, and gossips it to its peers.
\<close>

theorem relay_registration_accepted:
  fixes d :: "'lim directoryServer"
  assumes "relay_keepAlive env_secret now s = Some (url, req)"
    and "dc_RegSecret (ds_cfg d) = (if rc_RegSecret (rs_cfg s) = '''' then env_secret else rc_RegSecret (rs_cfg s))"
    and "rc_Role (rs_cfg s) \<in> {''entry'', ''middle'', ''exit''}"
    and "- 30 \<le> int64 (n1 - now)" "int64 (n1 - now) \<le> 30"
    and "\<forall>old. ds_relays d (rc_ID (rs_cfg s)) = Some old \<longrightarrow> rd_LastSeen old < n2"
  shows "\<exists>out. handleRegister n1 n2 n3 (Some req) d =
     (((200, ''''), out),
      d\<lparr>ds_relays := (ds_relays d)(rc_ID (rs_cfg s) \<mapsto> (relay_descriptor s)\<lparr>rd_LastSeen := n2\<rparr>)\<rparr>) \<and>
     map fst out = map (\<lambda>p. p @ ''/sync'') (dc_PeerDirs (ds_cfg d))"
proof -
  let ?rd = "relay_descriptor s"
  have rd: "rd_ID ?rd = rc_ID (rs_cfg s)" "rd_Role ?rd = rc_Role (rs_cfg s)" by (simp_all add: relay_descriptor_def Let_def)
  have req: "rq_Kind req = KindRelay" "rq_Relay req = Some ?rd" "rq_Timestamp req = now"
    "rq_HMAC req = registration_mac (dc_RegSecret (ds_cfg d)) (rd_ID ?rd @ rd_IP ?rd @ rd_Role ?rd @ rd_PublicKey ?rd)"
    using assms(1,2) by (auto simp: relay_keepAlive_def Let_def split: if_splits)
  have v: "verifyHMAC n1 d req 30"
    using req assms(4,5) by (simp add: verifyHMAC_iff hmacMessage_def)
  have "put_newer rd_ID rd_LastSeen (?rd\<lparr>rd_LastSeen := n2\<rparr>) (ds_relays d) =
      (True, (ds_relays d)(rc_ID (rs_cfg s) \<mapsto> ?rd\<lparr>rd_LastSeen := n2\<rparr>))"
    using assms(6) rd by (simp add: put_newer_def split: option.split)
  then have "storeRegistration n2 req True d =
      ((req\<lparr>rq_Relay := Some (?rd\<lparr>rd_LastSeen := n2\<rparr>)\<rparr>, True, '''', 0),
       d\<lparr>ds_relays := (ds_relays d)(rc_ID (rs_cfg s) \<mapsto> ?rd\<lparr>rd_LastSeen := n2\<rparr>)\<rparr>)"
    using req assms(3) rd by (simp add: storeRegistration_def Let_def)
  then show ?thesis using v req by (auto simp: handleRegister_def gossip_def hmacMessage_def Let_def comp_def)
qed

theorem relay_registration_accepted_witness:
  "\<exists>url req out. relay_keepAlive '''' 1000 (sample_exit :: relayServer) = Some (url, req) \<and>
     handleRegister 1010 1010 1010 (Some req) sample_dir =
       (((200, ''''), out), sample_dir\<lparr>ds_relays := [''r1'' \<mapsto> (relay_descriptor sample_exit)\<lparr>rd_LastSeen := 1010\<rparr>]\<rparr>)"
proof -
  obtain url req where k: "relay_keepAlive '''' 1000 sample_exit = Some (url, req)"
    by (simp add: relay_keepAlive_def sample_exit_def sample_relay_cfg_def RelayConfig_ApplyDefaults_def Let_def)
  have c: "rc_RegSecret (rs_cfg sample_exit) = ''s''" "rc_ID (rs_cfg sample_exit) = ''r1''"
    by (simp_all add: sample_exit_def sample_relay_cfg_def RelayConfig_ApplyDefaults_def)
  show ?thesis
    using relay_registration_accepted [OF k, of sample_dir 1010 1010 1010] k c
    by (auto simp: sample_dir_def sample_dir_cfg_def int64_def)
qed

section \<open>Configuration\<close>

definition relay_loadConfig :: "RelayConfig option \<Rightarrow> RelayConfig \<Rightarrow> RelayConfig" where
  \<comment> \<open>\<open>file\<close> is the parsed file if there is one, \<open>zero\<close> the zero value\<close>
  "relay_loadConfig file zero = RelayConfig_ApplyDefaults (case file of None \<Rightarrow> zero | Some c \<Rightarrow> c)"

end
