(* ===== verification/Client_Circuit.thy ===== *)
theory Client_Circuit
  imports Config Cell_Crypto Obfs Keys
begin

text \<open>
  The circuit layer of \<^verbatim>\<open>src/client/main.go\<close>: relay selection, guard pinning, the
  telescoping handshake and one request over a circuit. A connection that has passed the
  obfuscation handshake is a state of type \<open>'n\<close> with the operations of \<open>transport\<close>: writing a
  cell, \<^verbatim>\<open>ReadCell\<close> and closing; theory \<open>Network\<close> supplies a transport made of three relays.
  Encryption layers are \<open>wrap_layers\<close> and \<open>peel_layers\<close> of theory \<open>Cell_Crypto\<close>, which are the
  counting loops of the source.
\<close>

section \<open>Relay selection\<close>

definition pickRelay :: "byte \<Rightarrow> RelayDescriptor list \<Rightarrow> string \<Rightarrow> RelayDescriptor option" where
  "pickRelay b relays role =
     (let pool = filter (\<lambda>r. rd_Role r = role) relays in
      if length pool = 0 then None else Some (pool ! (unat b mod length pool)))"

record guardState =
  gs_RelayID :: string
  gs_PinnedAt :: int

definition loadOrPickGuard ::
  "(bytes \<Rightarrow> guardState) \<Rightarrow> (guardState \<Rightarrow> bytes) \<Rightarrow> bool \<Rightarrow> byte \<Rightarrow> int \<Rightarrow> RelayDescriptor list \<Rightarrow> string \<Rightarrow> filesystem \<Rightarrow>
   RelayDescriptor option \<times> filesystem" where
  \<comment> \<open>\<open>unmarshal\<close> and \<open>marshal\<close> are the JSON codec (a document that does not parse leaves the zero
      state), \<open>wfail\<close> says whether writing the file fails, which the source ignores\<close>
  "loadOrPickGuard unmarshal marshal wfail b now relays guardFile fs =
     (let pinned = (case fs guardFile of
          None \<Rightarrow> None
        | Some data \<Rightarrow>
            let st = unmarshal data in
            List.find (\<lambda>r. rd_ID r = gs_RelayID st \<and> rd_Role r = ''entry'') relays)
      in case pinned of
           Some r \<Rightarrow> (Some r, fs)
         | None \<Rightarrow>
             (case pickRelay b relays ''entry'' of
                None \<Rightarrow> (None, fs)
              | Some guard \<Rightarrow>
                  (Some guard,
                   if wfail then fs
                   else fs(guardFile \<mapsto> marshal \<lparr>gs_RelayID = rd_ID guard, gs_PinnedAt = now\<rparr>))))"

section \<open>Circuits\<close>

definition circuitLifetime :: int where
  \<comment> \<open>10 minutes\<close>
  "circuitLifetime = 10 * 60 * 1000000000"

record 'n transport =
  tr_send :: "Cell \<Rightarrow> 'n \<Rightarrow> 'n"
  tr_recv :: "'n \<Rightarrow> (cell_error + Cell) \<times> 'n"
  tr_close :: "'n \<Rightarrow> 'n"

record 'n ClientCircuit =
  cl_CircID :: uint32
  cl_Conn :: 'n
  cl_Keys :: "bytes list"     \<comment> \<open>\<^verbatim>\<open>[3][]byte\<close>; nil is the empty key\<close>
  cl_built :: int

definition expired :: "int \<Rightarrow> 'n ClientCircuit \<Rightarrow> bool" where
  "expired now c \<longleftrightarrow> now - cl_built c > circuitLifetime"

definition writeCell :: "'n transport \<Rightarrow> Cell \<Rightarrow> 'n ClientCircuit \<Rightarrow> 'n ClientCircuit" where
  "writeCell tr c circ = circ\<lparr>cl_Conn := tr_send tr c (cl_Conn circ)\<rparr>"

definition close_circuit :: "'n transport \<Rightarrow> 'n ClientCircuit \<Rightarrow> 'n" where
  "close_circuit tr c = tr_close tr (tr_send tr (mkCell (cl_CircID c) CmdDestroy 0 []) (cl_Conn c))"

datatype client_error =
    DialFailed
  | ObfsFailed
  | NilRelay
  | CreatedFailed
  | EncryptFailed crypt_error
  | ExtendTooLarge nat
  | ExtendedFailed
  | RequestTooLarge nat
  | CtxDone
  | DecryptFailed crypt_error
  | NotEnoughRelays
  | NoBroker
  | AssignFailed
  | AllBuildsFailed nat
  | NotReady
  | NoCircuits
  | AllAttemptsFailed

definition relay_addr :: "RelayDescriptor \<Rightarrow> string" where
  \<comment> \<open>\<^verbatim>\<open>fmt.Sprintf("%s:%d", next.IP, next.Port)\<close>\<close>
  "relay_addr r = rd_IP r @ '':'' @ dec_int (rd_Port r)"

definition extend_payload :: "string \<Rightarrow> bytes \<Rightarrow> bytes" where
  \<comment> \<open>\<^verbatim>\<open>extPayload\<close>: length byte, address, public key\<close>
  "extend_payload addr pub =
     (let p0 = replicate (1 + length addr + 32) 0;
          p1 = p0[0 := of_nat (length addr)];
          p2 = copy_at 1 p1 (bytes_of addr)
      in copy_at (1 + length addr) p2 pub)"

definition extendCircuit ::
  "'n transport \<Rightarrow> scalar_mult \<Rightarrow> block_cipher \<Rightarrow> (nat \<Rightarrow> nat \<Rightarrow> byte) \<Rightarrow> RelayDescriptor \<Rightarrow> nat \<Rightarrow>
   'n ClientCircuit \<Rightarrow> client_error option \<times> 'n ClientCircuit" where
  "extendCircuit tr sm aes rnds next hopIdx circ =
     (let (priv, pub) = GenKeyPair sm (rnds 0);
          addr = relay_addr next;
          extPayload = extend_payload addr pub
      in case wrap_layers (Encrypt aes) (\<lambda>i. rnds (Suc i)) (take hopIdx (cl_Keys circ)) extPayload of
           Inl e \<Rightarrow> (Some (EncryptFailed e), circ)
         | Inr wrapped \<Rightarrow>
             if length wrapped > CellBodyMax then (Some (ExtendTooLarge (length wrapped)), circ)
             else let circ1 = circ\<lparr>cl_Conn := tr_send tr (mkCell (cl_CircID circ) CmdExtend (length wrapped) wrapped) (cl_Conn circ)\<rparr> in
               case tr_recv tr (cl_Conn circ1) of
                 (Inl e, n) \<Rightarrow> (Some ExtendedFailed, circ1\<lparr>cl_Conn := n\<rparr>)
               | (Inr extended, n) \<Rightarrow>
                   if Command extended \<noteq> CmdExtended then (Some ExtendedFailed, circ1\<lparr>cl_Conn := n\<rparr>)
                   else (None, circ1\<lparr>cl_Conn := n,
                           cl_Keys := (cl_Keys circ1)[hopIdx := DeriveKey sm priv (take 32 (Body extended))]\<rparr>))"

definition buildCircuitOnConn ::
  "'n transport \<Rightarrow> scalar_mult \<Rightarrow> block_cipher \<Rightarrow> (nat \<Rightarrow> nat \<Rightarrow> nat \<Rightarrow> byte) \<Rightarrow> int \<Rightarrow> 'n \<Rightarrow> uint32 \<Rightarrow>
   RelayDescriptor option \<Rightarrow> RelayDescriptor option \<Rightarrow> client_error \<times> 'n + 'n ClientCircuit" where
  \<comment> \<open>a failed build returns the error and the closed connection; \<open>rnds h\<close> are the tapes of hop \<open>h\<close>\<close>
  "buildCircuitOnConn tr sm aes rnds now conn circID middle exitR =
     (case (middle, exitR) of
        (Some middle, Some exitR) \<Rightarrow>
          let (priv0, pub0) = GenKeyPair sm (rnds 0 0);
              conn1 = tr_send tr (mkCell circID CmdCreate 32 pub0) conn
          in (case tr_recv tr conn1 of
                (Inl e, conn2) \<Rightarrow> Inl (CreatedFailed, tr_close tr conn2)
              | (Inr created, conn2) \<Rightarrow>
                  if Command created \<noteq> CmdCreated then Inl (CreatedFailed, tr_close tr conn2)
                  else let circ0 = \<lparr>cl_CircID = circID, cl_Conn = conn2,
                             cl_Keys = [DeriveKey sm priv0 (take 32 (Body created)), [], []], cl_built = now\<rparr>
                       in case extendCircuit tr sm aes (rnds 1) middle 1 circ0 of
                            (Some e, c1) \<Rightarrow> Inl (e, tr_close tr (cl_Conn c1))
                          | (None, c1) \<Rightarrow>
                              (case extendCircuit tr sm aes (rnds 2) exitR 2 c1 of
                                 (Some e, c2) \<Rightarrow> Inl (e, tr_close tr (cl_Conn c2))
                               | (None, c2) \<Rightarrow> Inr c2))
      | _ \<Rightarrow> Inl (NilRelay, tr_close tr conn))"

definition buildCircuit ::
  "(string \<Rightarrow> 'n option) \<Rightarrow> ('n \<Rightarrow> obfs_error option \<times> 'n) \<Rightarrow> 'n transport \<Rightarrow> scalar_mult \<Rightarrow> block_cipher \<Rightarrow>
   (nat \<Rightarrow> nat \<Rightarrow> nat \<Rightarrow> byte) \<Rightarrow> (nat \<Rightarrow> byte) \<Rightarrow> int \<Rightarrow> RelayDescriptor \<Rightarrow> RelayDescriptor option \<Rightarrow>
   RelayDescriptor option \<Rightarrow> client_error \<times> 'n option + 'n ClientCircuit" where
  "buildCircuit dial obfs tr sm aes rnds idrnd now entry middle exitR =
     (case dial (relay_addr entry) of
        None \<Rightarrow> Inl (DialFailed, None)
      | Some conn \<Rightarrow>
          (case obfs conn of
             (Some e, conn1) \<Rightarrow> Inl (ObfsFailed, Some (tr_close tr conn1))
           | (None, conn1) \<Rightarrow>
               (case buildCircuitOnConn tr sm aes rnds now conn1 (RandomUint32 idrnd) middle exitR of
                  Inl (e, n) \<Rightarrow> Inl (e, Some n)
                | Inr c \<Rightarrow> Inr c)))"

section \<open>One request\<close>

definition request_payload :: "string \<Rightarrow> uint16 \<Rightarrow> bytes \<Rightarrow> bytes" where
  \<comment> \<open>\<^verbatim>\<open>hostLen(2) | host | port(2) | rawHTTPRequest\<close>\<close>
  "request_payload host port reqData =
     (let p0 = replicate (2 + length host + 2 + length reqData) 0;
          p1 = copy_at 0 p0 (put16 (of_nat (length host)));
          p2 = copy_at 2 p1 (bytes_of host);
          p3 = copy_at (2 + length host) p2 (put16 port)
      in copy_at (4 + length host) p3 reqData)"

fun response_loop ::
  "'n transport \<Rightarrow> block_cipher \<Rightarrow> bytes list \<Rightarrow> (nat \<Rightarrow> bool) \<Rightarrow> nat \<Rightarrow> bytes \<Rightarrow> 'n \<Rightarrow>
   (bytes \<times> client_error option) \<times> 'n" where
  \<comment> \<open>the fuel is the number of cells that can arrive before the 60-second read deadline: when it
      is used up the deadline fires, which the source treats as the end of the response;
      \<open>ctx i\<close> says whether the context is done at iteration \<open>i\<close>\<close>
  "response_loop tr aes keys ctx 0 response conn = ((response, None), conn)"
| "response_loop tr aes keys ctx (Suc n) response conn =
     (if ctx 0 then ((response, Some CtxDone), conn)
      else (case tr_recv tr conn of
              (Inl e, conn') \<Rightarrow> ((response, None), conn')
            | (Inr c, conn') \<Rightarrow>
                if Command c \<noteq> CmdRelay \<and> Command c \<noteq> CmdRelayDone
                then response_loop tr aes keys (\<lambda>i. ctx (Suc i)) n response conn'
                else (case peel_layers (Decrypt aes) keys (cell_data c) of
                        Inl e \<Rightarrow> ((response, Some (DecryptFailed e)), conn')
                      | Inr data \<Rightarrow>
                          if Command c = CmdRelayDone then ((response, None), conn')
                          else response_loop tr aes keys (\<lambda>i. ctx (Suc i)) n (response @ data) conn')))"

definition sendRequest ::
  "'n transport \<Rightarrow> block_cipher \<Rightarrow> (nat \<Rightarrow> nat \<Rightarrow> byte) \<Rightarrow> (nat \<Rightarrow> bool) \<Rightarrow> nat \<Rightarrow> string \<Rightarrow> uint16 \<Rightarrow> bytes \<Rightarrow>
   'n ClientCircuit \<Rightarrow> (bytes \<times> client_error option) \<times> 'n ClientCircuit" where
  "sendRequest tr aes rnds ctx deadline host port reqData circ =
     (case wrap_layers (Encrypt aes) rnds (cl_Keys circ) (request_payload host port reqData) of
        Inl e \<Rightarrow> (([], Some (EncryptFailed e)), circ)
      | Inr wrapped \<Rightarrow>
          if length wrapped > CellBodyMax then (([], Some (RequestTooLarge (length wrapped))), circ)
          else let circ1 = writeCell tr (mkCell (cl_CircID circ) CmdRelay (length wrapped) wrapped) circ;
                   (res, conn') = response_loop tr aes (cl_Keys circ) ctx deadline [] (cl_Conn circ1)
               in (res, circ1\<lparr>cl_Conn := conn'\<rparr>))"

section \<open>Payload layouts\<close>

lemma extend_payload_eq:
  assumes "length pub = 32"
  shows "extend_payload addr pub = of_nat (length addr) # bytes_of addr @ pub"
proof -
  have 0: "(replicate (1 + length addr + 32) 0)[0 := of_nat (length addr)] =
      [of_nat (length addr)] @ replicate (length addr + 32) (0 :: byte)"
  proof -
    have "1 + length addr + 32 = Suc (length addr + 32)" by simp
    then show ?thesis by (simp only: replicate_Suc list_update.simps append.simps nat.case)
  qed
  have 1: "copy_at 1 ([of_nat (length addr)] @ replicate (length addr + 32) (0 :: byte)) (bytes_of addr) =
      (of_nat (length addr) # bytes_of addr) @ replicate 32 0"
    by (subst copy_at_append) simp_all
  have 2: "copy_at (1 + length addr) ((of_nat (length addr) # bytes_of addr) @ replicate 32 0) pub =
      of_nat (length addr) # bytes_of addr @ pub"
    using assms by (subst copy_at_append) simp_all
  show ?thesis by (simp only: extend_payload_def Let_def 0 1 2)
qed

lemma request_payload_eq:
  "request_payload host port reqData =
     put16 (of_nat (length host)) @ bytes_of host @ put16 port @ reqData"
proof -
  let ?n = "length host" and ?m = "length reqData"
  have 1: "copy_at 0 (replicate (2 + ?n + 2 + ?m) 0) (put16 (of_nat ?n)) =
      put16 (of_nat ?n) @ replicate (?n + 2 + ?m) 0"
    using copy_at_append [of 0 "[]" "put16 (of_nat ?n)" "replicate (2 + ?n + 2 + ?m) 0"] by simp
  have 2: "copy_at 2 (put16 (of_nat ?n) @ replicate (?n + 2 + ?m) 0) (bytes_of host) =
      (put16 (of_nat ?n) @ bytes_of host) @ replicate (2 + ?m) 0"
    by (subst copy_at_append) (simp_all only: length_put16 length_bytes_of length_replicate drop_replicate
        append_assoc, simp_all)
  have 3: "copy_at (2 + ?n) ((put16 (of_nat ?n) @ bytes_of host) @ replicate (2 + ?m) 0) (put16 port) =
      (put16 (of_nat ?n) @ bytes_of host @ put16 port) @ replicate ?m 0"
    by (subst copy_at_append) simp_all
  have 4: "copy_at (4 + ?n) ((put16 (of_nat ?n) @ bytes_of host @ put16 port) @ replicate ?m 0) reqData =
      put16 (of_nat ?n) @ bytes_of host @ put16 port @ reqData"
    by (subst copy_at_append) simp_all
  show ?thesis by (simp only: request_payload_def Let_def 1 2 3 4)
qed

lemma length_request_payload [simp]:
  "length (request_payload host port reqData) = 4 + length host + length reqData"
  by (simp add: request_payload_eq)

section \<open>Selection\<close>

lemma pickRelay_Some:
  "pickRelay b relays role = Some r \<Longrightarrow> r \<in> set relays \<and> rd_Role r = role"
proof -
  assume a: "pickRelay b relays role = Some r"
  let ?pool = "filter (\<lambda>r. rd_Role r = role) relays"
  from a have "?pool \<noteq> []" "r = ?pool ! (unat b mod length ?pool)"
    by (auto simp: pickRelay_def Let_def split: if_splits)
  then have "r \<in> set ?pool" by (metis length_greater_0_conv mod_less_divisor nth_mem)
  then show ?thesis by simp
qed

lemma pickRelay_None: "pickRelay b relays role = None \<longleftrightarrow> (\<forall>r \<in> set relays. rd_Role r \<noteq> role)"
  by (auto simp: pickRelay_def Let_def filter_empty_conv)

lemma find_guard:
  "r \<in> set relays \<Longrightarrow> P r \<Longrightarrow> \<exists>x. List.find P relays = Some x \<and> P x"
  by (metis (no_types, lifting) find_None_iff find_Some_iff not_Some_eq)

text \<open>
  The guard is an entry relay of the consensus, and it stays pinned: once loadOrPickGuard has
  returned a guard and its file could be written, every later call returns the relay with the
  same id for as long as the consensus lists it as an entry, whatever the random byte, and does not
  touch the file.
\<close>

theorem guard_stays_pinned:
  assumes codec: "\<forall>st. gs_RelayID (unmarshal (marshal st)) = gs_RelayID st"
    and first: "loadOrPickGuard unmarshal marshal False b now relays guardFile fs = (Some g, fs')"
    and listed: "g' \<in> set relays'" "rd_ID g' = rd_ID g" "rd_Role g' = ''entry''"
  shows "g \<in> set relays \<and> rd_Role g = ''entry'' \<and>
     (\<exists>r. loadOrPickGuard unmarshal marshal wfail b' now' relays' guardFile fs' = (Some r, fs') \<and>
        rd_ID r = rd_ID g \<and> rd_Role r = ''entry'')"
proof -
  let ?pinned = "\<lambda>st rs. List.find (\<lambda>r. rd_ID r = gs_RelayID st \<and> rd_Role r = ''entry'') rs"
  have saved: "\<exists>data. fs' guardFile = Some data \<and> gs_RelayID (unmarshal data) = rd_ID g \<and>
      g \<in> set relays \<and> rd_Role g = ''entry''"
  proof (cases "case fs guardFile of None \<Rightarrow> None | Some data \<Rightarrow> ?pinned (unmarshal data) relays")
    case None
    with first have "pickRelay b relays ''entry'' = Some g"
      "fs' = fs(guardFile \<mapsto> marshal \<lparr>gs_RelayID = rd_ID g, gs_PinnedAt = now\<rparr>)"
      by (auto simp: loadOrPickGuard_def Let_def split: option.splits)
    with codec pickRelay_Some show ?thesis by fastforce
  next
    case (Some r)
    then obtain data where d: "fs guardFile = Some data" "?pinned (unmarshal data) relays = Some r"
      by (auto split: option.splits)
    with Some first have "r = g" "fs' = fs" by (auto simp: loadOrPickGuard_def Let_def)
    with d show ?thesis by (auto simp: find_Some_iff)
  qed
  then obtain data where d: "fs' guardFile = Some data" "gs_RelayID (unmarshal data) = rd_ID g" by blast
  obtain r where "?pinned (unmarshal data) relays' = Some r" "rd_ID r = rd_ID g" "rd_Role r = ''entry''"
    using find_guard [OF listed(1), of "\<lambda>r. rd_ID r = rd_ID g \<and> rd_Role r = ''entry''"] listed d(2) by auto
  with d have "loadOrPickGuard unmarshal marshal wfail b' now' relays' guardFile fs' = (Some r, fs')"
    by (simp add: loadOrPickGuard_def Let_def)
  with saved \<open>rd_ID r = rd_ID g\<close> \<open>rd_Role r = ''entry''\<close> show ?thesis by blast
qed

definition sample_entry :: RelayDescriptor where
  "sample_entry = \<lparr>rd_ID = ''e1'', rd_IP = ''10.0.0.9'', rd_Port = 9001, rd_Role = ''entry'', rd_PublicKey = ''ab'',
     rd_Country = ''de'', rd_Region = ''eu'', rd_OperMode = ''normal'', rd_Bandwidth = 100,
     rd_Version = ''1.0.0'', rd_LastSeen = 0\<rparr>"

theorem guard_stays_pinned_witness:
  "\<exists>g fs' r. loadOrPickGuard (\<lambda>d. \<lparr>gs_RelayID = string_of d, gs_PinnedAt = 0\<rparr>) (\<lambda>st. bytes_of (gs_RelayID st))
       False 3 0 [sample_entry] ''guard.json'' Map.empty = (Some g, fs') \<and>
     loadOrPickGuard (\<lambda>d. \<lparr>gs_RelayID = string_of d, gs_PinnedAt = 0\<rparr>) (\<lambda>st. bytes_of (gs_RelayID st))
       True 9 7 [sample_entry\<lparr>rd_ID := ''e0''\<rparr>, sample_entry] ''guard.json'' fs' = (Some r, fs') \<and> rd_ID r = rd_ID g"
proof -
  let ?un = "\<lambda>d. \<lparr>gs_RelayID = string_of d, gs_PinnedAt = 0\<rparr>" and ?ma = "\<lambda>st. bytes_of (gs_RelayID st)"
  have codec: "\<forall>st. gs_RelayID (?un (?ma st)) = gs_RelayID st" by simp
  obtain g fs' where f: "loadOrPickGuard ?un ?ma False 3 0 [sample_entry] ''guard.json'' Map.empty = (Some g, fs')"
    and g: "g = sample_entry"
    by (simp add: loadOrPickGuard_def pickRelay_def sample_entry_def)
  have "sample_entry \<in> set [sample_entry\<lparr>rd_ID := ''e0''\<rparr>, sample_entry]" "rd_ID sample_entry = rd_ID g"
    "rd_Role sample_entry = ''entry''"
    by (simp_all add: g sample_entry_def)
  from guard_stays_pinned [OF codec f this, of True 9 7] f show ?thesis by blast
qed

section \<open>Requests\<close>

text \<open>
  A request is sent in a single relay cell or not at all. On a circuit with three 32-byte keys
  it is refused with an error, before anything is written, exactly when host and request together
  have more than 417 bytes; otherwise one relay cell goes out, and peeling it with the entry, middle
  and exit keys yields host length, host, port and request. A circuit with a missing key
  refuses every request.
\<close>

theorem request_one_cell_or_refused:
  assumes "length keys = 3" "cl_Keys circ = keys"
  shows "((\<exists>k \<in> set keys. length k \<noteq> 32) \<longrightarrow>
       (\<exists>e. sendRequest tr aes rnds ctx n host port reqData circ = (([], Some (EncryptFailed e)), circ))) \<and>
     ((\<forall>k \<in> set keys. length k = 32) \<and> length host + length reqData > 417 \<longrightarrow>
       sendRequest tr aes rnds ctx n host port reqData circ =
         (([], Some (RequestTooLarge (88 + length host + length reqData))), circ)) \<and>
     ((\<forall>k \<in> set keys. length k = 32) \<and> length host + length reqData \<le> 417 \<longrightarrow>
       (\<exists>w. peel_layers (Decrypt aes) keys w = Inr (put16 (of_nat (length host)) @ bytes_of host @ put16 port @ reqData) \<and>
          sendRequest tr aes rnds ctx n host port reqData circ =
            (let (res, conn') = response_loop tr aes keys ctx n []
                   (tr_send tr (mkCell (cl_CircID circ) CmdRelay (length w) w) (cl_Conn circ))
             in (res, circ\<lparr>cl_Conn := conn'\<rparr>))))"
proof (cases "\<forall>k \<in> set keys. length k = 32")
  case False
  then obtain k where "k \<in> set keys" "length k \<noteq> 32" by blast
  then obtain e where "wrap_layers (Encrypt aes) rnds keys (request_payload host port reqData) = Inl e"
    using gcm.wrap_bad_key by metis
  with False assms(2) show ?thesis by (auto simp: sendRequest_def)
next
  case True
  then obtain w where w: "wrap_layers (Encrypt aes) rnds keys (request_payload host port reqData) = Inr w"
    using gcm.wrap_defined [of keys aes rnds "request_payload host port reqData"] by (auto simp: list_all_iff)
  have "length w = 88 + length host + length reqData" using gcm.wrap_length [OF w] assms(1) by simp
  moreover have "peel_layers (Decrypt aes) keys w = Inr (put16 (of_nat (length host)) @ bytes_of host @ put16 port @ reqData)"
    using gcm.peel_wrap [OF w] by (simp add: request_payload_eq)
  ultimately show ?thesis using True w assms(2) by (auto simp: sendRequest_def writeCell_def Let_def split_beta)
qed

theorem request_one_cell_or_refused_witness:
  "fst (sendRequest \<lparr>tr_send = (\<lambda>c n. n), tr_recv = (\<lambda>n. (Inl ReadEOF, n)), tr_close = (\<lambda>n. n)\<rparr>
     (\<lambda>k b. b) (\<lambda>_ _. 0) (\<lambda>_. False) 9 ''host'' 80 (replicate 414 65)
     \<lparr>cl_CircID = 1, cl_Conn = (), cl_Keys = replicate 3 (replicate 32 0), cl_built = 0\<rparr>) =
   ([], Some (RequestTooLarge 506))"
  using request_one_cell_or_refused [of "replicate 3 (replicate 32 0)"
      "\<lparr>cl_CircID = 1, cl_Conn = (), cl_Keys = replicate 3 (replicate 32 0), cl_built = 0\<rparr>"
      "\<lparr>tr_send = (\<lambda>c n. n), tr_recv = (\<lambda>n. (Inl ReadEOF, n)), tr_close = (\<lambda>n. n)\<rparr>" "\<lambda>k b. b" "\<lambda>_ _. 0"
      "\<lambda>_. False" 9 "''host''" 80 "replicate 414 65"]
  by simp

end
