(* ===== verification/Network.thy ===== *)
theory Network
  imports Relay Client_Circuit
begin

text \<open>
  Client and relays put together. A network is a chain of relays, each running the handlers of
  theory \<open>Relay\<close>; \<open>deliver\<close> hands a cell to the first relay and follows what it causes: the cells
  it sends to its next hop are delivered there, the answers come back through \<^verbatim>\<open>forwardCells\<close>,
  and exit requests run \<^verbatim>\<open>handleExitRelay\<close>. All cells travel as bytes: they are marshalled, and read
  again with \<^verbatim>\<open>ReadCell\<close>. With the chain as the transport of the client, the theorems here are
  end-to-end statements about circuit building and about a request and its response.
\<close>

section \<open>A chain of relays\<close>

text \<open>Every relay has its upstream peer on connection 0 and dials its next hop as connection 2.\<close>

record hop =
  hop_addr :: string
  hop_srv :: relayServer
  hop_env :: relay_env
  hop_exit :: exit_env
  hop_nonces :: "nat \<Rightarrow> nat \<Rightarrow> byte"
  hop_now :: int
  hop_pad :: "byte \<times> (nat \<Rightarrow> byte)"
  hop_pre :: "byte \<times> (nat \<Rightarrow> byte)"

fun sent_to :: "conn_id \<Rightarrow> relay_event list \<Rightarrow> Cell list" where
  "sent_to k [] = []"
| "sent_to k (SendCell k' c # evs) = (if k' = k then c # sent_to k evs else sent_to k evs)"
| "sent_to k (_ # evs) = sent_to k evs"

definition marshal_all :: "byte \<times> (nat \<Rightarrow> byte) \<Rightarrow> Cell list \<Rightarrow> bytes" where
  "marshal_all pad cs = concat (map (MarshalCell (fst pad) (snd pad)) cs)"

definition over_wire :: "byte \<times> (nat \<Rightarrow> byte) \<Rightarrow> Cell list \<Rightarrow> Cell list" where
  "over_wire pad cs = fst (read_cells (Suc (length cs)) tcp_readFull (marshal_all pad cs))"

fun deliver_seq :: "('h \<Rightarrow> Cell \<Rightarrow> Cell list \<times> 'h) \<Rightarrow> 'h \<Rightarrow> Cell list \<Rightarrow> Cell list \<times> 'h" where
  "deliver_seq f h [] = ([], h)"
| "deliver_seq f h (c # cs) = (let (b, h1) = f h c; (bs, h2) = deliver_seq f h1 cs in (b @ bs, h2))"

fun exit_events :: "hop \<Rightarrow> relay_event list \<Rightarrow> relay_event list" where
  "exit_events h [] = []"
| "exit_events h (SpawnExit circ p # evs) =
     handleExitRelay (hop_exit h) (rs_cfg (hop_srv h)) circ p @ exit_events h evs"
| "exit_events h (_ # evs) = exit_events h evs"

definition dial_next :: "hop \<Rightarrow> hop list \<Rightarrow> bytes \<Rightarrow> string \<Rightarrow> (conn_id \<times> conn) option" where
  \<comment> \<open>the next hop answers a dial to its address with its preamble and then \<open>stream\<close>\<close>
  "dial_next h hs stream a =
     (case hs of [] \<Rightarrow> None
      | g # _ \<Rightarrow> if a = hop_addr g
          then Some (2, \<lparr>inbox = obfs_preamble (fst (hop_pre g)) (snd (hop_pre g)) @ stream, outbox = []\<rparr>)
          else None)"

definition run_hop :: "hop \<Rightarrow> hop list \<Rightarrow> Cell \<Rightarrow> bytes \<Rightarrow> relay_result" where
  "run_hop h hs c stream =
     handleCell ((hop_env h)\<lparr>re_dial := dial_next h hs stream\<rparr>) (hop_now h) c 0 (hop_srv h)"

definition linked :: "hop \<Rightarrow> uint32 \<Rightarrow> bool" where
  "linked h cid = (case rs_circuits (hop_srv h) cid of None \<Rightarrow> False | Some circ \<Rightarrow> circ_OutConn circ \<noteq> None)"

definition backward :: "hop \<Rightarrow> relayServer \<Rightarrow> uint32 \<Rightarrow> Cell list \<Rightarrow> relay_event list" where
  \<comment> \<open>\<^verbatim>\<open>forwardCells\<close> of the circuit on the cells that come back; on a circuit that has just been
      extended the first one was read by the handler\<close>
  "backward h s' cid back =
     (case rs_circuits s' cid of
        None \<Rightarrow> []
      | Some circ \<Rightarrow>
          if circ_OutConn circ = None then []
          else forward_loop (re_aes (hop_env h)) (hop_nonces h) circ (if linked h cid then back else tl back))"

text \<open>
  What a relay reads from a connection it has just dialled depends on what it writes to it. So the
  handler is run a first time against a silent peer to see what it sends, that is delivered to the
  next hop, and the run that counts has the answer in its inbox.
\<close>

fun deliver :: "nat \<Rightarrow> hop list \<Rightarrow> Cell \<Rightarrow> Cell list \<times> hop list" where
  "deliver (Suc n) (h # hs) c =
     (case run_hop h hs c [] of
        Some (Inr (evs0, s0)) \<Rightarrow>
          let (back, hs') = deliver_seq (deliver n) hs (over_wire (hop_pad h) (sent_to 2 evs0)) in
          (case run_hop h hs c (marshal_all (hop_pad h) back) of
             Some (Inr (evs, s')) \<Rightarrow>
               (over_wire (hop_pad h) (sent_to 0 (evs @ backward h s' (CircID c) back @ exit_events h evs)),
                h\<lparr>hop_srv := s'\<rparr> # hs')
           | _ \<Rightarrow> ([], h # hs'))
      | _ \<Rightarrow> ([], h # hs))"
| "deliver _ hs c = ([], hs)"

type_synonym net = "hop list \<times> Cell list"

definition net_send :: "Cell \<Rightarrow> net \<Rightarrow> net" where
  "net_send c = (\<lambda>(hs, q). let (up, hs') = deliver (length hs) hs c in (hs', q @ up))"

definition net_recv :: "net \<Rightarrow> (cell_error + Cell) \<times> net" where
  "net_recv = (\<lambda>(hs, q). case q of [] \<Rightarrow> (Inl ReadFailed, (hs, [])) | c # q' \<Rightarrow> (Inr c, (hs, q')))"

definition net_transport :: "net transport" where
  "net_transport = \<lparr>tr_send = net_send, tr_recv = net_recv, tr_close = (\<lambda>n. n)\<rparr>"

section \<open>The wire between hops\<close>

lemma over_wire_canon:
  assumes "\<forall>c \<in> set cs. length (Body c) = CellBodyMax"
  shows "over_wire pad cs = map canon_cell cs"
proof -
  have "\<exists>e s'. read_cells (Suc (length cs)) tcp_readFull (marshal_all pad cs) = (map canon_cell cs, Some e, s')"
    using tcp.read_cells_all [of "map (\<lambda>c. (fst pad, snd pad, c)) cs" "marshal_all pad cs" "Suc (length cs)"] assms
    by (simp add: marshal_all_def comp_def)
  then show ?thesis by (auto simp: over_wire_def)
qed

lemma over_wire_Nil [simp]: "over_wire pad [] = []"
  by (simp add: over_wire_canon)

lemma over_wire_mkCell [simp]:
  "n = length src \<Longrightarrow> length src \<le> CellBodyMax \<Longrightarrow> over_wire pad [mkCell cid cmd n src] = [mkCell cid cmd n src]"
  by (simp add: over_wire_canon)

lemma canon_mkCell_length [simp]:
  "n = length src \<Longrightarrow> length src \<le> CellBodyMax \<Longrightarrow> canon_cell (mkCell cid cmd n src) = mkCell cid cmd n src"
  by simp

lemma sent_to_append [simp]: "sent_to k (xs @ ys) = sent_to k xs @ sent_to k ys"
  by (induction k xs rule: sent_to.induct) simp_all

lemma sent_to_map [simp]: "sent_to k (map (SendCell k) cs) = cs"
  by (induction cs) simp_all

lemma deliver_seq_single [simp]: "deliver_seq f h [c] = f h c"
  by (simp add: split_beta)

lemma exit_events_append [simp]: "exit_events h (xs @ ys) = exit_events h xs @ exit_events h ys"
  by (induction h xs rule: exit_events.induct) simp_all

definition honest_hop :: "scalar_mult \<Rightarrow> block_cipher \<Rightarrow> hop \<Rightarrow> bool" where
  \<comment> \<open>runs the code with the same primitives as the client, and its handshakes stay in step\<close>
  "honest_hop sm aes h \<longleftrightarrow>
     re_sm (hop_env h) = sm \<and> re_aes (hop_env h) = aes \<and> ee_aes (hop_exit h) = aes \<and>
     unat (fst (hop_pre h)) < 224 \<and>
     re_obfs (hop_env h) = basicObfsHandshake False (fst (hop_pre h)) (snd (hop_pre h))"

definition circ_at :: "hop \<Rightarrow> uint32 \<Rightarrow> conn_id option \<Rightarrow> bytes \<Rightarrow> bool" where
  "circ_at h cid out k \<longleftrightarrow>
     rs_circuits (hop_srv h) cid = Some \<lparr>circ_ID = cid, circ_InConn = 0, circ_OutConn = out, circ_Key = k\<rparr>"

lemma obfs_in_step:
  "unat nb < 224 \<Longrightarrow>
   \<exists>out. basicObfsHandshake False b rnd \<lparr>inbox = obfs_preamble nb rnd' @ stream, outbox = o'\<rparr> =
     (None, \<lparr>inbox = stream, outbox = out\<rparr>)"
  by (simp add: basicObfsHandshake_def writeObfsPreamble_def conn_write_def readObfsPreamble_def
      skip_preamble_in_sync)

section \<open>One relay at a time\<close>

definition same_node :: "hop \<Rightarrow> hop \<Rightarrow> bool" where
  \<comment> \<open>only the circuit state may differ\<close>
  "same_node h h' \<longleftrightarrow>
     hop_addr h' = hop_addr h \<and> hop_env h' = hop_env h \<and> hop_exit h' = hop_exit h \<and>
     hop_nonces h' = hop_nonces h \<and> hop_now h' = hop_now h \<and> hop_pad h' = hop_pad h \<and> hop_pre h' = hop_pre h \<and>
     rs_cfg (hop_srv h') = rs_cfg (hop_srv h)"

definition hop_priv :: "hop \<Rightarrow> bytes" where
  "hop_priv h = rand_bytes (re_rnd (hop_env h)) 32"

lemma same_node_sel:
  assumes "same_node h h'"
  shows "hop_addr h' = hop_addr h" "hop_env h' = hop_env h" "hop_exit h' = hop_exit h" "hop_nonces h' = hop_nonces h"
    "hop_pad h' = hop_pad h" "hop_pre h' = hop_pre h" "rs_cfg (hop_srv h') = rs_cfg (hop_srv h)"
    "hop_priv h' = hop_priv h" "honest_hop sm aes h' = honest_hop sm aes h"
  using assms by (simp_all add: same_node_def hop_priv_def honest_hop_def)

lemma same_node_trans: "same_node h h' \<Longrightarrow> same_node h' h'' \<Longrightarrow> same_node h h''"
  by (simp add: same_node_def)

lemma deliver_hop:
  assumes "run_hop h hs c [] = Some (Inr (evs0, s0))"
    and "deliver_seq (deliver n) hs (over_wire (hop_pad h) (sent_to 2 evs0)) = (back, hs')"
    and "run_hop h hs c (marshal_all (hop_pad h) back) = Some (Inr (evs, s'))"
    and "over_wire (hop_pad h) (sent_to 0 (evs @ backward h s' (CircID c) back @ exit_events h evs)) = up"
  shows "deliver (Suc n) (h # hs) c = (up, h\<lparr>hop_srv := s'\<rparr> # hs')"
  using assms by simp

declare deliver.simps [simp del]

lemma deliver_create:
  assumes "honest_hop sm aes h" "x25519_ok sm" "length pub = 32"
  obtains h' where
    "deliver (Suc n) (h # hs) (mkCell cid CmdCreate 32 pub) =
       ([mkCell cid CmdCreated 32 (ScalarBaseMult sm (hop_priv h))], h' # hs)"
    "same_node h h'" "circ_at h' cid None (DeriveKey sm (hop_priv h) pub)"
proof -
  let ?c = "mkCell cid CmdCreate 32 pub"
  let ?circ = "\<lparr>circ_ID = cid, circ_InConn = 0, circ_OutConn = None, circ_Key = DeriveKey sm (hop_priv h) pub\<rparr>"
  let ?s' = "(hop_srv h)\<lparr>rs_timeout := Touch (hop_now h) cid (rs_timeout (hop_srv h)),
       rs_circuits := (rs_circuits (hop_srv h))(cid \<mapsto> ?circ)\<rparr>"
  let ?reply = "mkCell cid CmdCreated 32 (ScalarBaseMult sm (hop_priv h))"
  have len: "length (ScalarBaseMult sm k) = 32" for k
    using assms(2) by (simp add: x25519_ok_def ScalarBaseMult_def)
  have run: "run_hop h hs ?c stream = Some (Inr ([SendCell 0 ?reply], ?s'))" for stream
    using create_effect [of ?c "(hop_env h)\<lparr>re_dial := dial_next h hs stream\<rparr>" "hop_now h" 0 "hop_srv h"] assms
    by (simp add: run_hop_def Let_def honest_hop_def hop_priv_def)
  have "deliver (Suc n) (h # hs) ?c = ([?reply], h\<lparr>hop_srv := ?s'\<rparr> # hs)"
    by (rule deliver_hop [OF run _ run]) (simp_all add: backward_def len)
  then show ?thesis
    using that [of "h\<lparr>hop_srv := ?s'\<rparr>"] by (simp add: same_node_def circ_at_def)
qed

lemma extend_run:
  assumes "circ_at h cid None k" "Decrypt (re_aes (hop_env h)) k w = Inr (extend_payload addr pub)"
    and "length w \<le> CellBodyMax" "length pub = 32" "length addr < 256" "addr \<noteq> []"
    and "re_obfs (hop_env h) = basicObfsHandshake False nb nr" "unat (fst (hop_pre g)) < 224" "addr = hop_addr g"
  shows "run_hop h (g # hs) (mkCell cid CmdExtend (length w) w) stream =
    (let s = (hop_srv h)\<lparr>rs_timeout := Touch (hop_now h) cid (rs_timeout (hop_srv h))\<rparr>;
         create = SendCell 2 (mkCell cid CmdCreate 32 pub);
         circ' = \<lparr>circ_ID = cid, circ_InConn = 0, circ_OutConn = Some 2, circ_Key = k\<rparr>
     in case fst (ReadCell tcp_readFull stream) of
          Inl e \<Rightarrow> Some (Inr ([create, CloseConn 2], s))
        | Inr created \<Rightarrow>
            if Command created \<noteq> CmdCreated then Some (Inr ([create, CloseConn 2], s))
            else Some (Inr ([create, SpawnForward circ',
                   SendCell 0 (mkCell cid CmdExtended 32 (take 32 (Body created)))],
                 s\<lparr>rs_circuits := (rs_circuits s)(cid \<mapsto> circ')\<rparr>)))"
proof -
  let ?p = "extend_payload addr pub"
  have p: "?p = of_nat (length addr) # bytes_of addr @ pub" using assms(4) by (rule extend_payload_eq)
  have al: "unat (?p ! 0) = length addr" using assms(5) by (simp add: p unat_of_nat8)
  have lp: "length ?p = 33 + length addr" using assms(4) by (simp add: p)
  have sl: "slice 1 (1 + length addr) ?p = bytes_of addr"
    using slice_exact [of "[of_nat (length addr)]" 1 "bytes_of addr" "1 + length addr" pub] by (simp add: p)
  have sp: "slice (1 + length addr) (1 + length addr + 32) ?p = pub"
    using slice_exact [of "of_nat (length addr) # bytes_of addr" "1 + length addr" pub "1 + length addr + 32" "[]"]
      assms(4) by (simp add: p)
  obtain out where ob: "re_obfs (hop_env h) \<lparr>inbox = obfs_preamble (fst (hop_pre g)) (snd (hop_pre g)) @ stream, outbox = []\<rparr> =
      (None, \<lparr>inbox = stream, outbox = out\<rparr>)"
    using obfs_in_step [OF assms(8)] assms(7) by metis
  have dial: "dial_next h (g # hs) stream addr =
      Some (2, \<lparr>inbox = obfs_preamble (fst (hop_pre g)) (snd (hop_pre g)) @ stream, outbox = []\<rparr>)"
    using assms(9) by (simp add: dial_next_def)
  let ?env = "(hop_env h)\<lparr>re_dial := dial_next h (g # hs) stream\<rparr>"
  let ?circ = "\<lparr>circ_ID = cid, circ_InConn = 0, circ_OutConn = None, circ_Key = k\<rparr>"
  let ?s = "(hop_srv h)\<lparr>rs_timeout := Touch (hop_now h) cid (rs_timeout (hop_srv h))\<rparr>"
  have "0 < length addr" using assms(6) by simp
  then have big: "\<not> length ?p < 34" "\<not> length ?p < 1 + length addr + 32" using lp by linarith+
  have ext: "extend_next ?env cid ?circ 0 ?p ?s =
     (case fst (ReadCell tcp_readFull stream) of
        Inl e \<Rightarrow> ([SendCell 2 (mkCell cid CmdCreate 32 pub), CloseConn 2], ?s)
      | Inr created \<Rightarrow>
          if Command created \<noteq> CmdCreated then ([SendCell 2 (mkCell cid CmdCreate 32 pub), CloseConn 2], ?s)
          else ([SendCell 2 (mkCell cid CmdCreate 32 pub), SpawnForward (?circ\<lparr>circ_OutConn := Some 2\<rparr>),
                 SendCell 0 (mkCell cid CmdExtended 32 (take 32 (Body created)))],
                ?s\<lparr>rs_circuits := (rs_circuits ?s)(cid \<mapsto> ?circ\<lparr>circ_OutConn := Some 2\<rparr>)\<rparr>))"
    unfolding extend_next_def Let_def al sl sp using big by (simp add: dial ob)
  have wf: "wf_cell (mkCell cid CmdExtend (length w) w)" using assms(3) by (simp add: wf_mkCell)
  have "run_hop h (g # hs) (mkCell cid CmdExtend (length w) w) stream = Some (Inr (extend_next ?env cid ?circ 0 ?p ?s))"
    using assms(1-3) wf by (simp add: run_hop_def relay_cmds handleExtend_def circ_at_def)
  then show ?thesis unfolding ext Let_def by (auto split: sum.split)
qed

lemma deliver_extend_here:
  assumes h: "honest_hop sm aes h" "circ_at h cid None k" "Decrypt aes k w = Inr (extend_payload (hop_addr g) pub)"
    and sz: "length w \<le> CellBodyMax" "length pub = 32" "length (hop_addr g) < 256" "hop_addr g \<noteq> []"
    and g: "honest_hop sm aes g" "x25519_ok sm"
  obtains h' g' where
    "deliver (Suc (Suc n)) (h # g # hs) (mkCell cid CmdExtend (length w) w) =
       ([mkCell cid CmdExtended 32 (ScalarBaseMult sm (hop_priv g))], h' # g' # hs)"
    "same_node h h'" "same_node g g'" "circ_at h' cid (Some 2) k" "circ_at g' cid None (DeriveKey sm (hop_priv g) pub)"
proof -
  let ?c = "mkCell cid CmdExtend (length w) w"
  let ?s = "(hop_srv h)\<lparr>rs_timeout := Touch (hop_now h) cid (rs_timeout (hop_srv h))\<rparr>"
  let ?circ = "\<lparr>circ_ID = cid, circ_InConn = 0, circ_OutConn = Some 2, circ_Key = k\<rparr>"
  let ?s' = "?s\<lparr>rs_circuits := (rs_circuits ?s)(cid \<mapsto> ?circ)\<rparr>"
  let ?created = "mkCell cid CmdCreated 32 (ScalarBaseMult sm (hop_priv g))"
  have len: "length (ScalarBaseMult sm x) = 32" for x
    using g(2) by (simp add: x25519_ok_def ScalarBaseMult_def)
  have run: "run_hop h (g # hs) ?c stream =
    (case fst (ReadCell tcp_readFull stream) of
          Inl e \<Rightarrow> Some (Inr ([SendCell 2 (mkCell cid CmdCreate 32 pub), CloseConn 2], ?s))
        | Inr created \<Rightarrow>
            if Command created \<noteq> CmdCreated then Some (Inr ([SendCell 2 (mkCell cid CmdCreate 32 pub), CloseConn 2], ?s))
            else Some (Inr ([SendCell 2 (mkCell cid CmdCreate 32 pub), SpawnForward ?circ,
                   SendCell 0 (mkCell cid CmdExtended 32 (take 32 (Body created)))], ?s')))" for stream
    using extend_run [OF h(2) _ sz(1,2,3,4), where g = g and nb = "fst (hop_pre h)" and nr = "snd (hop_pre h)"] h(1,3) g(1)
    by (simp add: honest_hop_def Let_def)
  obtain g' where g': "deliver (Suc n) (g # hs) (mkCell cid CmdCreate 32 pub) = ([?created], g' # hs)"
    "same_node g g'" "circ_at g' cid None (DeriveKey sm (hop_priv g) pub)"
    by (rule deliver_create [OF g sz(2)])
  have silent: "run_hop h (g # hs) ?c [] = Some (Inr ([SendCell 2 (mkCell cid CmdCreate 32 pub), CloseConn 2], ?s))"
    by (simp add: run ReadCell_def tcp_readFull_def)
  have "fst (ReadCell tcp_readFull (marshal_all (hop_pad h) [?created])) = Inr ?created"
    using tcp.ReadCell_MarshalCell [where c = ?created and s = "marshal_all (hop_pad h) [?created]" and rest = "[]"
        and r = "fst (hop_pad h)" and rnd = "snd (hop_pad h)"] len
    by (auto simp: marshal_all_def)
  then have answered: "run_hop h (g # hs) ?c (marshal_all (hop_pad h) [?created]) =
      Some (Inr ([SendCell 2 (mkCell cid CmdCreate 32 pub), SpawnForward ?circ,
          SendCell 0 (mkCell cid CmdExtended 32 (ScalarBaseMult sm (hop_priv g)))], ?s'))"
    using len by (simp add: run)
  have nl: "\<not> linked h cid" using h(2) by (simp add: linked_def circ_at_def)
  have "deliver (Suc (Suc n)) (h # g # hs) ?c =
       ([mkCell cid CmdExtended 32 (ScalarBaseMult sm (hop_priv g))], h\<lparr>hop_srv := ?s'\<rparr> # g' # hs)"
    by (rule deliver_hop [OF silent _ answered]) (simp_all add: g'(1) backward_def nl len sz(2))
  then show ?thesis
    using that [of "h\<lparr>hop_srv := ?s'\<rparr>" g'] g'(2,3) by (simp add: same_node_def circ_at_def)
qed

lemma touch_node:
  "circ_at h cid out k \<Longrightarrow>
   same_node h (h\<lparr>hop_srv := (hop_srv h)\<lparr>rs_timeout := t\<rparr>\<rparr>) \<and> circ_at (h\<lparr>hop_srv := (hop_srv h)\<lparr>rs_timeout := t\<rparr>\<rparr>) cid out k"
  by (simp add: same_node_def circ_at_def)

lemma deliver_extend_on:
  assumes h: "honest_hop sm aes h" "circ_at h cid (Some 2) k" "Decrypt aes k w = Inr inner" "length w \<le> CellBodyMax"
    and nxt: "deliver n hs (mkCell cid CmdExtend (length inner) inner) = ([mkCell cid CmdExtended 32 p], hs')" "length p = 32"
  obtains h' where
    "deliver (Suc n) (h # hs) (mkCell cid CmdExtend (length w) w) = ([mkCell cid CmdExtended 32 p], h' # hs')"
    "same_node h h'" "circ_at h' cid (Some 2) k"
proof -
  let ?c = "mkCell cid CmdExtend (length w) w" and ?s = "(hop_srv h)\<lparr>rs_timeout := Touch (hop_now h) cid (rs_timeout (hop_srv h))\<rparr>"
  have wf: "wf_cell ?c" using h(4) by (simp add: wf_mkCell)
  have inner: "length inner \<le> 505" using gcm.dec_len [OF h(3)] h(4) by simp
  have run: "run_hop h hs ?c stream = Some (Inr ([SendCell 2 (mkCell cid CmdExtend (length inner) inner)], ?s))" for stream
    using h wf inner by (simp add: run_hop_def relay_cmds handleExtend_def circ_at_def honest_hop_def)
  have "linked h cid" using h(2) by (simp add: linked_def circ_at_def)
  then have bwd: "backward h ?s cid [mkCell cid CmdExtended 32 p] = [SendCell 0 (mkCell cid CmdExtended 32 p)]"
    using h(2) by (simp add: backward_def circ_at_def forward_cell_def writeIn_def cmd_defs)
  have "deliver (Suc n) (h # hs) ?c = ([mkCell cid CmdExtended 32 p], h\<lparr>hop_srv := ?s\<rparr> # hs')"
    by (rule deliver_hop [OF run _ run], simp add: inner nxt, simp add: bwd nxt(2))
  with that touch_node [OF h(2)] show ?thesis by blast
qed

text \<open>A cell and the same cell with one more layer.\<close>

definition layered :: "block_cipher \<Rightarrow> bytes \<Rightarrow> Cell \<Rightarrow> Cell \<Rightarrow> bool" where
  "layered aes k c c' \<longleftrightarrow> wf_cell c' \<and> Command c' = Command c \<and> unat (Length c') = unat (Length c) + 28 \<and>
     Decrypt aes k (cell_data c') = Inr (cell_data c)"

lemma canon_cell_sel:
  assumes "wf_cell c"
  shows "Command (canon_cell c) = Command c" "Length (canon_cell c) = Length c" "cell_data (canon_cell c) = cell_data c"
proof -
  have l: "min (unat (Length c)) CellBodyMax = unat (Length c)" using assms by (simp add: wf_cell_def)
  show "Command (canon_cell c) = Command c" "Length (canon_cell c) = Length c" unfolding canon_cell_def l by simp_all
  have "length (cell_data c) = unat (Length c)" using assms by (rule length_cell_data)
  moreover have "canon_cell c = mkCell (CircID c) (Command c) (length (cell_data c)) (cell_data c)"
    unfolding canon_cell_def l using calculation by (simp only: cell_data_def)
  ultimately show "cell_data (canon_cell c) = cell_data c"
    using assms cell_data_mkCell [of "cell_data c" "CircID c" "Command c"] by (simp add: wf_cell_def)
qed

lemma forward_layers:
  assumes "\<forall>c \<in> set cs. wf_cell c \<and> Command c \<in> {CmdRelay, CmdRelayDone} \<and> unat (Length c) \<le> 477"
    and "length (circ_Key circ) = 32"
  shows "list_all2 (layered aes (circ_Key circ)) cs
     (over_wire pad (sent_to (circ_InConn circ) (forward_loop aes rnds circ cs)))"
proof -
  have "\<exists>cs'. forward_loop aes rnds circ cs = map (SendCell (circ_InConn circ)) cs' \<and>
      list_all2 (\<lambda>c c'. wf_cell c' \<and> layered aes (circ_Key circ) c c') cs cs'"
    using assms(1)
  proof (induction cs arbitrary: rnds)
    case (Cons c cs)
    obtain c' where c': "forward_cell aes (rnds 0) circ c = Some c'" "wf_cell c'" "Command c' = Command c"
      "Decrypt aes (circ_Key circ) (cell_data c') = Inr (cell_data c)"
      using forward_cell_layer [of c circ aes "rnds 0"] Cons.prems assms(2) by auto
    have "unat (Length c') = unat (Length c) + 28"
      using gcm.dec_len [OF c'(4)] length_cell_data [OF c'(2)] length_cell_data [of c] Cons.prems by simp
    then have "wf_cell c' \<and> layered aes (circ_Key circ) c c'" using c' by (simp add: layered_def)
    moreover obtain cs' where "forward_loop aes (\<lambda>i. rnds (Suc i)) circ cs = map (SendCell (circ_InConn circ)) cs'"
      "list_all2 (\<lambda>c c'. wf_cell c' \<and> layered aes (circ_Key circ) c c') cs cs'"
      using Cons.IH [of "\<lambda>i. rnds (Suc i)"] Cons.prems by auto
    ultimately show ?case using c'(1) by (intro exI [of _ "c' # cs'"]) (simp add: writeIn_def)
  qed simp
  then obtain cs' where cs': "forward_loop aes rnds circ cs = map (SendCell (circ_InConn circ)) cs'"
    and l: "list_all2 (\<lambda>c c'. wf_cell c' \<and> layered aes (circ_Key circ) c c') cs cs'" by blast
  have "\<forall>c' \<in> set cs'. wf_cell c'" using l by (auto simp: list_all2_conv_all_nth in_set_conv_nth)
  then have "over_wire pad cs' = map canon_cell cs'" by (intro over_wire_canon) (auto simp: wf_cell_def)
  moreover have "list_all2 (layered aes (circ_Key circ)) cs (map canon_cell cs')"
    using l by (auto simp: list_all2_conv_all_nth layered_def canon_cell_sel)
  ultimately show ?thesis using cs' by simp
qed

lemma deliver_relay_on:
  assumes h: "honest_hop sm aes h" "circ_at h cid (Some 2) k" "Decrypt aes k w = Inr p" "length w \<le> CellBodyMax"
      "rc_Role (rs_cfg (hop_srv h)) \<noteq> ''exit''"
    and nxt: "deliver n hs (mkCell cid CmdRelay (length p) p) = (back, hs')"
    and bwd: "\<forall>c \<in> set back. wf_cell c \<and> Command c \<in> {CmdRelay, CmdRelayDone} \<and> unat (Length c) \<le> 477"
  obtains h' up where
    "deliver (Suc n) (h # hs) (mkCell cid CmdRelay (length w) w) = (up, h' # hs')"
    "list_all2 (layered aes k) back up" "same_node h h'" "circ_at h' cid (Some 2) k"
proof -
  let ?c = "mkCell cid CmdRelay (length w) w" and ?s = "(hop_srv h)\<lparr>rs_timeout := Touch (hop_now h) cid (rs_timeout (hop_srv h))\<rparr>"
  let ?circ = "\<lparr>circ_ID = cid, circ_InConn = 0, circ_OutConn = Some 2, circ_Key = k\<rparr>"
  have wf: "wf_cell ?c" using h(4) by (simp add: wf_mkCell)
  have cd: "cell_data ?c = w" using h(4) by simp
  have p: "length p \<le> 505" using gcm.dec_len [OF h(3)] h(4) by simp
  have run: "run_hop h hs ?c stream = Some (Inr ([SendCell 2 (mkCell cid CmdRelay (length p) p)], ?s))" for stream
    using relay_cell_effect [OF wf, of "hop_srv h" ?circ "(hop_env h)\<lparr>re_dial := dial_next h hs stream\<rparr>" p "hop_now h" 0]
      h cd by (simp add: run_hop_def circ_at_def honest_hop_def)
  have b: "backward h ?s cid back = forward_loop aes (hop_nonces h) ?circ back"
    using h(1,2) by (simp add: backward_def circ_at_def linked_def honest_hop_def)
  define up where "up = over_wire (hop_pad h) (sent_to 0 (forward_loop aes (hop_nonces h) ?circ back))"
  have "deliver (Suc n) (h # hs) ?c = (up, h\<lparr>hop_srv := ?s\<rparr> # hs')"
    by (rule deliver_hop [OF run _ run], simp add: p nxt, simp add: b up_def)
  moreover have "list_all2 (layered aes k) back up"
    using forward_layers [OF bwd, of ?circ aes "hop_pad h" "hop_nonces h"] Decrypt_Inr_key [OF h(3)] by (simp add: up_def)
  ultimately show ?thesis using that touch_node [OF h(2)] by blast
qed

section \<open>Building a circuit\<close>

lemma relay_addr_ne [simp]: "relay_addr r \<noteq> []"
  by (simp add: relay_addr_def)

lemma net_step:
  "deliver (length hs) hs c = (r # up, hs') \<Longrightarrow>
   tr_recv net_transport (tr_send net_transport c (hs, [])) = (Inr r, (hs', up))"
  by (simp add: net_transport_def net_send_def net_recv_def)

lemma net_send_step:
  "deliver (length hs) hs c = (up, hs') \<Longrightarrow> tr_send net_transport c (hs, []) = (hs', up)"
  by (simp add: net_transport_def net_send_def)

lemma extend_over_net:
  assumes keys: "\<forall>k \<in> set (take i (cl_Keys circ)). length k = 32" "i \<le> length (cl_Keys circ)" "i \<le> 2"
    and sm: "x25519_ok sm" and addr: "length (relay_addr r) < 256"
    and conn: "cl_Conn circ = (hs, [])"
    and net: "\<And>w. peel_layers (Decrypt aes) (take i (cl_Keys circ)) w =
          Inr (extend_payload (relay_addr r) (ScalarBaseMult sm (rand_bytes (rnds 0) 32))) \<Longrightarrow> length w \<le> CellBodyMax \<Longrightarrow>
        \<exists>hs'. deliver (length hs) hs (mkCell (cl_CircID circ) CmdExtend (length w) w) =
            ([mkCell (cl_CircID circ) CmdExtended 32 p], hs') \<and> Q hs'"
    and p: "length p = 32"
  shows "\<exists>hs'. Q hs' \<and> extendCircuit net_transport sm aes rnds r i circ =
        (None, circ\<lparr>cl_Conn := (hs', []), cl_Keys := (cl_Keys circ)[i := DeriveKey sm (rand_bytes (rnds 0) 32) p]\<rparr>)"
proof -
  let ?pub = "ScalarBaseMult sm (rand_bytes (rnds 0) 32)"
  let ?pl = "extend_payload (relay_addr r) ?pub"
  have pub: "length ?pub = 32" using sm by (simp add: x25519_ok_def ScalarBaseMult_def)
  obtain w where w: "wrap_layers (Encrypt aes) (\<lambda>j. rnds (Suc j)) (take i (cl_Keys circ)) ?pl = Inr w"
    using gcm.wrap_defined [of "take i (cl_Keys circ)" aes "\<lambda>j. rnds (Suc j)" ?pl] keys(1) by (auto simp: list_all_iff)
  have "length w = 33 + length (relay_addr r) + i * 28"
    using gcm.wrap_length [OF w] keys(2) pub by (simp add: extend_payload_eq)
  then have lw: "length w \<le> 505" using addr keys(3) by linarith
  obtain hs' where hs': "deliver (length hs) hs (mkCell (cl_CircID circ) CmdExtend (length w) w) =
            ([mkCell (cl_CircID circ) CmdExtended 32 p], hs')" "Q hs'"
    using net [OF gcm.peel_wrap [OF w]] lw by auto
  have "extendCircuit net_transport sm aes rnds r i circ =
        (None, circ\<lparr>cl_Conn := (hs', []), cl_Keys := (cl_Keys circ)[i := DeriveKey sm (rand_bytes (rnds 0) 32) p]\<rparr>)"
    using w lw p conn net_step [OF hs'(1)] by (simp add: extendCircuit_def GenKeyPair_def Let_def)
  with hs'(2) show ?thesis by blast
qed

lemma peel_single: "peel_layers (Decrypt aes) [k] w = Inr p \<longleftrightarrow> Decrypt aes k w = Inr p"
  by (auto split: sum.splits)

lemma peel_two:
  "peel_layers (Decrypt aes) [k, l] w = Inr p \<longleftrightarrow> (\<exists>v. Decrypt aes k w = Inr v \<and> Decrypt aes l v = Inr p)"
  by (auto split: sum.splits)

lemma net_extend_middle:
  assumes "honest_hop sm aes e" "honest_hop sm aes m" "x25519_ok sm" "circ_at e cid None k0" "length pub = 32"
    and "hop_addr m = a" "length a < 256" "a \<noteq> []"
    and "peel_layers (Decrypt aes) [k0] w = Inr (extend_payload a pub)" "length w \<le> CellBodyMax"
  shows "\<exists>hs'. deliver (length [e, m, x]) [e, m, x] (mkCell cid CmdExtend (length w) w) =
      ([mkCell cid CmdExtended 32 (ScalarBaseMult sm (hop_priv m))], hs') \<and>
    (\<exists>e' m'. hs' = [e', m', x] \<and> same_node e e' \<and> same_node m m' \<and> circ_at e' cid (Some 2) k0 \<and>
      circ_at m' cid None (DeriveKey sm (hop_priv m) pub))"
proof -
  have "Decrypt aes k0 w = Inr (extend_payload (hop_addr m) pub)" using assms(6,9) by (simp only: peel_single)
  from deliver_extend_here [OF assms(1,4) this assms(10,5) _ _ assms(2,3), of 1 "[x]"] assms(6-8)
  show ?thesis by simp metis
qed

lemma net_extend_exit:
  assumes "honest_hop sm aes e" "honest_hop sm aes m" "honest_hop sm aes x" "x25519_ok sm"
    and "circ_at e cid (Some 2) k0" "circ_at m cid None k1" "length pub = 32"
    and "hop_addr x = a" "length a < 256" "a \<noteq> []"
    and "peel_layers (Decrypt aes) [k0, k1] w = Inr (extend_payload a pub)" "length w \<le> CellBodyMax"
  shows "\<exists>hs'. deliver (length [e, m, x]) [e, m, x] (mkCell cid CmdExtend (length w) w) =
      ([mkCell cid CmdExtended 32 (ScalarBaseMult sm (hop_priv x))], hs') \<and>
    (\<exists>e' m' x'. hs' = [e', m', x'] \<and> same_node e e' \<and> same_node m m' \<and> same_node x x' \<and>
      circ_at e' cid (Some 2) k0 \<and> circ_at m' cid (Some 2) k1 \<and> circ_at x' cid None (DeriveKey sm (hop_priv x) pub))"
proof -
  obtain v where v: "Decrypt aes k0 w = Inr v" "Decrypt aes k1 v = Inr (extend_payload (hop_addr x) pub)"
    using assms(8,11) by (simp only: peel_two) blast
  have "length v \<le> CellBodyMax" using gcm.dec_len [OF v(1)] assms(12) by simp
  then obtain m' x' where mx: "deliver (Suc (Suc 0)) [m, x] (mkCell cid CmdExtend (length v) v) =
       ([mkCell cid CmdExtended 32 (ScalarBaseMult sm (hop_priv x))], [m', x'])"
    "same_node m m'" "same_node x x'" "circ_at m' cid (Some 2) k1" "circ_at x' cid None (DeriveKey sm (hop_priv x) pub)"
    using deliver_extend_here [OF assms(2,6) v(2) _ assms(7) _ _ assms(3,4), of 0 "[]"] assms(8-10) by metis
  have "length (ScalarBaseMult sm (hop_priv x)) = 32" using assms(4) by (simp add: x25519_ok_def ScalarBaseMult_def)
  from deliver_extend_on [OF assms(1,5) v(1) assms(12) mx(1) this] mx(2-5) show ?thesis by simp metis
qed

text \<open>The state of the network after a successful build.\<close>

definition circuit_ready ::
  "hop list \<Rightarrow> uint32 \<Rightarrow> bytes list \<Rightarrow> hop list \<Rightarrow> bool" where
  "circuit_ready hs cid keys hs' \<longleftrightarrow>
     (\<exists>e m x e' m' x' k0 k1 k2. hs = [e, m, x] \<and> hs' = [e', m', x'] \<and> keys = [k0, k1, k2] \<and>
        same_node e e' \<and> same_node m m' \<and> same_node x x' \<and> (\<forall>k \<in> set keys. length k = 32) \<and>
        circ_at e' cid (Some 2) k0 \<and> circ_at m' cid (Some 2) k1 \<and> circ_at x' cid None k2)"

lemma net_buildCircuit:
  assumes honest: "honest_hop sm aes e" "honest_hop sm aes m" "honest_hop sm aes x" and sm: "x25519_ok sm"
    and addr: "hop_addr m = relay_addr middle" "hop_addr x = relay_addr exitR"
      "length (relay_addr middle) < 256" "length (relay_addr exitR) < 256"
  shows "\<exists>keys hs'. buildCircuitOnConn net_transport sm aes rnds now ([e, m, x], []) cid (Some middle) (Some exitR) =
      Inr \<lparr>cl_CircID = cid, cl_Conn = (hs', []), cl_Keys = keys, cl_built = now\<rparr> \<and>
    circuit_ready [e, m, x] cid keys hs'"
proof -
  let ?a = "\<lambda>i. rand_bytes (rnds i 0) 32"
  let ?pub = "\<lambda>i. ScalarBaseMult sm (?a i)"
  let ?rp = "\<lambda>h. ScalarBaseMult sm (hop_priv h)"
  have pub: "length (ScalarBaseMult sm k) = 32" for k using sm by (simp add: x25519_ok_def ScalarBaseMult_def)
  have agree: "DeriveKey sm (?a i) (?rp h) = DeriveKey sm (hop_priv h) (?pub i)" for i h
    using DeriveKey_agree [OF sm, of "?a i" "hop_priv h"] by (simp add: hop_priv_def)
  define k where "k i h = DeriveKey sm (hop_priv h) (?pub i)" for i h
  have k32: "length (k i h) = 32" for i h by (simp add: k_def)
  obtain e1 where e1: "deliver (length [e, m, x]) [e, m, x] (mkCell cid CmdCreate 32 (?pub 0)) =
      ([mkCell cid CmdCreated 32 (?rp e)], [e1, m, x])" "same_node e e1" "circ_at e1 cid None (k 0 e)"
    using deliver_create [OF honest(1) sm pub, of 2 "[m, x]" cid] by (auto simp: k_def numeral_eq_Suc)
  let ?c0 = "\<lparr>cl_CircID = cid, cl_Conn = ([e1, m, x], []), cl_Keys = [k 0 e, [], []], cl_built = now\<rparr> :: net ClientCircuit"
  have h1: "honest_hop sm aes e1" using same_node_sel(9) [OF e1(2)] honest(1) by simp
  let ?Q1 = "\<lambda>hs. \<exists>e2 m1. hs = [e2, m1, x] \<and> same_node e1 e2 \<and> same_node m m1 \<and> circ_at e2 cid (Some 2) (k 0 e) \<and>
      circ_at m1 cid None (k 1 m)"
  have "\<exists>hs1. ?Q1 hs1 \<and> extendCircuit net_transport sm aes (rnds 1) middle 1 ?c0 =
      (None, ?c0\<lparr>cl_Conn := (hs1, []), cl_Keys := (cl_Keys ?c0)[1 := DeriveKey sm (?a 1) (?rp m)]\<rparr>)"
  proof (rule extend_over_net [where circ = ?c0 and i = 1 and r = middle and p = "?rp m" and Q = ?Q1 and hs = "[e1, m, x]"])
    fix w :: bytes
    assume "peel_layers (Decrypt aes) (take 1 (cl_Keys ?c0)) w = Inr (extend_payload (relay_addr middle) (?pub 1))"
      "length w \<le> CellBodyMax"
    then show "\<exists>hs'. deliver (length [e1, m, x]) [e1, m, x] (mkCell (cl_CircID ?c0) CmdExtend (length w) w) =
            ([mkCell (cl_CircID ?c0) CmdExtended 32 (?rp m)], hs') \<and> ?Q1 hs'"
      using net_extend_middle [OF h1 honest(2) sm e1(3) pub addr(1,3) relay_addr_ne, where w = w and x = x] by (simp add: k_def)
  qed (simp_all add: k32 pub sm addr)
  then obtain e2 m1 where ext1: "extendCircuit net_transport sm aes (rnds 1) middle 1 ?c0 =
      (None, \<lparr>cl_CircID = cid, cl_Conn = ([e2, m1, x], []), cl_Keys = [k 0 e, k 1 m, []], cl_built = now\<rparr>)"
    and n1: "same_node e1 e2" "same_node m m1" "circ_at e2 cid (Some 2) (k 0 e)" "circ_at m1 cid None (k 1 m)"
    by (auto simp: agree k_def)
  let ?c1 = "\<lparr>cl_CircID = cid, cl_Conn = ([e2, m1, x], []), cl_Keys = [k 0 e, k 1 m, []], cl_built = now\<rparr> :: net ClientCircuit"
  have h2: "honest_hop sm aes e2" "honest_hop sm aes m1"
    using same_node_sel(9) [OF n1(1)] same_node_sel(9) [OF n1(2)] h1 honest(2) by simp_all
  let ?Q2 = "\<lambda>hs. \<exists>e3 m2 x1. hs = [e3, m2, x1] \<and> same_node e2 e3 \<and> same_node m1 m2 \<and> same_node x x1 \<and>
      circ_at e3 cid (Some 2) (k 0 e) \<and> circ_at m2 cid (Some 2) (k 1 m) \<and> circ_at x1 cid None (k 2 x)"
  have "\<exists>hs2. ?Q2 hs2 \<and> extendCircuit net_transport sm aes (rnds 2) exitR 2 ?c1 =
      (None, ?c1\<lparr>cl_Conn := (hs2, []), cl_Keys := (cl_Keys ?c1)[2 := DeriveKey sm (?a 2) (?rp x)]\<rparr>)"
  proof (rule extend_over_net [where circ = ?c1 and i = 2 and r = exitR and p = "?rp x" and Q = ?Q2 and hs = "[e2, m1, x]"])
    fix w :: bytes
    assume "peel_layers (Decrypt aes) (take 2 (cl_Keys ?c1)) w = Inr (extend_payload (relay_addr exitR) (?pub 2))"
      "length w \<le> CellBodyMax"
    then show "\<exists>hs'. deliver (length [e2, m1, x]) [e2, m1, x] (mkCell (cl_CircID ?c1) CmdExtend (length w) w) =
            ([mkCell (cl_CircID ?c1) CmdExtended 32 (?rp x)], hs') \<and> ?Q2 hs'"
      using net_extend_exit [OF h2 honest(3) sm n1(3,4) pub addr(2,4) relay_addr_ne, where w = w] by (simp add: k_def)
  qed (simp_all add: k32 pub sm addr)
  then obtain e3 m2 x1 where ext2: "extendCircuit net_transport sm aes (rnds 2) exitR 2 ?c1 =
      (None, \<lparr>cl_CircID = cid, cl_Conn = ([e3, m2, x1], []), cl_Keys = [k 0 e, k 1 m, k 2 x], cl_built = now\<rparr>)"
    and n2: "same_node e2 e3" "same_node m1 m2" "same_node x x1"
      "circ_at e3 cid (Some 2) (k 0 e)" "circ_at m2 cid (Some 2) (k 1 m)" "circ_at x1 cid None (k 2 x)"
    by (auto simp: agree k_def)
  have "buildCircuitOnConn net_transport sm aes rnds now ([e, m, x], []) cid (Some middle) (Some exitR) =
      Inr \<lparr>cl_CircID = cid, cl_Conn = ([e3, m2, x1], []), cl_Keys = [k 0 e, k 1 m, k 2 x], cl_built = now\<rparr>"
    using net_step [OF e1(1)] ext1 ext2 pub agree [of 0 e]
    by (simp add: buildCircuitOnConn_def GenKeyPair_def Let_def k_def)
  moreover have "circuit_ready [e, m, x] cid [k 0 e, k 1 m, k 2 x] [e3, m2, x1]"
    using n2 k32 same_node_trans [OF e1(2) same_node_trans [OF n1(1) n2(1)]] same_node_trans [OF n1(2) n2(2)]
    by (simp add: circuit_ready_def)
  ultimately show ?thesis by blast
qed

text \<open>
  C2: The telescoping handshake works end to end. Over three relays that run this code (with the
  same X25519 and AES, handshake preambles in step, and the middle and exit relay listening where the
  consensus says), buildCircuitOnConn succeeds, whatever the relays' earlier state and all
  randomness: the client ends up with three 32-byte keys which are, in order, the keys the entry, the
  middle and the exit relay hold for this circuit id, and the three relays are linked to each other.
\<close>

theorem circuit_build_succeeds:
  assumes honest: "honest_hop sm aes e" "honest_hop sm aes m" "honest_hop sm aes x" and sm: "x25519_ok sm"
    and addr: "hop_addr m = relay_addr middle" "hop_addr x = relay_addr exitR"
      "length (relay_addr middle) < 256" "length (relay_addr exitR) < 256"
  shows "\<exists>keys hs'. buildCircuitOnConn net_transport sm aes rnds now ([e, m, x], []) cid (Some middle) (Some exitR) =
      Inr \<lparr>cl_CircID = cid, cl_Conn = (hs', []), cl_Keys = keys, cl_built = now\<rparr> \<and>
    circuit_ready [e, m, x] cid keys hs'"
  by (rule net_buildCircuit [OF assms])

definition sample_hop :: "string \<Rightarrow> string \<Rightarrow> hop" where
  "sample_hop a role =
     \<lparr>hop_addr = a, hop_srv = sample_exit\<lparr>rs_cfg := sample_relay_cfg\<lparr>rc_Role := role\<rparr>\<rparr>,
      hop_env = sample_env\<lparr>re_sm := sample_sm, re_obfs := basicObfsHandshake False 5 (\<lambda>_. 1)\<rparr>,
      hop_exit = \<lparr>ee_aes = re_aes sample_env, ee_rnds = (\<lambda>_ _. 6), ee_lookupHost = (\<lambda>_. Some [''1.2.3.4'']),
        ee_doh = (\<lambda>_. None), ee_dial = (\<lambda>_. Inr (\<lambda>req. (False, [(req, False), ([33], True)])))\<rparr>,
      hop_nonces = (\<lambda>_ _. 2), hop_now = 0, hop_pad = (3, \<lambda>_. 4), hop_pre = (5, \<lambda>_. 1)\<rparr>"

lemma sample_hop_honest: "honest_hop sample_sm (re_aes sample_env) (sample_hop a role)"
  by (simp add: honest_hop_def sample_hop_def sample_env_def)

abbreviation sample_net :: "hop list" where
  "sample_net \<equiv> [sample_hop ''e'' ''entry'', sample_hop (relay_addr sample_entry) ''middle'', sample_hop (relay_addr sample_relay) ''exit'']"

lemma dec_nat_short: "n < 10 ^ k \<Longrightarrow> 0 < k \<Longrightarrow> length (dec_nat n) \<le> k"
proof (induction k arbitrary: n)
  case (Suc k)
  show ?case
  proof (cases "n < 10")
    case False
    then have "n div 10 < 10 ^ k" "0 < k" using Suc.prems by (auto intro: gr0I simp: less_mult_imp_div_less)
    with Suc.IH [of "n div 10"] False show ?thesis by (simp add: dec_nat.simps [of n])
  qed (simp add: dec_nat.simps [of n])
qed simp

lemma sample_addr_short: "length (relay_addr sample_entry) < 256" "length (relay_addr sample_relay) < 256"
  using dec_nat_short [of 9001 4] by (simp_all add: relay_addr_def sample_entry_def sample_relay_def dec_int_def)

theorem circuit_build_succeeds_witness:
  "\<exists>keys hs'. buildCircuitOnConn net_transport sample_sm (re_aes sample_env) (\<lambda>h l i. of_nat (h + l + i)) 0
      (sample_net, []) 42 (Some sample_entry) (Some sample_relay) =
      Inr \<lparr>cl_CircID = 42, cl_Conn = (hs', []), cl_Keys = keys, cl_built = 0\<rparr> \<and> circuit_ready sample_net 42 keys hs'"
  by (rule circuit_build_succeeds [OF sample_hop_honest sample_hop_honest sample_hop_honest sample_sm_ok])
     (simp_all add: sample_addr_short, simp_all add: sample_hop_def)

section \<open>A request and its response\<close>

text \<open>What the exit reads from the origin: everything up to the first error, one buffer at a time.\<close>

fun origin_data :: "(bytes \<times> bool) list \<Rightarrow> bytes" where
  "origin_data [] = []"
| "origin_data ((buf, err) # reads) = take exit_chunk buf @ (if err then [] else origin_data reads)"

definition exit_cell :: "block_cipher \<Rightarrow> bytes \<Rightarrow> CellCmd \<Rightarrow> bytes \<Rightarrow> Cell \<Rightarrow> bool" where
  "exit_cell aes k cmd d c \<longleftrightarrow> wf_cell c \<and> canon_cell c = c \<and> Command c = cmd \<and>
     unat (Length c) = length d + 28 \<and> Decrypt aes k (cell_data c) = Inr d"

lemma exit_chunk_eq [simp]: "exit_chunk = 421"
  by (simp add: exit_chunk_def)

lemma exit_reply_cell:
  assumes "length (circ_Key circ) = 32" "length d \<le> 477"
  shows "\<exists>c. exit_reply aes rnd circ cmd d = Some (SendCell (circ_InConn circ) c) \<and> exit_cell aes (circ_Key circ) cmd d c"
proof -
  obtain e where e: "Encrypt aes rnd (circ_Key circ) d = Inr e" "Decrypt aes (circ_Key circ) e = Inr d"
    using gcm.enc_ok [of "circ_Key circ" aes rnd d] assms(1) by auto
  let ?c = "mkCell (circ_ID circ) cmd (length e) e"
  have le: "length e = length d + 28" using gcm.enc_len [OF e(1)] by simp
  then have small: "length e \<le> CellBodyMax" using assms(2) by simp
  have "unat (Length ?c) = length d + 28" using small le by (simp del: of_nat_add)
  moreover have "wf_cell ?c" "canon_cell ?c = ?c" "cell_data ?c = e" using small by (simp_all add: wf_mkCell)
  ultimately have "exit_cell aes (circ_Key circ) cmd d ?c" using e(2) by (simp add: exit_cell_def)
  with e(1) small show ?thesis by (simp add: exit_reply_def writeIn_def)
qed

lemma exit_loop_cells:
  assumes "length (circ_Key circ) = 32"
  shows "\<exists>cs ds. exit_loop aes rnds circ reads = map (SendCell (circ_InConn circ)) cs \<and>
     list_all2 (\<lambda>c d. exit_cell aes (circ_Key circ) CmdRelay d c \<and> length d \<le> 421) cs ds \<and>
     concat ds = origin_data reads \<and> length cs \<le> length reads"
proof (induction reads arbitrary: rnds)
  case (Cons r reads)
  obtain buf err where r: "r = (buf, err)" by (cases r)
  obtain cs ds where IH: "exit_loop aes (\<lambda>i. rnds (Suc i)) circ reads = map (SendCell (circ_InConn circ)) cs"
     "list_all2 (\<lambda>c d. exit_cell aes (circ_Key circ) CmdRelay d c \<and> length d \<le> 421) cs ds"
     "concat ds = origin_data reads" "length cs \<le> length reads"
    using Cons.IH by blast
  obtain c where c: "exit_reply aes (rnds 0) circ CmdRelay (take 421 buf) = Some (SendCell (circ_InConn circ) c)"
    "exit_cell aes (circ_Key circ) CmdRelay (take 421 buf) c"
    using exit_reply_cell [OF assms, of "take 421 buf" aes "rnds 0" CmdRelay] by (auto simp: min_le_iff_disj)
  let ?cs = "(if buf = [] then [] else [c]) @ (if err then [] else cs)"
  let ?ds = "(if buf = [] then [] else [take 421 buf]) @ (if err then [] else ds)"
  have "exit_loop aes rnds circ (r # reads) = map (SendCell (circ_InConn circ)) ?cs"
    using IH(1) c(1) by (simp add: r)
  moreover have "list_all2 (\<lambda>c d. exit_cell aes (circ_Key circ) CmdRelay d c \<and> length d \<le> 421) ?cs ?ds"
    using IH(2) c(2) by auto
  moreover have "concat ?ds = origin_data (r # reads)" "length ?cs \<le> length (r # reads)"
    using IH(3,4) by (auto simp: r)
  ultimately show ?case by blast
qed simp

lemma handleExitRelay_request:
  assumes "length host < 65536" "resolveHost env cfg host = ip" "ip \<noteq> []"
    and "ee_dial env (JoinHostPort ip (dec_nat (unat port))) = Inr origin" "origin req = (False, reads)"
  shows "handleExitRelay env cfg circ (request_payload host port req) =
     exit_loop (ee_aes env) (\<lambda>i. ee_rnds env (i + 2)) circ reads @ sendDone (ee_aes env) (ee_rnds env 0) circ"
proof -
  let ?p = "request_payload host port req" and ?n = "length host"
  have p: "?p = put16 (of_nat ?n) @ bytes_of host @ put16 port @ req" by (rule request_payload_eq)
  have n: "unat (get16 (slice 0 2 ?p)) = ?n" using assms(1) get16_put16 [of "of_nat ?n" "[]"] by (simp add: p)
  have h: "slice 2 (2 + ?n) ?p = bytes_of host"
    using slice_exact [of "put16 (of_nat ?n)" 2 "bytes_of host" "2 + ?n"] by (simp add: p)
  have pt: "get16 (slice (2 + ?n) (4 + ?n) ?p) = port"
    using slice_exact [of "put16 (of_nat ?n) @ bytes_of host" "2 + ?n" "put16 port" "4 + ?n" req] get16_put16 [of port "[]"]
    by (simp add: p)
  have d: "drop (4 + ?n) ?p = req" by (simp add: p)
  show ?thesis
    unfolding handleExitRelay_def Let_def n h pt d using assms by simp
qed

lemma deliver_exit:
  assumes x: "honest_hop sm aes x" "circ_at x cid None k" "rc_Role (rs_cfg (hop_srv x)) = ''exit''"
    and w: "Decrypt aes k w = Inr (request_payload host port req)" "length w \<le> CellBodyMax"
    and ex: "length host < 65536" "resolveHost (hop_exit x) (rs_cfg (hop_srv x)) host = ip" "ip \<noteq> []"
      "ee_dial (hop_exit x) (JoinHostPort ip (dec_nat (unat port))) = Inr origin" "origin req = (False, reads)"
  obtains x' cs ds dn where
    "deliver (Suc n) [x] (mkCell cid CmdRelay (length w) w) = (cs @ [dn], [x'])" "same_node x x'" "circ_at x' cid None k"
    "list_all2 (\<lambda>c d. exit_cell aes k CmdRelay d c \<and> length d \<le> 421) cs ds" "exit_cell aes k CmdRelayDone [0] dn"
    "concat ds = origin_data reads" "length cs \<le> length reads"
proof -
  let ?c = "mkCell cid CmdRelay (length w) w" and ?s = "(hop_srv x)\<lparr>rs_timeout := Touch (hop_now x) cid (rs_timeout (hop_srv x))\<rparr>"
  let ?circ = "\<lparr>circ_ID = cid, circ_InConn = 0, circ_OutConn = None, circ_Key = k\<rparr>"
  have k: "length (circ_Key ?circ) = 32" using Decrypt_Inr_key [OF w(1)] by simp
  have wf: "wf_cell ?c" "cell_data ?c = w" using w(2) by (simp_all add: wf_mkCell)
  have run: "run_hop x [] ?c stream = Some (Inr ([SpawnExit ?circ (request_payload host port req)], ?s))" for stream
    using relay_cell_effect [OF wf(1), of "hop_srv x" ?circ "(hop_env x)\<lparr>re_dial := dial_next x [] stream\<rparr>"] x w(1) wf(2)
    by (simp add: run_hop_def circ_at_def honest_hop_def)
  obtain cs ds where cs: "exit_loop aes (\<lambda>i. ee_rnds (hop_exit x) (i + 2)) ?circ reads = map (SendCell 0) cs"
     "list_all2 (\<lambda>c d. exit_cell aes k CmdRelay d c \<and> length d \<le> 421) cs ds"
     "concat ds = origin_data reads" "length cs \<le> length reads"
    using exit_loop_cells [OF k, of aes "\<lambda>i. ee_rnds (hop_exit x) (i + 2)" reads] by auto
  obtain dn where dn: "sendDone aes (ee_rnds (hop_exit x) 0) ?circ = [SendCell 0 dn]" "exit_cell aes k CmdRelayDone [0] dn"
    using exit_reply_cell [OF k, of "[0]" aes "ee_rnds (hop_exit x) 0" CmdRelayDone] by (auto simp: sendDone_def)
  have ev: "exit_events x [SpawnExit ?circ (request_payload host port req)] = map (SendCell 0) (cs @ [dn])"
    using handleExitRelay_request [OF ex] cs(1) dn(1) x(1) by (simp add: honest_hop_def)
  have can: "\<forall>c \<in> set (cs @ [dn]). wf_cell c \<and> canon_cell c = c"
    using cs(2) dn(2) by (auto simp: exit_cell_def list_all2_conv_all_nth in_set_conv_nth)
  then have ow: "over_wire (hop_pad x) (cs @ [dn]) = cs @ [dn]"
    by (subst over_wire_canon) (auto simp: wf_cell_def map_idI)
  have "backward x ?s cid [] = []" using x(2) by (simp add: backward_def circ_at_def)
  then have "deliver (Suc n) [x] ?c = (cs @ [dn], [x\<lparr>hop_srv := ?s\<rparr>])"
    by (intro deliver_hop [OF run _ run]) (simp, simp only: sent_to_append ev sent_to_map, simp add: ow)
  then show ?thesis using that touch_node [OF x(2)] cs(2-4) dn(2) by blast
qed

lemma response_over_net:
  assumes "list_all2 (\<lambda>c d. Command c = CmdRelay \<and> peel_layers (Decrypt aes) keys (cell_data c) = Inr d) cs ds"
    and "Command dn = CmdRelayDone" "peel_layers (Decrypt aes) keys (cell_data dn) = Inr z"
    and "length cs < n" "\<And>i. \<not> ctx i"
  shows "response_loop net_transport aes keys ctx n resp (hs, cs @ dn # rest) = ((resp @ concat ds, None), (hs, rest))"
  using assms
proof (induction cs ds arbitrary: n resp ctx rule: list_all2_induct)
  case Nil
  then obtain j where "n = Suc j" by (cases n) auto
  with Nil show ?case by (simp add: net_transport_def net_recv_def)
next
  case (Cons c cs d ds)
  then obtain j where j: "n = Suc j" by (cases n) auto
  have "response_loop net_transport aes keys (\<lambda>i. ctx (Suc i)) j (resp @ d) (hs, cs @ dn # rest) =
      (((resp @ d) @ concat ds, None), (hs, rest))"
    using Cons.prems j by (intro Cons.IH) simp_all
  with Cons.hyps Cons.prems(4) j show ?case by (simp add: net_transport_def net_recv_def cmd_defs)
qed

lemma layered_bound:
  assumes "list_all2 (layered aes k) cs cs'" "\<forall>c \<in> set cs. Command c \<in> {CmdRelay, CmdRelayDone} \<and> unat (Length c) \<le> b"
    and "b + 28 \<le> b'"
  shows "\<forall>c \<in> set cs'. wf_cell c \<and> Command c \<in> {CmdRelay, CmdRelayDone} \<and> unat (Length c) \<le> b'"
proof
  fix c' assume "c' \<in> set cs'"
  then obtain i where i: "i < length cs'" "c' = cs' ! i" by (auto simp: in_set_conv_nth)
  then have "layered aes k (cs ! i) c'" "cs ! i \<in> set cs" using assms(1) by (auto simp: list_all2_conv_all_nth)
  with assms(2,3) show "wf_cell c' \<and> Command c' \<in> {CmdRelay, CmdRelayDone} \<and> unat (Length c') \<le> b'"
    by (fastforce simp: layered_def)
qed

lemma peel_back:
  assumes "exit_cell aes k2 cmd d c" "layered aes k1 c c1" "layered aes k0 c1 c2"
  shows "Command c2 = cmd \<and> peel_layers (Decrypt aes) [k0, k1, k2] (cell_data c2) = Inr d"
  using assms by (simp add: exit_cell_def layered_def)

lemma net_request:
  assumes honest: "honest_hop sm aes e" "honest_hop sm aes m" "honest_hop sm aes x"
    and at: "circ_at e cid (Some 2) k0" "circ_at m cid (Some 2) k1" "circ_at x cid None k2"
    and roles: "rc_Role (rs_cfg (hop_srv e)) \<noteq> ''exit''" "rc_Role (rs_cfg (hop_srv m)) \<noteq> ''exit''"
      "rc_Role (rs_cfg (hop_srv x)) = ''exit''"
    and v: "Decrypt aes k0 w = Inr v1" "Decrypt aes k1 v1 = Inr v2" "Decrypt aes k2 v2 = Inr (request_payload host port req)"
    and lw: "length w \<le> CellBodyMax" and hl: "length host < 65536"
    and ex: "resolveHost (hop_exit x) (rs_cfg (hop_srv x)) host = ip" "ip \<noteq> []"
      "ee_dial (hop_exit x) (JoinHostPort ip (dec_nat (unat port))) = Inr origin" "origin req = (False, reads)"
  obtains e' m' x' cs ds dn where
    "deliver (Suc (Suc (Suc 0))) [e, m, x] (mkCell cid CmdRelay (length w) w) = (cs @ [dn], [e', m', x'])"
    "same_node e e'" "same_node m m'" "same_node x x'"
    "circ_at e' cid (Some 2) k0" "circ_at m' cid (Some 2) k1" "circ_at x' cid None k2"
    "list_all2 (\<lambda>c d. Command c = CmdRelay \<and> peel_layers (Decrypt aes) [k0, k1, k2] (cell_data c) = Inr d) cs ds"
    "Command dn = CmdRelayDone" "peel_layers (Decrypt aes) [k0, k1, k2] (cell_data dn) = Inr [0]"
    "concat ds = origin_data reads" "length cs \<le> length reads"
proof -
  have lv: "length v1 \<le> CellBodyMax" "length v2 \<le> CellBodyMax"
    using gcm.dec_len [OF v(1)] gcm.dec_len [OF v(2)] lw by simp_all
  obtain x' cs ds dn where x': "deliver (Suc 0) [x] (mkCell cid CmdRelay (length v2) v2) = (cs @ [dn], [x'])"
    "same_node x x'" "circ_at x' cid None k2"
    and cells: "list_all2 (\<lambda>c d. exit_cell aes k2 CmdRelay d c \<and> length d \<le> 421) cs ds" "exit_cell aes k2 CmdRelayDone [0] dn"
      "concat ds = origin_data reads" "length cs \<le> length reads"
    by (rule deliver_exit [OF honest(3) at(3) roles(3) v(3) lv(2) hl ex])
  have b0: "\<forall>c \<in> set (cs @ [dn]). Command c \<in> {CmdRelay, CmdRelayDone} \<and> unat (Length c) \<le> 449"
    "\<forall>c \<in> set (cs @ [dn]). wf_cell c"
    using cells(1,2) by (auto simp: exit_cell_def list_all2_conv_all_nth in_set_conv_nth)
  then have b1: "\<forall>c \<in> set (cs @ [dn]). wf_cell c \<and> Command c \<in> {CmdRelay, CmdRelayDone} \<and> unat (Length c) \<le> 477"
    by fastforce
  obtain m' up1 where m': "deliver (Suc (Suc 0)) [m, x] (mkCell cid CmdRelay (length v1) v1) = (up1, [m', x'])"
    "list_all2 (layered aes k1) (cs @ [dn]) up1" "same_node m m'" "circ_at m' cid (Some 2) k1"
    by (rule deliver_relay_on [OF honest(2) at(2) v(2) lv(1) roles(2) x'(1) b1])
  have b2: "\<forall>c \<in> set up1. wf_cell c \<and> Command c \<in> {CmdRelay, CmdRelayDone} \<and> unat (Length c) \<le> 477"
    by (rule layered_bound [OF m'(2) b0(1)]) simp
  obtain e' up2 where e': "deliver (Suc (Suc (Suc 0))) [e, m, x] (mkCell cid CmdRelay (length w) w) = (up2, [e', m', x'])"
    "list_all2 (layered aes k0) up1 up2" "same_node e e'" "circ_at e' cid (Some 2) k0"
    by (rule deliver_relay_on [OF honest(1) at(1) v(1) lw roles(1) m'(1) b2])
  obtain cs1 dn1 cs2 dn2 where up: "up1 = cs1 @ [dn1]" "up2 = cs2 @ [dn2]"
    "list_all2 (layered aes k1) cs cs1" "layered aes k1 dn dn1" "list_all2 (layered aes k0) cs1 cs2" "layered aes k0 dn1 dn2"
    using m'(2) e'(2) by (auto simp: list_all2_append1 list_all2_Cons1)
  have peel: "list_all2 (\<lambda>c d. Command c = CmdRelay \<and> peel_layers (Decrypt aes) [k0, k1, k2] (cell_data c) = Inr d) cs2 ds"
    using cells(1) up(3,5) peel_back [of aes k2 CmdRelay _ _ k1 _ k0]
    by (fastforce simp: list_all2_conv_all_nth)
  have "length cs2 \<le> length reads" using list_all2_lengthD [OF up(3)] list_all2_lengthD [OF up(5)] cells(4) by simp
  then show ?thesis
    using that [of cs2 dn2 e' m' x' ds] e'(1,3,4) m'(3,4) x'(2,3) peel peel_back [OF cells(2) up(4,6)] up(2) cells(3) by simp
qed

lemma net_sendRequest:
  assumes honest: "honest_hop sm aes e" "honest_hop sm aes m" "honest_hop sm aes x"
    and ready: "circuit_ready hs cid keys [e, m, x]"
    and roles: "rc_Role (rs_cfg (hop_srv e)) \<noteq> ''exit''" "rc_Role (rs_cfg (hop_srv m)) \<noteq> ''exit''"
      "rc_Role (rs_cfg (hop_srv x)) = ''exit''"
    and circ: "circ = \<lparr>cl_CircID = cid, cl_Conn = ([e, m, x], []), cl_Keys = keys, cl_built = t\<rparr>"
    and size: "length host + length req \<le> 417"
    and ex: "resolveHost (hop_exit x) (rs_cfg (hop_srv x)) host = ip" "ip \<noteq> []"
      "ee_dial (hop_exit x) (JoinHostPort ip (dec_nat (unat port))) = Inr origin" "origin req = (False, reads)"
    and time: "length reads < n" "\<forall>i. \<not> ctx i"
  shows "\<exists>hs'. sendRequest net_transport aes rnds ctx n host port req circ =
      ((origin_data reads, None), circ\<lparr>cl_Conn := (hs', [])\<rparr>) \<and> circuit_ready [e, m, x] cid keys hs'"
proof -
  obtain k0 k1 k2 where ks: "keys = [k0, k1, k2]" "\<forall>k \<in> set keys. length k = 32"
    and at: "circ_at e cid (Some 2) k0" "circ_at m cid (Some 2) k1" "circ_at x cid None k2"
    using ready by (auto simp: circuit_ready_def)
  let ?p = "request_payload host port req"
  obtain w where w: "wrap_layers (Encrypt aes) rnds [k0, k1, k2] ?p = Inr w"
    using gcm.wrap_defined [of "[k0, k1, k2]" aes rnds ?p] ks by auto
  have lw: "length w \<le> CellBodyMax" using gcm.wrap_length [OF w] size by simp
  obtain v1 v2 where v: "Decrypt aes k0 w = Inr v1" "Decrypt aes k1 v1 = Inr v2" "Decrypt aes k2 v2 = Inr ?p"
    using gcm.peel_wrap [OF w] by (auto split: sum.splits)
  have hl: "length host < 65536" using size by simp
  obtain e' m' x' cs ds dn where
    net: "deliver (Suc (Suc (Suc 0))) [e, m, x] (mkCell cid CmdRelay (length w) w) = (cs @ [dn], [e', m', x'])"
    and nodes: "same_node e e'" "same_node m m'" "same_node x x'"
      "circ_at e' cid (Some 2) k0" "circ_at m' cid (Some 2) k1" "circ_at x' cid None k2"
    and peel: "list_all2 (\<lambda>c d. Command c = CmdRelay \<and> peel_layers (Decrypt aes) [k0, k1, k2] (cell_data c) = Inr d) cs ds"
      "Command dn = CmdRelayDone" "peel_layers (Decrypt aes) [k0, k1, k2] (cell_data dn) = Inr [0]"
    and ds: "concat ds = origin_data reads" "length cs \<le> length reads"
    by (rule net_request [OF honest at roles v lw hl ex])
  have "response_loop net_transport aes keys ctx n [] ([e', m', x'], cs @ [dn]) = ((origin_data reads, None), ([e', m', x'], []))"
    using response_over_net [OF peel, of n ctx "[]" "[e', m', x']" "[]"] time ds ks(1) by simp
  then have "sendRequest net_transport aes rnds ctx n host port req circ =
      ((origin_data reads, None), circ\<lparr>cl_Conn := ([e', m', x'], [])\<rparr>)"
    using w lw net net_send_step [of "[e, m, x]" _ "cs @ [dn]" "[e', m', x']"] by (simp add: sendRequest_def writeCell_def circ ks(1))
  moreover have "circuit_ready [e, m, x] cid keys [e', m', x']"
    using ks nodes by (simp add: circuit_ready_def)
  ultimately show ?thesis by blast
qed

text \<open>
  A request over a circuit that is ready (as circuit_build_succeeds leaves it) reaches the origin
  and its response comes back complete and in order. If the exit resolves the host and can connect,
  sendRequest returns, without error, exactly the bytes the exit read from the origin in answer
  to the request bytes given to sendRequest, for all nonces and paddings: no cell is
  dropped by any hop although two more layers are added on the way, the done cell ends the loop, and
  the circuit is ready for the next request.
\<close>

theorem request_response_end_to_end:
  assumes honest: "honest_hop sm aes e" "honest_hop sm aes m" "honest_hop sm aes x"
    and ready: "circuit_ready hs cid keys [e, m, x]"
    and roles: "rc_Role (rs_cfg (hop_srv e)) \<noteq> ''exit''" "rc_Role (rs_cfg (hop_srv m)) \<noteq> ''exit''"
      "rc_Role (rs_cfg (hop_srv x)) = ''exit''"
    and circ: "circ = \<lparr>cl_CircID = cid, cl_Conn = ([e, m, x], []), cl_Keys = keys, cl_built = t\<rparr>"
    and size: "length host + length req \<le> 417"
    and ex: "resolveHost (hop_exit x) (rs_cfg (hop_srv x)) host = ip" "ip \<noteq> []"
      "ee_dial (hop_exit x) (JoinHostPort ip (dec_nat (unat port))) = Inr origin" "origin req = (False, reads)"
    and time: "length reads < n" "\<forall>i. \<not> ctx i"
  shows "\<exists>hs'. sendRequest net_transport aes rnds ctx n host port req circ =
      ((origin_data reads, None), circ\<lparr>cl_Conn := (hs', [])\<rparr>) \<and> circuit_ready [e, m, x] cid keys hs'"
  by (rule net_sendRequest [OF assms])

theorem request_response_end_to_end_witness:
  "\<exists>circ hs'. sendRequest net_transport (re_aes sample_env) (\<lambda>_ _. 9) (\<lambda>_. False) 3 ''example'' 80 (bytes_of ''GET /'') circ =
      ((bytes_of ''GET /'' @ [33], None), circ\<lparr>cl_Conn := (hs', [])\<rparr>)"
proof -
  let ?k = "replicate 32 (7 :: byte)"
  let ?at = "\<lambda>h out. h\<lparr>hop_srv := (hop_srv h)\<lparr>rs_circuits := [42 \<mapsto> \<lparr>circ_ID = 42, circ_InConn = 0, circ_OutConn = out, circ_Key = ?k\<rparr>]\<rparr>\<rparr>"
  let ?e = "?at (sample_hop ''e'' ''entry'') (Some 2)" and ?m = "?at (sample_hop ''m'' ''middle'') (Some 2)"
    and ?x = "?at (sample_hop ''x'' ''exit'') None"
  let ?circ = "\<lparr>cl_CircID = 42, cl_Conn = ([?e, ?m, ?x], []), cl_Keys = [?k, ?k, ?k], cl_built = 0\<rparr> :: net ClientCircuit"
  have hon: "honest_hop sample_sm (re_aes sample_env) (?at (sample_hop a r) out)" for a r out
    using sample_hop_honest [of a r] by (simp add: honest_hop_def)
  have ready: "circuit_ready [?e, ?m, ?x] 42 [?k, ?k, ?k] [?e, ?m, ?x]"
    by (simp add: circuit_ready_def same_node_def circ_at_def)
  have rd: "origin_data [(bytes_of ''GET /'', False), ([33], True)] = bytes_of ''GET /'' @ [33]"
    by (simp add: bytes_of_def)
  have "\<exists>hs'. sendRequest net_transport (re_aes sample_env) (\<lambda>_ _. 9) (\<lambda>_. False) 3 ''example'' 80 (bytes_of ''GET /'') ?circ =
      ((origin_data [(bytes_of ''GET /'', False), ([33], True)], None), ?circ\<lparr>cl_Conn := (hs', [])\<rparr>) \<and>
      circuit_ready [?e, ?m, ?x] 42 [?k, ?k, ?k] hs'"
    by (rule request_response_end_to_end [OF hon hon hon ready, where ip = "''1.2.3.4''"
          and origin = "\<lambda>req. (False, [(req, False), ([33], True)])"])
       (simp_all add: sample_hop_def resolveHost_def HasSuffix_def)
  then show ?thesis unfolding rd by blast
qed

end
