(* ===== verification/Server.thy ===== *)
theory Server
  imports Prelude
begin

text \<open>
  The accept loop that \<^verbatim>\<open>serve\<close> of \<^verbatim>\<open>src/relay/main.go\<close>, \<^verbatim>\<open>serve\<close> of \<^verbatim>\<open>src/bridge/main.go\<close>
  and \<^verbatim>\<open>runSOCKS5\<close> of \<^verbatim>\<open>src/client/main.go\<close> share, as a step relation: the signal handler cancels the
  context, a goroutine that waits for that closes the listener, and the loop itself accepts
  connections, retries after an error or returns. A step is labelled with the connection it hands to a
  new handler goroutine, if any. The locale \<open>accepting\<close> is a process built around such a loop.
\<close>

section \<open>The accept loop\<close>

record 'c serving =
  sv_done :: bool            \<comment> \<open>the context is cancelled\<close>
  sv_closed :: bool          \<comment> \<open>the listener is closed\<close>
  sv_running :: bool         \<comment> \<open>the loop has not returned\<close>
  sv_accepted :: "'c list"   \<comment> \<open>connections handed to a handler, in order\<close>

definition serve_start :: "'c serving" where
  "serve_start = \<lparr>sv_done = False, sv_closed = False, sv_running = True, sv_accepted = []\<rparr>"

inductive serve_step :: "'c serving \<Rightarrow> 'c option \<Rightarrow> 'c serving \<Rightarrow> bool" where
  cancel: "serve_step s None (s\<lparr>sv_done := True\<rparr>)"
| close: "sv_done s \<Longrightarrow> serve_step s None (s\<lparr>sv_closed := True\<rparr>)"
| accept: "sv_running s \<Longrightarrow> \<not> sv_closed s \<Longrightarrow> serve_step s (Some c) (s\<lparr>sv_accepted := sv_accepted s @ [c]\<rparr>)"
| retry: "sv_running s \<Longrightarrow> \<not> sv_done s \<Longrightarrow> serve_step s None s"
    \<comment> \<open>\<^verbatim>\<open>Accept\<close> failed and the context is live: \<^verbatim>\<open>continue\<close>\<close>
| stop: "sv_running s \<Longrightarrow> sv_done s \<Longrightarrow> serve_step s None (s\<lparr>sv_running := False\<rparr>)"
    \<comment> \<open>\<^verbatim>\<open>Accept\<close> failed and the context is cancelled: \<^verbatim>\<open>return\<close>\<close>

inductive_cases serve_stepE: "serve_step s l s'"

inductive serve_run :: "'c serving \<Rightarrow> 'c list \<Rightarrow> 'c serving \<Rightarrow> bool" where
  init: "serve_run s [] s"
| step: "serve_run s cs s' \<Longrightarrow> serve_step s' l s'' \<Longrightarrow> serve_run s (cs @ (case l of None \<Rightarrow> [] | Some c \<Rightarrow> [c])) s''"

definition serve_inv :: "'c serving \<Rightarrow> bool" where
  "serve_inv s \<longleftrightarrow> (sv_closed s \<longrightarrow> sv_done s) \<and> (\<not> sv_running s \<longrightarrow> sv_done s)"

lemma serve_start_inv [simp]: "serve_inv serve_start"
  by (simp add: serve_inv_def serve_start_def)

lemma serve_step_inv: "serve_step s l s' \<Longrightarrow> serve_inv s \<Longrightarrow> serve_inv s'"
  by (auto elim!: serve_stepE simp: serve_inv_def)

lemma serve_step_accepted:
  "serve_step s l s' \<Longrightarrow> sv_accepted s' = sv_accepted s @ (case l of None \<Rightarrow> [] | Some c \<Rightarrow> [c])"
  by (auto elim!: serve_stepE)

lemma serve_step_quiet:
  "serve_step s l s' \<Longrightarrow> sv_closed s \<or> \<not> sv_running s \<Longrightarrow> l = None \<and> (sv_closed s' \<or> \<not> sv_running s')"
  by (auto elim!: serve_stepE)

lemma serve_run_inv: "serve_run s cs s' \<Longrightarrow> serve_inv s \<Longrightarrow> serve_inv s' \<and> sv_accepted s' = sv_accepted s @ cs"
proof (induction rule: serve_run.induct)
  case (step s cs s' l s'')
  then show ?case using serve_step_inv serve_step_accepted by fastforce
qed simp

lemma serve_run_quiet:
  "serve_run s cs s' \<Longrightarrow> sv_closed s \<or> \<not> sv_running s \<Longrightarrow> cs = [] \<and> (sv_closed s' \<or> \<not> sv_running s')"
proof (induction rule: serve_run.induct)
  case (step s cs s' l s'')
  then show ?case using serve_step_quiet by fastforce
qed simp

lemma serve_run_closed_retry: "sv_closed s \<Longrightarrow> serve_inv s \<Longrightarrow> sv_running s \<Longrightarrow> serve_step s None (s\<lparr>sv_running := False\<rparr>)"
  by (auto simp: serve_inv_def intro: serve_step.stop)

text \<open>
  The accept loop hands every connection it accepts to exactly one handler, in order; it returns only
  after the context was cancelled; once the listener is closed or the loop has returned no further
  connection is handed out, and a loop on a closed listener can always return.
\<close>

theorem accept_loop_contract:
  assumes "serve_run serve_start cs s"
  shows "sv_accepted s = cs \<and> (\<not> sv_running s \<or> sv_closed s \<longrightarrow> sv_done s) \<and>
     (sv_closed s \<or> \<not> sv_running s \<longrightarrow> (\<forall>cs' s'. serve_run s cs' s' \<longrightarrow> cs' = [])) \<and>
     (sv_closed s \<and> sv_running s \<longrightarrow> serve_step s None (s\<lparr>sv_running := False\<rparr>))"
proof -
  have inv: "serve_inv s" "sv_accepted s = cs" using serve_run_inv [OF assms serve_start_inv] by (simp_all add: serve_start_def)
  have "cs' = []" if "sv_closed s \<or> \<not> sv_running s" "serve_run s cs' s'" for cs' s'
    using serve_run_quiet [OF that(2,1)] by blast
  moreover have "\<not> sv_running s \<or> sv_closed s \<longrightarrow> sv_done s" using inv(1) unfolding serve_inv_def by blast
  ultimately show ?thesis using inv serve_run_closed_retry [of s] by blast
qed

section \<open>Processes with an accept loop\<close>

text \<open>
  What a process owes its accept loop: each of its steps leaves the loop alone or is a step of the loop. The relay, the
  bridge and the SOCKS5 proxy are interpretations.
\<close>

locale accepting =
  fixes step :: "'p \<Rightarrow> 'p \<Rightarrow> bool" and serving :: "'p \<Rightarrow> 'c serving"
  assumes step_serving: "step p p' \<Longrightarrow> serving p' = serving p \<or> (\<exists>l. serve_step (serving p) l (serving p'))"
begin

lemma steps_serve_run: "step\<^sup>*\<^sup>* p p' \<Longrightarrow> \<exists>cs. serve_run (serving p) cs (serving p')"
proof (induction rule: rtranclp_induct)
  case base
  show ?case using serve_run.init by blast
next
  case (step q r)
  then show ?case using step_serving [OF step(2)] by (metis serve_run.step)
qed

lemma quiet_after_close:
  assumes "step\<^sup>*\<^sup>* p p'" "serve_inv (serving p)" "sv_closed (serving p) \<or> \<not> sv_running (serving p)"
  shows "sv_accepted (serving p') = sv_accepted (serving p)"
  using steps_serve_run [OF assms(1)] serve_run_quiet [OF _ assms(3)] serve_run_inv [OF _ assms(2)] by fastforce

lemma steps_inv: "step\<^sup>*\<^sup>* p p' \<Longrightarrow> serve_inv (serving p) \<Longrightarrow> serve_inv (serving p')"
  using steps_serve_run serve_run_inv by blast

end

interpretation loop: accepting "\<lambda>s s'. \<exists>l. serve_step s l s'" id
  by unfold_locales auto

end
