(* ===== verification/Relay_Run.thy ===== *)
theory Relay_Run
  imports Network Server "HOL-Library.Sublist"
begin

text \<open>
  The relay as a process: the goroutines of \<^verbatim>\<open>src/relay/main.go\<close> interleaved on one server state. The
  accept loop of \<^verbatim>\<open>serve\<close> starts a handler per connection; a handler reads a cell, lets
  \<^verbatim>\<open>handleCell\<close> change the state and then performs its writes one by one, while
  forwarding goroutines, exit goroutines, the idle sweep and other handlers do theirs. A write of a
  cell is one call of \<^verbatim>\<open>conn.Write\<close> and therefore atomic. The log lists what was written and closed, with
  the goroutine that did it; \<open>rp_born\<close> remembers how a goroutine was started.
\<close>

section \<open>The process\<close>

datatype goroutine =
    Handshaking conn_id conn
  | Handling conn_id "relay_event list" bytes   \<comment> \<open>writes still to do, then the unread input\<close>
  | Forwarding Circuit bytes
  | Writing "relay_event list"                  \<comment> \<open>an exit request or an idle sweep\<close>
  | Ended

record relay_proc =
  rp_srv :: relayServer
  rp_serve :: "(conn_id \<times> conn) serving"
  rp_gs :: "nat \<rightharpoonup> goroutine"
  rp_born :: "nat \<rightharpoonup> goroutine"
  rp_log :: "(nat \<times> relay_event) list"

definition relay_start :: "relayServer \<Rightarrow> relay_proc" where
  "relay_start s = \<lparr>rp_srv = s, rp_serve = serve_start, rp_gs = Map.empty, rp_born = Map.empty, rp_log = []\<rparr>"

definition go_start :: "nat \<Rightarrow> goroutine \<Rightarrow> relay_proc \<Rightarrow> relay_proc" where
  "go_start g b p = p\<lparr>rp_gs := (rp_gs p)(g \<mapsto> b), rp_born := (rp_born p)(g \<mapsto> b)\<rparr>"

definition go_on :: "nat \<Rightarrow> goroutine \<Rightarrow> relay_proc \<Rightarrow> relay_proc" where
  "go_on g b p = p\<lparr>rp_gs := (rp_gs p)(g \<mapsto> b)\<rparr>"

definition emit :: "nat \<Rightarrow> relay_event \<Rightarrow> relay_proc \<Rightarrow> relay_proc" where
  "emit g e p = p\<lparr>rp_log := rp_log p @ [(g, e)]\<rparr>"

fun is_output :: "relay_event \<Rightarrow> bool" where
  "is_output (SendCell k c) = True"
| "is_output (CloseConn k) = True"
| "is_output _ = False"

inductive relay_run_step :: "block_cipher \<Rightarrow> relay_proc \<Rightarrow> relay_proc \<Rightarrow> bool" for aes where
  serve: "serve_step (rp_serve p) None sv \<Longrightarrow> relay_run_step aes p (p\<lparr>rp_serve := sv\<rparr>)"
| accept: "serve_step (rp_serve p) (Some (k, c)) sv \<Longrightarrow> k \<notin> fst ` set (sv_accepted (rp_serve p)) \<Longrightarrow> rp_gs p g = None \<Longrightarrow>
     relay_run_step aes p (go_start g (Handshaking k c) (p\<lparr>rp_serve := sv\<rparr>))"
| handshake_failed: "rp_gs p g = Some (Handshaking k c) \<Longrightarrow> (obfs :: conn \<Rightarrow> obfs_error option \<times> conn) c = (Some e, c') \<Longrightarrow>
     relay_run_step aes p (emit g (CloseConn k) (go_on g Ended p))"
| handshake: "rp_gs p g = Some (Handshaking k c) \<Longrightarrow> (obfs :: conn \<Rightarrow> obfs_error option \<times> conn) c = (None, c') \<Longrightarrow>
     relay_run_step aes p (go_on g (Handling k [] (inbox c')) p)"
| cell: "rp_gs p g = Some (Handling k [] bs) \<Longrightarrow> ReadCell tcp_readFull bs = (Inr c, bs') \<Longrightarrow> re_aes env = aes \<Longrightarrow>
     handleCell env now c k (rp_srv p) = Some (Inr (evs, s')) \<Longrightarrow>
     relay_run_step aes p (go_on g (Handling k evs bs') (p\<lparr>rp_srv := s'\<rparr>))"
| handler_write: "rp_gs p g = Some (Handling k (e # es) bs) \<Longrightarrow> is_output e \<Longrightarrow>
     relay_run_step aes p (emit g e (go_on g (Handling k es bs) p))"
| spawn_forward: "rp_gs p g = Some (Handling k (SpawnForward circ # es) bs) \<Longrightarrow> rp_gs p g' = None \<Longrightarrow>
     relay_run_step aes p (go_start g' (Forwarding circ stream) (go_on g (Handling k es bs) p))"
| spawn_exit: "rp_gs p g = Some (Handling k (SpawnExit circ payload # es) bs) \<Longrightarrow> rp_gs p g' = None \<Longrightarrow> ee_aes xenv = aes \<Longrightarrow>
     relay_run_step aes p (go_start g' (Writing (handleExitRelay xenv (rs_cfg (rp_srv p)) circ payload))
       (go_on g (Handling k es bs) p))"
| conn_end: "rp_gs p g = Some (Handling k [] bs) \<Longrightarrow>
     relay_run_step aes p (emit g (CloseConn k) (go_on g Ended p))"
    \<comment> \<open>a read error, the read deadline or the cancelled context\<close>
| forward: "rp_gs p g = Some (Forwarding circ bs) \<Longrightarrow> ReadCell tcp_readFull bs = (Inr c, bs') \<Longrightarrow>
     forward_cell aes rnd circ c = Some c' \<Longrightarrow>
     relay_run_step aes p (emit g (writeIn circ c') (go_on g (Forwarding circ bs') p))"
| forward_end: "rp_gs p g = Some (Forwarding circ bs) \<Longrightarrow> relay_run_step aes p (go_on g Ended p)"
    \<comment> \<open>a read error, a closed connection or a cell that cannot take another layer\<close>
| task_write: "rp_gs p g = Some (Writing (e # es)) \<Longrightarrow> relay_run_step aes p (emit g e (go_on g (Writing es) p))"
| task_end: "rp_gs p g = Some (Writing []) \<Longrightarrow> relay_run_step aes p (go_on g Ended p)"
| sweep: "set order = dom (lastSeen (rs_timeout (rp_srv p))) \<Longrightarrow> idle_tick now order (rp_srv p) = (evs, s') \<Longrightarrow> rp_gs p g = None \<Longrightarrow>
     relay_run_step aes p (go_start g (Writing evs) (p\<lparr>rp_srv := s'\<rparr>))"

inductive relay_run :: "block_cipher \<Rightarrow> relay_proc \<Rightarrow> bool" for aes where
  start: "newRelayServer sm rnd wfail cfg fs = (Inr s, fs') \<Longrightarrow> relay_run aes (relay_start s)"
| step: "relay_run aes p \<Longrightarrow> relay_run_step aes p p' \<Longrightarrow> relay_run aes p'"

inductive_cases relay_run_stepE: "relay_run_step aes p p'"

definition own :: "nat \<Rightarrow> relay_proc \<Rightarrow> relay_event list" where
  \<comment> \<open>what one goroutine wrote\<close>
  "own g p = map snd (filter (\<lambda>(g', e). g' = g) (rp_log p))"

definition written_to :: "conn_id \<Rightarrow> relay_proc \<Rightarrow> Cell list" where
  "written_to k p = sent_to k (map snd (rp_log p))"

lemma go_simps [simp]:
  "rp_srv (go_start g b p) = rp_srv p" "rp_srv (go_on g b p) = rp_srv p" "rp_srv (emit g e p) = rp_srv p"
  "rp_serve (go_start g b p) = rp_serve p" "rp_serve (go_on g b p) = rp_serve p" "rp_serve (emit g e p) = rp_serve p"
  "rp_gs (go_start g b p) = (rp_gs p)(g \<mapsto> b)" "rp_gs (go_on g b p) = (rp_gs p)(g \<mapsto> b)" "rp_gs (emit g e p) = rp_gs p"
  "rp_born (go_start g b p) = (rp_born p)(g \<mapsto> b)" "rp_born (go_on g b p) = rp_born p" "rp_born (emit g e p) = rp_born p"
  "rp_log (go_start g b p) = rp_log p" "rp_log (go_on g b p) = rp_log p" "rp_log (emit g e p) = rp_log p @ [(g, e)]"
  by (simp_all add: go_start_def go_on_def emit_def)

lemma own_simps [simp]:
  "own g (go_start g' b p) = own g p" "own g (go_on g' b p) = own g p"
  "own g (emit g' e p) = own g p @ (if g' = g then [e] else [])"
  "own g (p\<lparr>rp_srv := s\<rparr>) = own g p" "own g (p\<lparr>rp_serve := sv\<rparr>) = own g p"
  by (simp_all add: own_def)

section \<open>Every cell the relay writes is well formed\<close>

fun wf_event :: "relay_event \<Rightarrow> bool" where
  "wf_event (SendCell k c) = wf_cell c"
| "wf_event _ = True"

lemma wf_mkCell_small [simp]: "n \<le> 505 \<Longrightarrow> wf_cell (mkCell cid cmd n src)"
  by (simp add: wf_mkCell)

lemma destroyCircuit_events_wf: "list_all wf_event (fst (destroyCircuit cid s))"
  by (simp add: destroyCircuit_def split: option.splits)

lemma destroy_all_events_wf: "list_all wf_event (fst (destroy_all cids s))"
  by (induction cids arbitrary: s) (simp_all add: split_beta destroyCircuit_events_wf)

lemma idle_tick_events_wf: "idle_tick now order s = (evs, s') \<Longrightarrow> list_all wf_event evs"
  unfolding idle_tick_def Let_def split_beta using destroy_all_events_wf by (metis fst_conv)

lemma extend_next_events_wf: "list_all wf_event (fst (extend_next env cid circ conn payload s))"
  by (simp add: extend_next_def Let_def split: option.splits prod.splits sum.splits)

lemma handleExtend_events_wf: "handleExtend env c conn s = Inr (evs, s') \<Longrightarrow> list_all wf_event evs"
  using extend_next_events_wf [of env "CircID c" _ conn _ s]
  by (auto simp: handleExtend_def split: option.splits sum.splits if_splits) (metis fst_conv)

lemma dispatch_events_wf:
  assumes wf: "wf_cell c" and d: "dispatch env c conn s = Inr (evs, s')"
  shows "list_all wf_event evs"
proof -
  have create: "list_all wf_event (fst (handleCreate env c conn s))" by (simp add: handleCreate_def split_beta Let_def)
  have relay: "list_all wf_event evs" if "handleRelay env c s = Inr (evs, s')"
    using that decrypt_bound [OF wf] wf by (auto simp: handleRelay_def split: option.splits sum.splits if_splits) force+
  have ping: "list_all wf_event evs" if "handlePing c conn s = Inr (evs, s')"
    using that wf by (auto simp: handlePing_def wf_cell_def wf_mkCell split: sum.splits)
  show ?thesis
    using d create relay ping handleExtend_events_wf [of env c conn s evs s'] destroyCircuit_events_wf [of "CircID c" s]
    by (auto simp: dispatch_def split: if_splits dest: arg_cong [where f = fst])
qed

lemma handleCell_events_wf:
  assumes wf: "wf_cell c" and h: "handleCell env now c conn s = Some (Inr (evs, s'))"
  shows "list_all wf_event evs"
proof -
  let ?s = "s\<lparr>rs_timeout := Touch now (CircID c) (rs_timeout s)\<rparr>"
  obtain r s2 where r: "reassemble c ?s = Some (Inr (r, s2))"
    using h by (auto simp: handleCell_def Let_def split: option.splits sum.splits)
  show ?thesis
  proof (cases r)
    case (Some c')
    then have "dispatch env c' conn s2 = Inr (evs, s')" using h r by (simp add: handleCell_def Let_def)
    then show ?thesis using dispatch_events_wf reassemble_wf [OF _ wf] r Some by blast
  qed (use h r in \<open>simp add: handleCell_def Let_def\<close>)
qed

lemma exit_reply_wf: "exit_reply aes rnd circ cmd plain = Some e \<Longrightarrow> wf_event e"
  by (auto simp: exit_reply_def writeIn_def split: sum.splits if_splits)

lemma exit_loop_events_wf: "list_all wf_event (exit_loop aes rnds circ reads)"
  by (induction aes rnds circ reads rule: exit_loop.induct)
     (auto simp: Let_def split: option.splits dest: exit_reply_wf)

lemma handleExitRelay_events_wf: "list_all wf_event (handleExitRelay env cfg circ payload)"
proof -
  have d: "list_all wf_event (sendDone aes rnd c)" "list_all wf_event (sendExitError aes rnd c msg)" for aes rnd c msg
    by (auto simp: sendDone_def sendExitError_def split: option.splits dest: exit_reply_wf)
  show ?thesis by (simp add: handleExitRelay_def Let_def d exit_loop_events_wf split: sum.splits prod.splits)
qed

lemma forward_cell_wf: "forward_cell aes rnd circ c = Some c' \<Longrightarrow> wf_cell c \<Longrightarrow> wf_cell c'"
  by (auto simp: forward_cell_def wf_cell_def split: if_splits sum.splits)

fun wf_goroutine :: "goroutine \<Rightarrow> bool" where
  "wf_goroutine (Handling k evs bs) = list_all wf_event evs"
| "wf_goroutine (Writing evs) = list_all wf_event evs"
| "wf_goroutine _ = True"

definition wf_proc :: "relay_proc \<Rightarrow> bool" where
  "wf_proc p \<longleftrightarrow> list_all (\<lambda>(g, e). wf_event e) (rp_log p) \<and> (\<forall>b \<in> ran (rp_gs p). wf_goroutine b)"

lemma wf_procD: "wf_proc p \<Longrightarrow> rp_gs p g = Some b \<Longrightarrow> wf_goroutine b"
  by (auto simp: wf_proc_def ran_def)

lemma wf_proc_upd:
  assumes "wf_proc p" "wf_goroutine b"
  shows "wf_proc (go_start g b p)" "wf_proc (go_on g b p)"
  using assms by (auto simp: wf_proc_def ran_def split: if_splits)

lemma wf_proc_emit: "wf_proc p \<Longrightarrow> wf_event e \<Longrightarrow> wf_proc (emit g e p)"
  by (simp add: wf_proc_def)

lemma wf_proc_frame [simp]: "wf_proc (p\<lparr>rp_srv := s\<rparr>) = wf_proc p" "wf_proc (p\<lparr>rp_serve := sv\<rparr>) = wf_proc p"
  by (simp_all add: wf_proc_def)

lemmas wf_proc_intros = wf_proc_upd wf_proc_emit

lemma relay_run_step_wf:
  assumes "relay_run_step aes p p'" "wf_proc p"
  shows "wf_proc p'"
  using assms(1)
proof cases
  case (cell g k bs c bs' env now evs s')
  then have "wf_cell c" using tcp.ReadCell_result_wf by blast
  then show ?thesis using cell assms(2) handleCell_events_wf by (simp add: wf_proc_intros)
next
  case (forward g circ bs c bs' rnd c')
  then have "wf_cell c'" using tcp.ReadCell_result_wf forward_cell_wf by blast
  then show ?thesis using forward assms(2) by (simp add: wf_proc_intros writeIn_def)
next
  case (sweep order now evs s' g)
  then show ?thesis using assms(2) idle_tick_events_wf by (simp add: wf_proc_intros)
qed (use assms(2) in \<open>auto simp: handleExitRelay_events_wf intro!: wf_proc_intros dest: wf_procD\<close>)

lemma relay_run_wf: "relay_run aes p \<Longrightarrow> wf_proc p"
proof (induction rule: relay_run.induct)
  case (start sm rnd wfail cfg fs s fs')
  show ?case by (simp add: wf_proc_def relay_start_def)
qed (rule relay_run_step_wf)

lemma sent_to_wf: "list_all wf_event evs \<Longrightarrow> c \<in> set (sent_to k evs) \<Longrightarrow> wf_cell c"
  by (induction k evs rule: sent_to.induct) (auto split: if_splits)

text \<open>
  C5: Whatever the peers send and however the relay's goroutines are interleaved, every cell it writes is well formed: the
  length field stays inside the body, so nothing is cut off by MarshalCell. The bytes on any
  connection, with any padding, are therefore read back by the peer as exactly the cells that all goroutines
  together wrote to it, in the order of their writes.
\<close>

theorem relay_output_well_typed:
  assumes "relay_run aes p" "length pads = length (written_to k p)"
  shows "list_all wf_cell (written_to k p) \<and>
     (\<exists>e rest. read_cells (Suc (length pads)) tcp_readFull
        (concat (map (\<lambda>((r, rnd), c). MarshalCell r rnd c) (zip pads (written_to k p)))) =
        (map canon_cell (written_to k p), Some e, rest)) \<and>
     list_all (\<lambda>c. cell_data (canon_cell c) = cell_data c \<and> Length (canon_cell c) = Length c) (written_to k p)"
proof -
  have "list_all wf_event (map snd (rp_log p))"
    using relay_run_wf [OF assms(1)] by (simp add: wf_proc_def list_all_iff split_beta)
  then have wf: "\<forall>c \<in> set (written_to k p). wf_cell c" unfolding written_to_def using sent_to_wf by blast
  let ?ms = "map (\<lambda>((r, rnd), c). (r, rnd, c)) (zip pads (written_to k p))"
  have "\<forall>(r, rnd, c) \<in> set ?ms. length (Body c) = CellBodyMax"
    using wf by (auto simp: wf_cell_def dest: set_zip_rightD)
  from tcp.read_cells_all [OF this refl, of "Suc (length pads)"] assms(2)
  have r: "\<exists>e rest. read_cells (Suc (length pads)) tcp_readFull
      (concat (map (\<lambda>(r, rnd, c). MarshalCell r rnd c) ?ms)) = (map (\<lambda>(r, rnd, c). canon_cell c) ?ms, Some e, rest)"
    by simp
  have m: "map (\<lambda>(r, rnd, c). canon_cell c) ?ms = map canon_cell (written_to k p)"
    "map (\<lambda>(r, rnd, c). MarshalCell r rnd c) ?ms = map (\<lambda>((r, rnd), c). MarshalCell r rnd c) (zip pads (written_to k p))"
    using assms(2) by (auto intro!: nth_equalityI simp: split_beta)
  have "list_all (\<lambda>c. cell_data (canon_cell c) = cell_data c \<and> Length (canon_cell c) = Length c) (written_to k p)"
    using wf by (auto simp: list_all_iff canon_cell_alt cell_data_def wf_cell_def body_len_def)
  moreover have "list_all wf_cell (written_to k p)" using wf by (simp add: list_all_iff)
  ultimately show ?thesis using r [unfolded m] by blast
qed

section \<open>Interleaving does not change what a goroutine writes\<close>

fun reads_to :: "bytes \<Rightarrow> Cell list \<Rightarrow> bytes \<Rightarrow> bool" where
  \<comment> \<open>reading the cells leaves the rest of the stream\<close>
  "reads_to bs [] rest = (rest = bs)"
| "reads_to bs (c # cs) rest = (\<exists>bs'. ReadCell tcp_readFull bs = (Inr c, bs') \<and> reads_to bs' cs rest)"

lemma reads_to_snoc:
  "reads_to bs cs rest \<Longrightarrow> ReadCell tcp_readFull rest = (Inr c, rest') \<Longrightarrow> reads_to bs (cs @ [c]) rest'"
  by (induction cs arbitrary: bs) auto

lemma reads_to_read_cells:
  "reads_to bs cs rest \<Longrightarrow> length cs \<le> fuel \<Longrightarrow> prefix cs (fst (read_cells fuel tcp_readFull bs))"
proof (induction cs arbitrary: bs fuel)
  case (Cons c cs)
  then obtain n bs' where "fuel = Suc n" "ReadCell tcp_readFull bs = (Inr c, bs')" "reads_to bs' cs rest" by (cases fuel) auto
  with Cons.IH [of bs' n] Cons.prems show ?case by (simp add: split_beta)
qed simp

lemma reads_to_length: "reads_to bs cs rest \<Longrightarrow> length cs \<le> length bs"
proof (induction cs arbitrary: bs)
  case (Cons c cs)
  then obtain bs' where "ReadCell tcp_readFull bs = (Inr c, bs')" "reads_to bs' cs rest" by auto
  with Cons.IH [of bs'] tcp.ReadCell_consumes [of bs c bs'] show ?case by fastforce
qed simp

lemma forward_loop_prefix:
  "list_all2 (\<lambda>c c'. \<exists>rnd. forward_cell aes rnd circ c = Some c') cs out \<Longrightarrow> prefix cs ds \<Longrightarrow>
   \<exists>rnds. prefix (map (writeIn circ) out) (forward_loop aes rnds circ ds)"
proof (induction cs out arbitrary: ds rule: list_all2_induct)
  case (Cons c cs c' out)
  obtain rnd where rnd: "forward_cell aes rnd circ c = Some c'" using Cons.hyps by blast
  obtain es where es: "ds = c # es" "prefix cs es" using Cons.prems by (cases ds) auto
  note h = rnd es
  from Cons.IH [OF h(3)] obtain rnds where "prefix (map (writeIn circ) out) (forward_loop aes rnds circ es)" by blast
  then show ?case using h by (intro exI [of _ "case_nat rnd rnds"]) simp
qed simp

definition forwarded :: "block_cipher \<Rightarrow> Circuit \<Rightarrow> bytes \<Rightarrow> relay_event list \<Rightarrow> bytes \<Rightarrow> bool" where
  \<comment> \<open>the forwarder has read the stream up to \<open>rest\<close> and written \<open>evs\<close>\<close>
  "forwarded aes circ bs evs rest \<longleftrightarrow> (\<exists>cs out. reads_to bs cs rest \<and> evs = map (writeIn circ) out \<and>
     list_all2 (\<lambda>c c'. \<exists>rnd. forward_cell aes rnd circ c = Some c') cs out)"

lemma forwarded_step:
  assumes "forwarded aes circ bs evs rest" "ReadCell tcp_readFull rest = (Inr c, rest')" "forward_cell aes rnd circ c = Some c'"
  shows "forwarded aes circ bs (evs @ [writeIn circ c']) rest'"
proof -
  from assms(1) obtain cs out where "reads_to bs cs rest" "evs = map (writeIn circ) out"
    "list_all2 (\<lambda>c c'. \<exists>rnd. forward_cell aes rnd circ c = Some c') cs out" unfolding forwarded_def by blast
  then show ?thesis
    unfolding forwarded_def using assms(2,3) reads_to_snoc
    by (intro exI [of _ "cs @ [c]"] exI [of _ "out @ [c']"]) (auto intro: list_all2_appendI)
qed

lemma forwarded_prefix: "forwarded aes circ bs evs rest \<Longrightarrow> \<exists>rnds. prefix evs (forwardCells aes rnds circ bs)"
  unfolding forwarded_def forwardCells_def
  using forward_loop_prefix [OF _ reads_to_read_cells [OF _ reads_to_length]] by fast

fun traced :: "block_cipher \<Rightarrow> goroutine \<Rightarrow> goroutine \<Rightarrow> relay_event list \<Rightarrow> bool" where
  \<comment> \<open>a goroutine's start, its present state and what it has written\<close>
  "traced aes (Forwarding circ bs) now evs =
     (\<exists>rest. forwarded aes circ bs evs rest \<and> (now = Forwarding circ rest \<or> now = Ended))"
| "traced aes (Writing all) now evs =
     ((\<exists>rest. all = evs @ rest \<and> now = Writing rest) \<or> now = Ended \<and> all = evs)"
| "traced aes (Handshaking k c) now evs =
     (now = Handshaking k c \<and> evs = [] \<or> (\<exists>es bs. now = Handling k es bs) \<or> now = Ended)"
| "traced aes b now evs = False"

definition trace_ok :: "block_cipher \<Rightarrow> relay_proc \<Rightarrow> bool" where
  "trace_ok aes p \<longleftrightarrow> (\<forall>g. rp_gs p g = None \<longrightarrow> rp_born p g = None \<and> own g p = []) \<and>
     (\<forall>g now. rp_gs p g = Some now \<longrightarrow> (\<exists>b. rp_born p g = Some b \<and> traced aes b now (own g p)))"

lemma trace_okD:
  "trace_ok aes p \<Longrightarrow> rp_gs p g = Some now \<Longrightarrow> \<exists>b. rp_born p g = Some b \<and> traced aes b now (own g p)"
  unfolding trace_ok_def by blast

lemma trace_ok_None: "trace_ok aes p \<Longrightarrow> rp_gs p g = None \<Longrightarrow> rp_born p g = None \<and> own g p = []"
  unfolding trace_ok_def by blast

lemma trace_ok_start:
  assumes "trace_ok aes p" "rp_gs p g = None" "traced aes b b []"
  shows "trace_ok aes (go_start g b p)"
  using assms trace_ok_None [OF assms(1,2)] unfolding trace_ok_def by auto

lemma trace_ok_on:
  assumes "trace_ok aes p" "rp_gs p g = Some now" "\<And>b. traced aes b now (own g p) \<Longrightarrow> traced aes b now' (own g p)"
  shows "trace_ok aes (go_on g now' p)"
  using assms(1,2) trace_okD [OF assms(1,2)] assms(3) unfolding trace_ok_def by (auto; blast)

lemma trace_ok_emit:
  assumes "trace_ok aes p" "rp_gs p g = Some now" "\<And>b. traced aes b now (own g p) \<Longrightarrow> traced aes b now' (own g p @ [e])"
  shows "trace_ok aes (emit g e (go_on g now' p))"
  using assms(1,2) trace_okD [OF assms(1,2)] assms(3) unfolding trace_ok_def by (auto; blast)

lemma trace_ok_frame [simp]:
  "trace_ok aes (p\<lparr>rp_srv := s\<rparr>) = trace_ok aes p" "trace_ok aes (p\<lparr>rp_serve := sv\<rparr>) = trace_ok aes p"
  by (simp_all add: trace_ok_def)

lemma traced_now:
  "traced aes b (Forwarding circ rest) evs \<longleftrightarrow> (\<exists>bs. b = Forwarding circ bs \<and> forwarded aes circ bs evs rest)"
  "traced aes b (Writing es) evs \<longleftrightarrow> b = Writing (evs @ es)"
  "traced aes b (Handling k es bs) evs \<longleftrightarrow> (\<exists>c. b = Handshaking k c)"
  by (cases b; auto)+

lemma relay_run_step_trace:
  assumes "relay_run_step aes p p'" "trace_ok aes p"
  shows "trace_ok aes p'"
  using assms(1)
proof cases
  case (accept k c sv g)
  then show ?thesis using assms(2) by (auto intro: trace_ok_start)
next
  case (cell g k bs c bs' env now evs s')
  then show ?thesis using assms(2) trace_ok_on [of aes "p\<lparr>rp_srv := s'\<rparr>" g "Handling k [] bs"] by (simp add: traced_now)
next
  case (spawn_forward g k circ es bs g' stream)
  have "trace_ok aes (go_on g (Handling k es bs) p)"
    by (rule trace_ok_on [OF assms(2) spawn_forward(2)]) (simp add: traced_now)
  then show ?thesis unfolding spawn_forward(1)
    by (rule trace_ok_start) (use spawn_forward in \<open>auto simp: forwarded_def intro: exI [of _ "[]"]\<close>)
next
  case (spawn_exit g k circ payload es bs g' xenv)
  have "trace_ok aes (go_on g (Handling k es bs) p)"
    by (rule trace_ok_on [OF assms(2) spawn_exit(2)]) (simp add: traced_now)
  then show ?thesis unfolding spawn_exit(1) by (rule trace_ok_start) (use spawn_exit in auto)
next
  case (forward g circ bs c bs' rnd c')
  show ?thesis unfolding forward(1)
    by (rule trace_ok_emit [OF assms(2) forward(2)]) (use forward forwarded_step in \<open>auto simp: traced_now\<close>)
next
  case (task_write g e es)
  show ?thesis unfolding task_write(1) by (rule trace_ok_emit [OF assms(2) task_write(2)]) (simp add: traced_now)
next
  case (sweep order now evs s' g)
  then show ?thesis using assms(2) by (auto intro: trace_ok_start)
qed (use assms(2) in \<open>auto simp: traced_now intro!: trace_ok_emit trace_ok_on elim!: traced.elims\<close>)

lemma relay_run_trace: "relay_run aes p \<Longrightarrow> trace_ok aes p"
proof (induction rule: relay_run.induct)
  case (start sm rnd wfail cfg fs s fs')
  show ?case by (simp add: trace_ok_def relay_start_def own_def)
qed (rule relay_run_step_trace)

lemma relay_run_server: "relay_run aes p \<Longrightarrow> relay_reachable (rp_srv p)"
proof (induction rule: relay_run.induct)
  case (start sm rnd wfail cfg fs s fs')
  then show ?case by (simp add: relay_start_def relay_reachable.start)
next
  case (step p p')
  have "rp_srv p' = rp_srv p \<or> (\<exists>evs. relay_step (rp_srv p) evs (rp_srv p'))"
    using step(2) by (elim relay_run_stepE; simp) (blast intro: relay_step.intros dest: tcp.ReadCell_result_wf)+
  then show ?case using step(3) relay_reachable.step by metis
qed

definition handlers_ok :: "relay_proc \<Rightarrow> bool" where
  "handlers_ok p \<longleftrightarrow> distinct (map fst (sv_accepted (rp_serve p))) \<and>
     (\<forall>g k c. rp_born p g = Some (Handshaking k c) \<longrightarrow> (k, c) \<in> set (sv_accepted (rp_serve p))) \<and>
     (\<forall>kc \<in> set (sv_accepted (rp_serve p)). \<exists>!g. rp_born p g = Some (Handshaking (fst kc) (snd kc)))"

lemma handlers_ok_frame [simp]:
  "handlers_ok (go_on g b p) = handlers_ok p" "handlers_ok (emit g e p) = handlers_ok p"
  "handlers_ok (p\<lparr>rp_srv := s\<rparr>) = handlers_ok p"
  by (simp_all add: handlers_ok_def)

lemma handlers_ok_start:
  assumes "handlers_ok p" "rp_born p g = None" "\<forall>k c. b \<noteq> Handshaking k c"
  shows "handlers_ok (go_start g b p)"
proof -
  have "rp_born (go_start g b p) h = Some (Handshaking k c) \<longleftrightarrow> rp_born p h = Some (Handshaking k c)" for h k c
    using assms(2,3) by (auto split: if_splits)
  with assms(1) show ?thesis unfolding handlers_ok_def by simp
qed

lemma handlers_ok_accept:
  assumes "handlers_ok p" "k \<notin> fst ` set (sv_accepted (rp_serve p))" "rp_born p g = None"
    and "sv_accepted sv = sv_accepted (rp_serve p) @ [(k, c)]"
  shows "handlers_ok (go_start g (Handshaking k c) (p\<lparr>rp_serve := sv\<rparr>))"
proof -
  let ?p = "go_start g (Handshaking k c) (p\<lparr>rp_serve := sv\<rparr>)"
  have born: "rp_born ?p h = Some (Handshaking k' c') \<longleftrightarrow>
      rp_born p h = Some (Handshaking k' c') \<or> h = g \<and> k' = k \<and> c' = c" for h k' c'
    using assms(3) by auto
  have new: "rp_born p h \<noteq> Some (Handshaking k c')" for h c'
    using assms(1,2) unfolding handlers_ok_def by force
  have "\<exists>!h. rp_born ?p h = Some (Handshaking (fst kc) (snd kc))" if "kc \<in> set (sv_accepted sv)" for kc
  proof (cases "kc = (k, c)")
    case True
    then show ?thesis unfolding born using new by auto
  next
    case False
    then have "kc \<in> set (sv_accepted (rp_serve p))" using that assms(4) by auto
    then have "\<exists>!h. rp_born p h = Some (Handshaking (fst kc) (snd kc))" using assms(1) unfolding handlers_ok_def by blast
    with False show ?thesis unfolding born by (cases kc) auto
  qed
  then show ?thesis using assms unfolding handlers_ok_def born by auto
qed

lemma relay_run_handlers: "relay_run aes p \<Longrightarrow> handlers_ok p"
proof (induction rule: relay_run.induct)
  case (start sm rnd wfail cfg fs s fs')
  show ?case by (simp add: handlers_ok_def relay_start_def serve_start_def)
next
  case (step p p')
  note fresh = trace_ok_None [OF relay_run_trace [OF step(1)]]
  from step(2) show ?case
  proof cases
    case (accept k c sv g)
    have "sv_accepted sv = sv_accepted (rp_serve p) @ [(k, c)]" using serve_step_accepted [OF accept(2)] by simp
    then show ?thesis unfolding accept(1) using handlers_ok_accept [OF step(3) accept(3)] fresh [OF accept(4)] by blast
  next
    case (serve sv)
    then show ?thesis using step(3) serve_step_accepted [of "rp_serve p" None sv] by (simp add: handlers_ok_def)
  qed (use step(3) fresh in \<open>auto intro!: handlers_ok_start\<close>)
qed


interpretation relay_srv: accepting "relay_run_step aes" rp_serve
  by unfold_locales (auto elim!: relay_run_stepE)

lemma relay_run_serve_inv: "relay_run aes p \<Longrightarrow> serve_inv (rp_serve p)"
proof (induction rule: relay_run.induct)
  case (start sm rnd wfail cfg fs s fs')
  show ?case by (simp add: relay_start_def)
next
  case (step p p')
  then show ?case using relay_srv.steps_inv by blast
qed

lemma sample_run:
  "\<exists>p c. relay_run (re_aes sample_env) p \<and> written_to 4 p = [mkCell 9 CmdPong 3 [1, 2, 3]] \<and>
     sv_accepted (rp_serve p) = [(4, c)]"
proof -
  let ?ping = "mkCell 9 CmdPing 3 [1, 2, 3]" and ?pong = "mkCell 9 CmdPong 3 [1, 2, 3]"
  let ?c = "\<lparr>inbox = MarshalCell 5 (\<lambda>_. 0) ?ping, outbox = []\<rparr>"
  obtain s fs where s: "newRelayServer (\<lambda>k u. k) (\<lambda>_. 1) False sample_relay_cfg Map.empty = (Inr s, fs)"
    by (simp add: newRelayServer_def LoadOrCreateX25519_def read_hex_key_def Let_def)
  let ?p0 = "relay_start s"
  have r0: "relay_run (re_aes sample_env) ?p0" by (rule relay_run.start [OF s])
  let ?sv = "serve_start\<lparr>sv_accepted := [(4, ?c)]\<rparr>"
  let ?p1 = "go_start 0 (Handshaking 4 ?c) (?p0\<lparr>rp_serve := ?sv\<rparr>)"
  have "serve_step serve_start (Some (4, ?c)) ?sv"
    using serve_step.accept [of serve_start "(4, ?c)"] by (simp add: serve_start_def)
  then have "relay_run_step (re_aes sample_env) ?p0 ?p1"
    by (intro relay_run_step.accept) (simp_all add: relay_start_def serve_start_def)
  with r0 have r1: "relay_run (re_aes sample_env) ?p1" by (rule relay_run.step)
  let ?p2 = "go_on 0 (Handling 4 [] (inbox ?c)) ?p1"
  have "relay_run_step (re_aes sample_env) ?p1 ?p2" by (rule relay_run_step.handshake [where obfs = "\<lambda>c. (None, c)"]) simp_all
  with r1 have r2: "relay_run (re_aes sample_env) ?p2" by (rule relay_run.step)
  have rd: "ReadCell tcp_readFull (inbox ?c) = (Inr ?ping, [])"
    using tcp.ReadCell_MarshalCell [of ?ping "inbox ?c" 5 "\<lambda>_. 0" "[]"] by simp
  have data: "cell_data ?ping = [1, 2, 3]" using cell_data_mkCell [of "[1, 2, 3]" 9 CmdPing] by (simp add: numeral_3_eq_3)
  obtain s' where h: "handleCell sample_env 0 ?ping 4 s = Some (Inr ([SendCell 4 ?pong], s'))"
    by (simp add: handleCell_def reassemble_other dispatch_def handlePing_def wf_mkCell data [unfolded cmd_defs] cmd_defs Let_def)
  let ?p3 = "go_on 0 (Handling 4 [SendCell 4 ?pong] []) (?p2\<lparr>rp_srv := s'\<rparr>)"
  have "relay_run_step (re_aes sample_env) ?p2 ?p3"
    by (rule relay_run_step.cell [OF _ rd refl, where now = 0]) (simp_all add: h relay_start_def)
  with r2 have r3: "relay_run (re_aes sample_env) ?p3" by (rule relay_run.step)
  let ?p4 = "emit 0 (SendCell 4 ?pong) (go_on 0 (Handling 4 [] []) ?p3)"
  have "relay_run_step (re_aes sample_env) ?p3 ?p4" by (rule relay_run_step.handler_write) simp_all
  with r3 have r4: "relay_run (re_aes sample_env) ?p4" by (rule relay_run.step)
  have "written_to 4 ?p4 = [?pong]" "sv_accepted (rp_serve ?p4) = [(4, ?c)]"
    by (simp_all add: written_to_def relay_start_def)
  with r4 show ?thesis by blast
qed

theorem relay_output_well_typed_witness:
  "\<exists>p e rest. relay_run (re_aes sample_env) p \<and> written_to 4 p = [mkCell 9 CmdPong 3 [1, 2, 3]] \<and>
     read_cells 2 tcp_readFull (MarshalCell 200 (\<lambda>_. 7) (mkCell 9 CmdPong 3 [1, 2, 3])) =
       ([canon_cell (mkCell 9 CmdPong 3 [1, 2, 3])], Some e, rest)"
proof -
  obtain p c where p: "relay_run (re_aes sample_env) p" "written_to 4 p = [mkCell 9 CmdPong 3 [1, 2, 3]]"
    using sample_run by blast
  have l: "length [(200, \<lambda>_. 7)] = length (written_to 4 p)" by (simp add: p(2))
  have "\<exists>e rest. read_cells (Suc (length [(200 :: byte, (\<lambda>_. 7) :: nat \<Rightarrow> byte)])) tcp_readFull
      (concat (map (\<lambda>((r, rnd), c). MarshalCell r rnd c) (zip [(200, \<lambda>_. 7)] (written_to 4 p)))) =
      (map canon_cell (written_to 4 p), Some e, rest)"
    using relay_output_well_typed [OF p(1) l] by blast
  then obtain e rest where "read_cells 2 tcp_readFull (MarshalCell 200 (\<lambda>_. 7) (mkCell 9 CmdPong 3 [1, 2, 3])) =
       ([canon_cell (mkCell 9 CmdPong 3 [1, 2, 3])], Some e, rest)"
    unfolding p(2) by (auto simp: numeral_2_eq_2 simp del: read_cells.simps)
  with p show ?thesis by blast
qed


end
