(* ===== verification/Relay_Locks.thy ===== *)
theory Relay_Locks
  imports Relay
begin

text \<open>
  The relay's cell handler at the granularity of its locks (\<^verbatim>\<open>handleCell\<close> and
  \<^verbatim>\<open>destroyCircuit\<close> of \<^verbatim>\<open>src/relay/main.go\<close>,
  \<^verbatim>\<open>sweep\<close> of \<^verbatim>\<open>src/common/replay.go\<close>). The table of circuits holds
  pointers: a handler that has looked its circuit up keeps the pointer after it released
  \<^verbatim>\<open>circuitsMu\<close>, also when the circuit is removed from the table meanwhile. A step is one
  critical section, or the code between two of them, which touches nothing shared but the circuit behind the pointer.
  Runs in which only one handler is active are compared with the atomic handlers of theory \<open>Relay\<close>; the
  later parts show what overlapping handlers keep and break, and that circuit ids are not bound to connections.
\<close>

section \<open>Critical sections\<close>

record relay_mem =
  rm_table :: "uint32 \<rightharpoonup> nat"       \<comment> \<open>\<^verbatim>\<open>s.circuits\<close>\<close>
  rm_heap :: "nat \<rightharpoonup> Circuit"
  rm_srv :: relayServer             \<comment> \<open>the other fields\<close>

definition mem_view :: "relay_mem \<Rightarrow> relayServer" where
  "mem_view m = (rm_srv m)\<lparr>rs_circuits := rm_heap m \<circ>\<^sub>m rm_table m\<rparr>"

definition with_circuit :: "relay_mem \<Rightarrow> uint32 \<Rightarrow> Circuit \<Rightarrow> relayServer" where
  \<comment> \<open>what a handler that holds a circuit can see\<close>
  "with_circuit m cid circ = (rm_srv m)\<lparr>rs_circuits := [cid \<mapsto> circ]\<rparr>"

datatype section_pc =
    AtTouch Cell conn_id
  | AtReasm Cell conn_id
  | AtSwitch Cell conn_id
  | AtExtend Cell conn_id nat                    \<comment> \<open>the circuit is looked up\<close>
  | AtLink uint32 nat conn_id "relay_event list" \<comment> \<open>the next hop has answered; \<^verbatim>\<open>circ.OutConn = nextConn\<close> is next\<close>
  | AtRelay Cell nat
  | AtDestroy "uint32 list"                      \<comment> \<open>circuits still to be destroyed\<close>
  | AtRemove uint32 "uint32 list"                \<comment> \<open>before \<^verbatim>\<open>timeout.Remove\<close>\<close>
  | Finished

inductive section_step :: "relay_mem \<Rightarrow> section_pc \<Rightarrow> relay_event list \<Rightarrow> section_pc \<Rightarrow> relay_mem \<Rightarrow> bool" where
  touch: "section_step m (AtTouch c k) [] (AtReasm c k)
     (m\<lparr>rm_srv := (rm_srv m)\<lparr>rs_timeout := Touch now (CircID c) (rs_timeout (rm_srv m))\<rparr>\<rparr>)"
| fragment: "reassemble c (rm_srv m) = Some (Inr (None, s)) \<Longrightarrow> section_step m (AtReasm c k) [] Finished (m\<lparr>rm_srv := s\<rparr>)"
| whole: "reassemble c (rm_srv m) = Some (Inr (Some c', s)) \<Longrightarrow> section_step m (AtReasm c k) [] (AtSwitch c' k) (m\<lparr>rm_srv := s\<rparr>)"
| create: "Command c = CmdCreate \<Longrightarrow> r \<notin> dom (rm_heap m) \<Longrightarrow> handleCreate env c k (rm_srv m) = (evs, s) \<Longrightarrow>
     rs_circuits s (CircID c) = Some circ \<Longrightarrow>
     section_step m (AtSwitch c k) evs Finished (m\<lparr>rm_heap := (rm_heap m)(r \<mapsto> circ), rm_table := (rm_table m)(CircID c \<mapsto> r)\<rparr>)"
| lookup_extend: "Command c = CmdExtend \<Longrightarrow> rm_table m (CircID c) = Some r \<Longrightarrow> section_step m (AtSwitch c k) [] (AtExtend c k r) m"
| lookup_relay: "Command c = CmdRelay \<Longrightarrow> rm_table m (CircID c) = Some r \<Longrightarrow> section_step m (AtSwitch c k) [] (AtRelay c r) m"
| lookup_none: "Command c \<in> {CmdExtend, CmdRelay} \<Longrightarrow> rm_table m (CircID c) = None \<Longrightarrow> section_step m (AtSwitch c k) [] Finished m"
| extend: "rm_heap m r = Some circ \<Longrightarrow> handleExtend env c k (with_circuit m (CircID c) circ) = Inr (evs, s) \<Longrightarrow>
     rs_circuits s (CircID c) = Some circ \<Longrightarrow> section_step m (AtExtend c k r) evs Finished m"
    \<comment> \<open>forwarded to the next hop, or refused\<close>
| dialled: "rm_heap m r = Some circ \<Longrightarrow>
     handleExtend env c k (with_circuit m (CircID c) circ) = Inr (sent # SpawnForward circ' # evs, s) \<Longrightarrow>
     rs_circuits s (CircID c) = Some circ' \<Longrightarrow> circ' \<noteq> circ \<Longrightarrow> circ_OutConn circ' = Some out \<Longrightarrow>
     section_step m (AtExtend c k r) [sent] (AtLink (CircID c) r out evs) m"
| link: "rm_heap m r = Some circ \<Longrightarrow> circ' = circ\<lparr>circ_OutConn := Some out\<rparr> \<Longrightarrow>
     section_step m (AtLink cid r out evs) (SpawnForward circ' # evs) Finished (m\<lparr>rm_heap := (rm_heap m)(r \<mapsto> circ')\<rparr>)"
| relay: "rm_heap m r = Some circ \<Longrightarrow> handleRelay env c (with_circuit m (CircID c) circ) = Inr (evs, s) \<Longrightarrow>
     section_step m (AtRelay c r) evs Finished m"
| ping: "Command c = CmdPing \<Longrightarrow> handlePing c k (rm_srv m) = Inr (evs, s) \<Longrightarrow> section_step m (AtSwitch c k) evs Finished m"
| destroy_cell: "Command c = CmdDestroy \<Longrightarrow> section_step m (AtSwitch c k) [] (AtDestroy [CircID c]) m"
| other: "Command c \<notin> {CmdCreate, CmdExtend, CmdRelay, CmdPing, CmdDestroy} \<Longrightarrow> section_step m (AtSwitch c k) [] Finished m"
| destroy: "destroyCircuit cid (mem_view m) = (evs, s) \<Longrightarrow>
     section_step m (AtDestroy (cid # cids)) evs (AtRemove cid cids) (m\<lparr>rm_table := (rm_table m)(cid := None)\<rparr>)"
| destroyed: "section_step m (AtDestroy []) [] Finished m"
| remove: "section_step m (AtRemove cid cids) [] (AtDestroy cids)
     (m\<lparr>rm_srv := (rm_srv m)\<lparr>rs_timeout := Remove cid (rs_timeout (rm_srv m))\<rparr>\<rparr>)"

inductive_cases section_stepE: "section_step m pc evs pc' m'"

datatype handler =
    OnConn conn_id  \<comment> \<open>\<^verbatim>\<open>serve\<close> runs one goroutine per connection, which handles its cells one after the other\<close>
  | Sweeper         \<comment> \<open>the tracker's goroutine, which calls \<^verbatim>\<open>destroyCircuit\<close> for each expired circuit\<close>

record lock_proc =
  lp_mem :: relay_mem
  lp_gs :: "handler \<Rightarrow> section_pc"
  lp_log :: "(handler \<times> relay_event) list"

definition lock_start :: "relayServer \<Rightarrow> lock_proc" where
  "lock_start s = \<lparr>lp_mem = \<lparr>rm_table = Map.empty, rm_heap = Map.empty, rm_srv = s\<rparr>, lp_gs = (\<lambda>_. Finished), lp_log = []\<rparr>"

definition go_section :: "handler \<Rightarrow> relay_event list \<Rightarrow> section_pc \<Rightarrow> relay_mem \<Rightarrow> lock_proc \<Rightarrow> lock_proc" where
  "go_section g evs pc m p = \<lparr>lp_mem = m, lp_gs = (lp_gs p)(g := pc), lp_log = lp_log p @ map (Pair g) evs\<rparr>"

inductive lock_step :: "lock_proc \<Rightarrow> lock_proc \<Rightarrow> bool" where
  arrive: "lp_gs p (OnConn k) = Finished \<Longrightarrow> wf_cell c \<Longrightarrow> lock_step p (go_section (OnConn k) [] (AtTouch c k) (lp_mem p) p)"
| tick: "lp_gs p Sweeper = Finished \<Longrightarrow> lp_mem p = m \<Longrightarrow> set order = dom (lastSeen (rs_timeout (rm_srv m))) \<Longrightarrow>
     sweep now order (rs_timeout (rm_srv m)) = (expired, t) \<Longrightarrow>
     lock_step p (go_section Sweeper [] (AtDestroy expired) (m\<lparr>rm_srv := (rm_srv m)\<lparr>rs_timeout := t\<rparr>\<rparr>) p)"
| advance: "lp_gs p g = pc \<Longrightarrow> section_step (lp_mem p) pc evs pc' m \<Longrightarrow> lock_step p (go_section g evs pc' m p)"

definition active :: "lock_proc \<Rightarrow> handler \<Rightarrow> bool" where
  "active p g \<longleftrightarrow> lp_gs p g \<noteq> Finished"

definition one_active :: "lock_proc \<Rightarrow> bool" where
  "one_active p \<longleftrightarrow> (\<forall>g h. active p g \<longrightarrow> active p h \<longrightarrow> g = h)"

definition quiet :: "lock_proc \<Rightarrow> bool" where
  "quiet p \<longleftrightarrow> (\<forall>g. \<not> active p g)"

inductive lock_run :: "(lock_proc \<Rightarrow> bool) \<Rightarrow> lock_proc \<Rightarrow> bool" for P where
  start: "newRelayServer sm rnd wfail cfg fs = (Inr s, fs') \<Longrightarrow> lock_run P (lock_start s)"
| step: "lock_run P p \<Longrightarrow> lock_step p p' \<Longrightarrow> P p' \<Longrightarrow> lock_run P p'"

lemma go_section_simps [simp]:
  "lp_mem (go_section g evs pc m p) = m" "lp_gs (go_section g evs pc m p) = (lp_gs p)(g := pc)"
  "lp_log (go_section g evs pc m p) = lp_log p @ map (Pair g) evs"
  by (simp_all add: go_section_def)

section \<open>What every interleaving keeps\<close>

definition mem_ok :: "relay_mem \<Rightarrow> bool" where
  "mem_ok m \<longleftrightarrow> inj_on (rm_table m) (dom (rm_table m)) \<and>
     (\<forall>cid r. rm_table m cid = Some r \<longrightarrow> (\<exists>circ. rm_heap m r = Some circ \<and> circ_ID circ = cid)) \<and>
     (\<forall>r circ. rm_heap m r = Some circ \<longrightarrow> length (circ_Key circ) = 32)"

fun pc_ok :: "relay_mem \<Rightarrow> section_pc \<Rightarrow> bool" where
  "pc_ok m (AtTouch c k) = wf_cell c"
| "pc_ok m (AtReasm c k) = wf_cell c"
| "pc_ok m (AtSwitch c k) = wf_cell c"
| "pc_ok m (AtExtend c k r) = (wf_cell c \<and> (\<exists>circ. rm_heap m r = Some circ \<and> circ_ID circ = CircID c))"
| "pc_ok m (AtLink cid r out evs) = (\<exists>circ. rm_heap m r = Some circ \<and> circ_ID circ = cid)"
| "pc_ok m (AtRelay c r) = (wf_cell c \<and> (\<exists>circ. rm_heap m r = Some circ \<and> circ_ID circ = CircID c))"
| "pc_ok m _ = True"

lemma mem_okD:
  assumes "mem_ok m"
  shows "rm_table m cid = Some r \<Longrightarrow> \<exists>circ. rm_heap m r = Some circ \<and> circ_ID circ = cid"
    "rm_table m cid = Some r \<Longrightarrow> rm_table m cid' = Some r \<Longrightarrow> cid = cid'"
    "rm_heap m r = Some circ \<Longrightarrow> length (circ_Key circ) = 32"
  using assms by (auto simp: mem_ok_def inj_on_def dom_def)

lemma mem_ok_frame [simp]: "mem_ok (m\<lparr>rm_srv := s\<rparr>) = mem_ok m"
  by (simp add: mem_ok_def)

lemma mem_ok_table_none: "mem_ok m \<Longrightarrow> mem_ok (m\<lparr>rm_table := (rm_table m)(cid := None)\<rparr>)"
  by (auto simp: mem_ok_def inj_on_def dom_def)

lemma mem_ok_create:
  assumes "mem_ok m" "r \<notin> dom (rm_heap m)" "circ_ID circ = cid" "length (circ_Key circ) = 32"
  shows "mem_ok (m\<lparr>rm_heap := (rm_heap m)(r \<mapsto> circ), rm_table := (rm_table m)(cid \<mapsto> r)\<rparr>)"
proof -
  have "rm_table m x \<noteq> Some r" for x using mem_okD(1) [OF assms(1), of x r] assms(2) by auto
  then show ?thesis using assms by (auto simp: mem_ok_def inj_on_def dom_def)
qed

lemma mem_ok_link:
  assumes "mem_ok m" "rm_heap m r = Some circ"
  shows "mem_ok (m\<lparr>rm_heap := (rm_heap m)(r \<mapsto> circ\<lparr>circ_OutConn := out\<rparr>)\<rparr>)"
  using assms by (fastforce simp: mem_ok_def)

lemma handleCreate_circ:
  "handleCreate env c k s = (evs, s') \<Longrightarrow> rs_circuits s' (CircID c) = Some circ \<Longrightarrow>
   circ_ID circ = CircID c \<and> length (circ_Key circ) = 32 \<and> circ_InConn circ = k \<and> circ_OutConn circ = None"
  by (auto simp: handleCreate_def Let_def split: prod.splits)

lemma section_step_mem:
  assumes "section_step m pc evs pc' m'" "mem_ok m" "pc_ok m pc"
  shows "mem_ok m' \<and> pc_ok m' pc'"
  using assms
proof cases
  case (whole c s c' k)
  then show ?thesis using assms reassemble_wf by auto
next
  case (create c r env k s circ)
  then show ?thesis using assms(2) mem_ok_create handleCreate_circ by simp
next
  case (lookup_extend c r k)
  then show ?thesis using assms mem_okD(1) by auto
next
  case (lookup_relay c r k)
  then show ?thesis using assms mem_okD(1) by auto
next
  case (link r circ circ' out cid evs')
  then show ?thesis using assms(2) mem_ok_link by simp
qed (use assms mem_ok_table_none in auto)

lemma pc_ok_mono:
  assumes "section_step m pc evs pc' m'" "pc_ok m q"
  shows "pc_ok m' q"
proof -
  have "\<exists>circ'. rm_heap m' r = Some circ' \<and> circ_ID circ' = circ_ID circ" if "rm_heap m r = Some circ" for r circ
    using assms(1) that by cases auto
  with assms(2) show ?thesis by (cases q) fastforce+
qed

lemma lock_step_ok:
  assumes "lock_step p p'" "mem_ok (lp_mem p)" "\<forall>g. pc_ok (lp_mem p) (lp_gs p g)"
  shows "mem_ok (lp_mem p') \<and> (\<forall>g. pc_ok (lp_mem p') (lp_gs p' g))"
  using assms(1)
proof cases
  case (arrive k c)
  then show ?thesis using assms(2,3) by simp
next
  case (tick m order now expired t)
  have "pc_ok (m\<lparr>rm_srv := s\<rparr>) pc = pc_ok m pc" for s pc by (cases pc) simp_all
  with tick show ?thesis using assms(2,3) by simp
next
  case (advance g pc evs pc' m)
  then have "mem_ok m \<and> pc_ok m pc'" using section_step_mem assms(2,3) by blast
  moreover have "pc_ok m (lp_gs p h)" for h
    using pc_ok_mono [OF advance(3)] assms(3) by blast
  ultimately show ?thesis using advance(1) by simp
qed

lemma lock_run_ok: "lock_run P p \<Longrightarrow> mem_ok (lp_mem p) \<and> (\<forall>g. pc_ok (lp_mem p) (lp_gs p g))"
proof (induction rule: lock_run.induct)
  case (start sm rnd wfail cfg fs s fs')
  show ?case by (simp add: lock_start_def mem_ok_def)
next
  case (step p p')
  then show ?case using lock_step_ok by blast
qed

section \<open>Handlers that see one circuit\<close>

lemma mem_view_simps [simp]:
  "rs_circuits (mem_view m) = rm_heap m \<circ>\<^sub>m rm_table m" "rs_cfg (mem_view m) = rs_cfg (rm_srv m)"
  "rs_timeout (mem_view m) = rs_timeout (rm_srv m)" "rs_reasm (mem_view m) = rs_reasm (rm_srv m)"
  "mem_view (m\<lparr>rm_srv := s\<rparr>) = s\<lparr>rs_circuits := rm_heap m \<circ>\<^sub>m rm_table m\<rparr>"
  by (simp_all add: mem_view_def)

lemma reassemble_view:
  "reassemble c (rm_srv m) = Some (Inr (x, s)) \<Longrightarrow> reassemble c (mem_view m) = Some (Inr (x, mem_view (m\<lparr>rm_srv := s\<rparr>)))"
  by (auto simp: reassemble_def mem_view_def Let_def split: if_splits option.splits sum.splits prod.splits)

lemma extend_next_local:
  assumes "extend_next env cid circ k pl s = (evs, t)" "rs_circuits s cid = Some circ" "rs_circuits s' cid = Some circ"
  shows "extend_next env cid circ k pl s' = (evs, s'\<lparr>rs_circuits := (rs_circuits s')(cid := rs_circuits t cid)\<rparr>)"
proof -
  have "(rs_circuits s')(cid \<mapsto> circ) = rs_circuits s'" using assms(3) by (simp add: fun_upd_idem)
  with assms show ?thesis
    by (auto simp: extend_next_def Let_def split: if_splits option.splits prod.splits sum.splits)
qed

lemma handleExtend_frame:
  assumes "handleExtend env c k s0 = Inr (evs, t)" "rs_circuits s0 (CircID c) = Some circ" "rs_circuits s (CircID c) = Some circ"
  shows "handleExtend env c k s = Inr (evs, s\<lparr>rs_circuits := (rs_circuits s)(CircID c := rs_circuits t (CircID c))\<rparr>)"
proof -
  have "(rs_circuits s)(CircID c \<mapsto> circ) = rs_circuits s" using assms(3) by (simp add: fun_upd_idem)
  with assms extend_next_local [OF _ assms(2,3), of env k _ evs t] show ?thesis
    by (auto simp: handleExtend_def split: option.splits sum.splits if_splits)
qed

lemmas handleExtend_local = handleExtend_frame [of _ _ _ "with_circuit _ _ _"]

lemma extend_next_shape:
  "extend_next env cid circ k pl s = (evs, t) \<Longrightarrow> t = s \<or> (\<exists>sent out evs'.
     evs = sent # SpawnForward (circ\<lparr>circ_OutConn := Some out\<rparr>) # evs' \<and> rs_circuits t cid = Some (circ\<lparr>circ_OutConn := Some out\<rparr>))"
  by (auto simp: extend_next_def Let_def split: option.splits sum.splits if_splits prod.splits)

lemma linked_differs: "circ_OutConn circ = None \<Longrightarrow> circ\<lparr>circ_OutConn := Some out\<rparr> \<noteq> circ"
  by (cases circ) simp

lemma handleExtend_next:
  assumes "handleExtend env c k s = Inr (evs, t)" "rs_circuits s (CircID c) = Some circ"
  shows "t = s \<or> circ_OutConn circ = None \<and> (\<exists>pl. extend_next env (CircID c) circ k pl s = (evs, t))"
  using assms by (auto simp: handleExtend_def split: option.splits sum.splits if_splits)

lemma handleExtend_shape:
  assumes "handleExtend env c k s = Inr (evs, t)" "rs_circuits s (CircID c) = Some circ"
  obtains "t = s"
  | sent circ' out evs' where "evs = sent # SpawnForward circ' # evs'" "rs_circuits t (CircID c) = Some circ'"
      "circ' \<noteq> circ" "circ_OutConn circ' = Some out"
proof (cases "t = s")
  case False
  then obtain pl where pl: "circ_OutConn circ = None" "extend_next env (CircID c) circ k pl s = (evs, t)"
    using handleExtend_next [OF assms] by blast
  from extend_next_shape [OF pl(2)] False obtain sent out evs' where
    "evs = sent # SpawnForward (circ\<lparr>circ_OutConn := Some out\<rparr>) # evs'" "rs_circuits t (CircID c) = Some (circ\<lparr>circ_OutConn := Some out\<rparr>)"
    by blast
  then show thesis by (rule that(2)) (simp_all add: linked_differs pl(1))
qed (rule that(1))

lemma with_circuit_simps [simp]:
  "rs_circuits (with_circuit m cid circ) = [cid \<mapsto> circ]" "rs_cfg (with_circuit m cid circ) = rs_cfg (rm_srv m)"
  by (simp_all add: with_circuit_def)

lemma handleExtend_dialled:
  assumes "handleExtend env c k (with_circuit m (CircID c) circ) = Inr (evs, t)" "rs_circuits t (CircID c) = Some circ'" "circ' \<noteq> circ"
    "circ_OutConn circ' = Some out"
  shows "circ' = circ\<lparr>circ_OutConn := Some out\<rparr>"
  using assms
  by (auto simp: handleExtend_def extend_next_def with_circuit_def Let_def split: option.splits sum.splits if_splits prod.splits)

lemma handleRelay_frame:
  assumes "handleRelay env c s0 = Inr (evs, t)" "rs_circuits s0 (CircID c) = rs_circuits s (CircID c)" "rs_cfg s0 = rs_cfg s"
  shows "handleRelay env c s = Inr (evs, s) \<and> t = s0"
  using assms by (auto simp: handleRelay_def split: option.splits sum.splits if_splits)

lemma handlePing_local: "handlePing c k s = Inr (evs, t) \<Longrightarrow> handlePing c k s' = Inr (evs, s')"
  by (auto simp: handlePing_def split: sum.splits)

lemma view_lookup: "mem_ok m \<Longrightarrow> rm_table m cid = Some r \<Longrightarrow> rm_heap m r = Some circ \<Longrightarrow> rs_circuits (mem_view m) cid = Some circ"
  by (simp add: map_comp_def)

lemma view_create:
  assumes "mem_ok m" "r \<notin> dom (rm_heap m)"
  shows "mem_view (m\<lparr>rm_heap := (rm_heap m)(r \<mapsto> circ), rm_table := (rm_table m)(cid \<mapsto> r)\<rparr>) =
     (mem_view m)\<lparr>rs_circuits := (rs_circuits (mem_view m))(cid \<mapsto> circ)\<rparr>"
proof -
  have "rm_table m x \<noteq> Some r" for x using mem_okD(1) [OF assms(1), of x r] assms(2) by auto
  then show ?thesis by (auto simp: mem_view_def map_comp_def fun_eq_iff split: option.splits)
qed

lemma view_link:
  assumes "mem_ok m" "rm_table m cid = Some r"
  shows "mem_view (m\<lparr>rm_heap := (rm_heap m)(r \<mapsto> circ)\<rparr>) = (mem_view m)\<lparr>rs_circuits := (rs_circuits (mem_view m))(cid \<mapsto> circ)\<rparr>"
proof -
  have o: "rm_table m x \<noteq> Some r" if "x \<noteq> cid" for x using mem_okD(2) [OF assms(1)] assms(2) that by blast
  have "((rm_heap m)(r \<mapsto> circ) \<circ>\<^sub>m rm_table m) x = ((rm_heap m \<circ>\<^sub>m rm_table m)(cid \<mapsto> circ)) x" for x
    using assms(2) o [of x] by (cases "x = cid"; cases "rm_table m x") simp_all
  then have "(rm_heap m)(r \<mapsto> circ) \<circ>\<^sub>m rm_table m = (rm_heap m \<circ>\<^sub>m rm_table m)(cid \<mapsto> circ)" by (rule ext)
  then show ?thesis by (simp add: mem_view_def)
qed

lemma view_remove:
  assumes "destroyCircuit cid (mem_view m) = (evs, s)"
  shows "s = (mem_view (m\<lparr>rm_table := (rm_table m)(cid := None)\<rparr>))\<lparr>rs_timeout := Remove cid (rs_timeout (rm_srv m))\<rparr>"
proof -
  have "rm_heap m \<circ>\<^sub>m (rm_table m)(cid := None) = (rm_heap m \<circ>\<^sub>m rm_table m)(cid := None)"
    by (simp add: map_comp_def fun_eq_iff)
  moreover have "(rm_heap m \<circ>\<^sub>m rm_table m)(cid := None) = rm_heap m \<circ>\<^sub>m rm_table m" if "(rm_heap m \<circ>\<^sub>m rm_table m) cid = None"
    using that by (simp add: fun_upd_idem)
  ultimately show ?thesis
    using assms by (cases "(rm_heap m \<circ>\<^sub>m rm_table m) cid") (simp_all add: destroyCircuit_def mem_view_def)
qed

section \<open>Exclusive runs are runs of the atomic handlers\<close>

lemma timeout_circuits: "s\<lparr>rs_timeout := t, rs_circuits := x\<rparr> = s\<lparr>rs_circuits := x, rs_timeout := t\<rparr>" for s :: relayServer
  by (cases s) simp

lemma mem_view_same [simp]: "(mem_view m)\<lparr>rs_circuits := rm_heap m \<circ>\<^sub>m rm_table m\<rparr> = mem_view m"
  by (simp add: mem_view_def)

inductive relay_trace :: "relay_event list \<Rightarrow> relayServer \<Rightarrow> bool" where
  \<comment> \<open>runs of the atomic handlers, with the events they emit\<close>
  start: "newRelayServer sm rnd wfail cfg fs = (Inr s, fs') \<Longrightarrow> relay_trace [] s"
| step: "relay_trace L s \<Longrightarrow> relay_step s evs s' \<Longrightarrow> relay_trace (L @ evs) s'"

lemma relay_trace_reachable: "relay_reachable s \<longleftrightarrow> (\<exists>L. relay_trace L s)"
proof
  show "relay_reachable s \<Longrightarrow> \<exists>L. relay_trace L s"
    by (induction rule: relay_reachable.induct) (blast intro: relay_trace.intros)+
  have "relay_trace L s \<Longrightarrow> relay_reachable s" for L
    by (induction rule: relay_trace.induct) (blast intro: relay_reachable.intros)+
  then show "\<exists>L. relay_trace L s \<Longrightarrow> relay_reachable s" by blast
qed

definition touched :: "int \<Rightarrow> Cell \<Rightarrow> relayServer \<Rightarrow> relayServer" where
  "touched now c s = s\<lparr>rs_timeout := Touch now (CircID c) (rs_timeout s)\<rparr>"

definition switching :: "relayServer \<Rightarrow> relay_mem \<Rightarrow> Cell \<Rightarrow> bool" where
  "switching s m c' \<longleftrightarrow> (\<exists>now c. wf_cell c \<and> reassemble c (touched now c s) = Some (Inr (Some c', mem_view m)))"

fun pending :: "relayServer \<Rightarrow> relay_event list \<Rightarrow> relay_mem \<Rightarrow> section_pc \<Rightarrow> bool" where
  \<comment> \<open>how far a handler that started in \<open>s\<close> and has emitted \<open>L\<close> has come\<close>
  "pending s L m (AtTouch c k) = (L = [] \<and> wf_cell c \<and> mem_view m = s)"
| "pending s L m (AtReasm c k) = (L = [] \<and> wf_cell c \<and> (\<exists>now. mem_view m = touched now c s))"
| "pending s L m (AtSwitch c k) = (L = [] \<and> switching s m c)"
| "pending s L m (AtExtend c k r) = (L = [] \<and> switching s m c \<and> Command c = CmdExtend \<and> rm_table m (CircID c) = Some r)"
| "pending s L m (AtRelay c r) = (L = [] \<and> switching s m c \<and> Command c = CmdRelay \<and> rm_table m (CircID c) = Some r)"
| "pending s L m (AtLink cid r out evs) = (rm_table m cid = Some r \<and> (\<forall>circ circ'. rm_heap m r = Some circ \<longrightarrow>
     circ' = circ\<lparr>circ_OutConn := Some out\<rparr> \<longrightarrow> relay_step s (L @ SpawnForward circ' # evs)
       ((mem_view m)\<lparr>rs_circuits := (rs_circuits (mem_view m))(cid \<mapsto> circ')\<rparr>)))"
| "pending s L m (AtDestroy cids) =
     relay_step s (L @ fst (destroy_all cids (mem_view m))) (snd (destroy_all cids (mem_view m)))"
| "pending s L m (AtRemove cid cids) =
     (let t = (mem_view m)\<lparr>rs_timeout := Remove cid (rs_timeout (rm_srv m))\<rparr>
      in relay_step s (L @ fst (destroy_all cids t)) (snd (destroy_all cids t)))"
| "pending s L m Finished = relay_step s L (mem_view m)"

lemma switch_dispatch:
  assumes "switching s m c" "dispatch env c k (mem_view m) = Inr (evs, s')"
  shows "relay_step s evs s'"
proof -
  obtain now c0 where c0: "wf_cell c0" "reassemble c0 (touched now c0 s) = Some (Inr (Some c, mem_view m))"
    using assms(1) by (auto simp: switching_def)
  then have "handleCell env now c0 k s = Some (Inr (evs, s'))" using assms(2) by (simp add: handleCell_def touched_def)
  then show ?thesis by (rule relay_step.cell [OF c0(1)])
qed

lemma pending_dispatch:
  assumes "switching s m c" "dispatch env c k (mem_view m) = Inr (evs, mem_view m')"
  shows "pending s evs m' Finished"
  using switch_dispatch [OF assms] by simp

lemma destroy_all_Cons:
  "fst (destroy_all (cid # cids) s) = fst (destroyCircuit cid s) @ fst (destroy_all cids (snd (destroyCircuit cid s)))"
  "snd (destroy_all (cid # cids) s) = snd (destroy_all cids (snd (destroyCircuit cid s)))"
  by (simp_all add: split_beta Let_def)

lemma pending_extend:
  assumes "mem_ok m" "switching s m c" "Command c = CmdExtend" "rm_table m (CircID c) = Some r" "rm_heap m r = Some circ"
    and "handleExtend env c k (with_circuit m (CircID c) circ) = Inr (evs, t)"
  shows "dispatch env c k (mem_view m) =
     Inr (evs, (mem_view m)\<lparr>rs_circuits := (rs_circuits (mem_view m))(CircID c := rs_circuits t (CircID c))\<rparr>)"
  using handleExtend_local [OF assms(6) _ view_lookup [OF assms(1,4,5)]] assms(3) by (simp add: dispatch_def cmd_defs)

lemma pending_reasm:
  assumes "pending s L m (AtReasm c k)" "reassemble c (rm_srv m) = Some (Inr (x, s'))"
  shows "pending s L (m\<lparr>rm_srv := s'\<rparr>) (case x of None \<Rightarrow> Finished | Some c' \<Rightarrow> AtSwitch c' k)"
proof -
  obtain now where now: "L = []" "wf_cell c" "mem_view m = touched now c s" using assms(1) by auto
  then have x: "reassemble c (touched now c s) = Some (Inr (x, mem_view (m\<lparr>rm_srv := s'\<rparr>)))" using reassemble_view [OF assms(2)] by simp
  show ?thesis
  proof (cases x)
    case None
    then have "handleCell undefined now c k s = Some (Inr ([], mem_view (m\<lparr>rm_srv := s'\<rparr>)))"
      using x by (simp add: handleCell_def touched_def)
    then show ?thesis using None now(1) relay_step.cell [OF now(2)] by simp
  next
    case (Some c')
    then have "switching s (m\<lparr>rm_srv := s'\<rparr>) c'" using x now(2) unfolding switching_def by blast
    then show ?thesis using Some now(1) by simp
  qed
qed

lemma pending_extended:
  assumes "mem_ok m" "pending s L m (AtExtend c k r)" "rm_heap m r = Some circ"
    and "handleExtend env c k (with_circuit m (CircID c) circ) = Inr (evs, t)" "rs_circuits t (CircID c) = Some circ'"
  shows "relay_step s (L @ evs) ((mem_view m)\<lparr>rs_circuits := (rs_circuits (mem_view m))(CircID c \<mapsto> circ')\<rparr>)"
  using assms switch_dispatch [OF _ pending_extend [OF assms(1) _ _ _ assms(3,4), of s], of s] by simp

lemma section_step_pending:
  assumes "section_step m pc evs pc' m'" "mem_ok m" "pending s L m pc"
  shows "pending s (L @ evs) m' pc'"
  using assms(1)
proof cases
  case (fragment c s' k)
  then show ?thesis using assms(3) pending_reasm [of s L m c k None s'] by simp
next
  case (whole c c' s' k)
  then show ?thesis using assms(3) pending_reasm [of s L m c k "Some c'" s'] by simp
next
  case (create c r env k s' circ)
  have "handleCreate env c k (mem_view m) = (evs, mem_view m')"
    using create view_create [OF assms(2) create(5)] by (auto simp: handleCreate_def Let_def split: prod.splits)
  then show ?thesis using create assms(3) pending_dispatch [of s m c env k evs m'] by (simp add: dispatch_def)
next
  case (lookup_none c k)
  then have "dispatch env c k (mem_view m) = Inr ([], mem_view m)" for env
    by (auto simp: dispatch_def handleExtend_def handleRelay_def cmd_defs)
  from pending_dispatch [OF _ this, of s] show ?thesis using lookup_none assms(3) by simp
next
  case (extend r circ env c k s')
  have "(rs_circuits (mem_view m))(CircID c \<mapsto> circ) = rs_circuits (mem_view m)"
    using view_lookup [OF assms(2) _ extend(4)] extend assms(3) by (simp add: fun_upd_idem)
  then show ?thesis using pending_extended [OF assms(2) _ extend(4,5,6)] extend(1-3) assms(3) by simp
next
  case (dialled r circ env c k sent circ' evs' s' out)
  have "circ' = circ\<lparr>circ_OutConn := Some out\<rparr>" using handleExtend_dialled [OF dialled(6,7,8,9)] .
  then show ?thesis using pending_extended [OF assms(2) _ dialled(5,6,7)] dialled(1-5) assms(3) by simp
next
  case (link r circ circ' out cid evs')
  then show ?thesis using assms(3) view_link [OF assms(2)] by auto
next
  case (relay r circ env c s')
  then have "dispatch env c 0 (mem_view m) = Inr (evs, mem_view m)"
    using handleRelay_frame [OF relay(5), of "mem_view m"] view_lookup [OF assms(2) _ relay(4)] assms(3) by (simp add: dispatch_def cmd_defs)
  from pending_dispatch [OF _ this, of s] show ?thesis using relay assms(3) by simp
next
  case (ping c k s')
  then have "dispatch env c k (mem_view m) = Inr (evs, mem_view m)" for env
    using handlePing_local [OF ping(5)] by (simp add: dispatch_def cmd_defs)
  from pending_dispatch [OF _ this, of s] show ?thesis using ping assms(3) by simp
next
  case (destroy_cell c k)
  obtain es t where d: "destroyCircuit (CircID c) (mem_view m) = (es, t)" by fastforce
  then have "dispatch undefined c k (mem_view m) = Inr (es, t)" using destroy_cell(5) by (simp add: dispatch_def cmd_defs)
  moreover have "switching s m c" using destroy_cell assms(3) by simp
  ultimately have "relay_step s es t" by (rule switch_dispatch [rotated])
  then show ?thesis using destroy_cell assms(3) d by auto
next
  case (other c k)
  then have "dispatch env c k (mem_view m) = Inr ([], mem_view m)" for env by (simp add: dispatch_def)
  from pending_dispatch [OF _ this, of s] show ?thesis using other assms(3) by simp
next
  case (destroy cid s' cids)
  then show ?thesis using assms(3) view_remove [OF destroy(4)] by (simp add: destroy_all_Cons Let_def del: destroy_all.simps)
next
  case destroyed
  then show ?thesis using assms(3) by auto
qed (use assms(3) in \<open>auto simp: touched_def mem_view_def timeout_circuits Let_def\<close>)

definition half_way :: "lock_proc \<Rightarrow> section_pc \<Rightarrow> bool" where
  "half_way p pc \<longleftrightarrow> (\<exists>s L0 L. relay_trace L0 s \<and> map snd (lp_log p) = L0 @ L \<and> pending s L (lp_mem p) pc)"

lemma lock_step_pending:
  assumes "lock_step p p'" "one_active p'" "one_active p" "mem_ok (lp_mem p)"
    and "quiet p \<longrightarrow> relay_trace (map snd (lp_log p)) (mem_view (lp_mem p))"
    and "\<forall>g. active p g \<longrightarrow> half_way p (lp_gs p g)"
  shows "(quiet p' \<longrightarrow> relay_trace (map snd (lp_log p')) (mem_view (lp_mem p'))) \<and>
     (\<forall>g. active p' g \<longrightarrow> half_way p' (lp_gs p' g))"
proof -
  have alone: "h = g" if "p' = go_section g evs pc m p" "pc \<noteq> Finished" "active p h" for g h evs pc m
    using assms(2) that unfolding one_active_def active_def by (cases "h = g") force+
  from assms(1) show ?thesis
  proof cases
    case (arrive k c)
    have q: "quiet p" using alone [OF arrive(1)] arrive(2) unfolding quiet_def active_def by fastforce
    then have "half_way p' (AtTouch c k)" using assms(5) arrive by (simp add: half_way_def)
    then show ?thesis using q arrive unfolding quiet_def active_def by auto
  next
    case (tick m order now expired t)
    have q: "quiet p" using alone [OF tick(1)] tick(2) unfolding quiet_def active_def by fastforce
    let ?s = "mem_view m"
    have "relay_step ?s (fst (idle_tick now order ?s)) (snd (idle_tick now order ?s))"
      using tick(4) by (intro relay_step.tick) simp_all
    moreover have "idle_tick now order ?s = destroy_all expired (mem_view (m\<lparr>rm_srv := (rm_srv m)\<lparr>rs_timeout := t\<rparr>\<rparr>))"
      using tick(5) by (simp add: idle_tick_def mem_view_def timeout_circuits)
    ultimately have "half_way p' (AtDestroy expired)" using q assms(5) tick by (fastforce simp: half_way_def)
    then show ?thesis using q tick unfolding quiet_def active_def by auto
  next
    case (advance g pc evs pc' m)
    have pc: "pc \<noteq> Finished" using advance(3) by (auto elim: section_stepE)
    then obtain s L0 L where s: "relay_trace L0 s" "map snd (lp_log p) = L0 @ L" "pending s L (lp_mem p) pc"
      using assms(6) advance(2) unfolding half_way_def active_def by blast
    have pend: "pending s (L @ evs) m pc'" by (rule section_step_pending [OF advance(3) assms(4) s(3)])
    have logged: "map snd (lp_log p') = L0 @ L @ evs" using advance(1) s(2) by (simp add: comp_def)
    have others: "h = g" if "lp_gs p h \<noteq> Finished" for h
      using assms(3) advance(2) pc that unfolding one_active_def active_def by blast
    have "half_way p' pc'" using s(1) logged pend advance(1) by (auto simp: half_way_def)
    moreover have "relay_trace (map snd (lp_log p')) (mem_view m)" if "pc' = Finished"
      using relay_trace.step [OF s(1), of "L @ evs" "mem_view m"] pend that logged by simp
    ultimately show ?thesis
      using advance(1) others by (cases "pc' = Finished") (auto simp: quiet_def active_def)
  qed
qed

lemma lock_run_pending:
  "lock_run one_active p \<Longrightarrow> one_active p \<and> (quiet p \<longrightarrow> relay_trace (map snd (lp_log p)) (mem_view (lp_mem p))) \<and>
     (\<forall>g. active p g \<longrightarrow> half_way p (lp_gs p g))"
proof (induction rule: lock_run.induct)
  case (start sm rnd wfail cfg fs s fs')
  have "rs_circuits s = Map.empty" using start by (auto simp: newRelayServer_def Let_def split: prod.splits sum.splits)
  then have "mem_view (lp_mem (lock_start s)) = s" by (simp add: lock_start_def mem_view_def map_comp_def)
  then show ?case using relay_trace.start [OF start] by (simp add: one_active_def active_def lock_start_def)
next
  case (step p p')
  then show ?case using lock_step_pending [OF step(2,3)] lock_run_ok [OF step(1)] by blast
qed

inductive sections :: "relay_mem \<Rightarrow> section_pc \<Rightarrow> relay_event list \<Rightarrow> relay_mem \<Rightarrow> bool" where
  \<comment> \<open>a handler that runs to its end with nobody else active\<close>
  at_end: "sections m Finished [] m"
| step: "section_step m pc evs pc' m' \<Longrightarrow> sections m' pc' evs' m'' \<Longrightarrow> sections m pc (evs @ evs') m''"

lemma sections_finish: "section_step m pc evs Finished m' \<Longrightarrow> sections m pc evs m'"
  using sections.step [OF _ sections.at_end] by fastforce

lemma sections_silent: "section_step m pc [] pc' m' \<Longrightarrow> sections m' pc' evs m'' \<Longrightarrow> sections m pc evs m''"
  using sections.step [of m pc "[]"] by simp

lemma destroyCircuit_view: "snd (destroyCircuit cid (mem_view m)) =
   mem_view (m\<lparr>rm_table := (rm_table m)(cid := None), rm_srv := (rm_srv m)\<lparr>rs_timeout := Remove cid (rs_timeout (rm_srv m))\<rparr>\<rparr>)"
  using view_remove [of cid m "fst (destroyCircuit cid (mem_view m))"]
  by (simp add: mem_view_def timeout_circuits)

lemma destroy_sections: "\<exists>m'. sections m (AtDestroy cids) (fst (destroy_all cids (mem_view m))) m' \<and>
   mem_view m' = snd (destroy_all cids (mem_view m)) \<and> rm_heap m' = rm_heap m \<and>
   rm_table m' = (\<lambda>x. if x \<in> set cids then None else rm_table m x)"
proof (induction cids arbitrary: m)
  case Nil
  show ?case using sections_finish [OF section_step.destroyed] by auto
next
  case (Cons cid cids)
  let ?m = "m\<lparr>rm_table := (rm_table m)(cid := None), rm_srv := (rm_srv m)\<lparr>rs_timeout := Remove cid (rs_timeout (rm_srv m))\<rparr>\<rparr>"
  obtain m' where m': "sections ?m (AtDestroy cids) (fst (destroy_all cids (mem_view ?m))) m'"
    "mem_view m' = snd (destroy_all cids (mem_view ?m))" "rm_heap m' = rm_heap ?m"
    "rm_table m' = (\<lambda>x. if x \<in> set cids then None else rm_table ?m x)" using Cons.IH by blast
  have "section_step m (AtDestroy (cid # cids)) (fst (destroyCircuit cid (mem_view m))) (AtRemove cid cids)
     (m\<lparr>rm_table := (rm_table m)(cid := None)\<rparr>)" by (rule section_step.destroy [OF prod.collapse [symmetric]])
  moreover have "section_step (m\<lparr>rm_table := (rm_table m)(cid := None)\<rparr>) (AtRemove cid cids) [] (AtDestroy cids) ?m"
    using section_step.remove [of "m\<lparr>rm_table := (rm_table m)(cid := None)\<rparr>"] by simp
  ultimately have "sections m (AtDestroy (cid # cids))
     (fst (destroyCircuit cid (mem_view m)) @ fst (destroy_all cids (mem_view ?m))) m'"
    using m'(1) by (blast intro: sections.step sections_silent)
  moreover have "rm_table m' = (\<lambda>x. if x \<in> set (cid # cids) then None else rm_table m x)" using m'(4) by auto
  ultimately show ?case using m'(2,3) by (simp add: destroy_all_Cons destroyCircuit_view del: destroy_all.simps) blast
qed

lemma extend_sections:
  assumes "mem_ok m" "Command c = CmdExtend" "handleExtend env c k (mem_view m) = Inr (evs, s')"
  shows "\<exists>m'. sections m (AtSwitch c k) evs m' \<and> mem_view m' = s' \<and> dom (rm_heap m') = dom (rm_heap m)"
proof (cases "rm_table m (CircID c)")
  case None
  then have "section_step m (AtSwitch c k) [] Finished m" using assms(2) by (intro section_step.lookup_none) simp_all
  from sections_finish [OF this] show ?thesis using None assms(3) by (auto simp: handleExtend_def)
next
  case (Some r)
  then obtain circ where circ: "rm_heap m r = Some circ" using mem_okD(1) [OF assms(1)] by blast
  let ?w = "with_circuit m (CircID c) circ"
  have v: "rs_circuits (mem_view m) (CircID c) = Some circ" using view_lookup [OF assms(1) Some circ] .
  have sil: "sections m (AtExtend c k r) evs m' \<Longrightarrow> sections m (AtSwitch c k) evs m'" for m'
    by (rule sections_silent [OF section_step.lookup_extend [OF assms(2) Some]])
  have w: "handleExtend env c k ?w = Inr (evs, ?w\<lparr>rs_circuits := (rs_circuits ?w)(CircID c := rs_circuits s' (CircID c))\<rparr>)"
    by (rule handleExtend_frame [OF assms(3) v]) simp
  from assms(3) v show ?thesis
  proof (cases rule: handleExtend_shape)
    case 1
    then have "section_step m (AtExtend c k r) evs Finished m" using v by (intro section_step.extend [OF circ w]) simp
    then show ?thesis using sil sections_finish 1 by blast
  next
    case (2 sent circ' out evs')
    let ?m = "m\<lparr>rm_heap := (rm_heap m)(r \<mapsto> circ')\<rparr>"
    have c': "circ' = circ\<lparr>circ_OutConn := Some out\<rparr>" using handleExtend_dialled [OF w] 2 by simp
    have "section_step m (AtExtend c k r) [sent] (AtLink (CircID c) r out evs') m"
      by (rule section_step.dialled [OF circ w [unfolded 2(1)] _ 2(3,4)]) (simp add: 2(2))
    moreover have "section_step m (AtLink (CircID c) r out evs') (SpawnForward circ' # evs') Finished ?m"
      using section_step.link [OF circ c'] by simp
    ultimately have "sections m (AtExtend c k r) evs ?m" using sections.step sections_finish 2(1) by fastforce
    moreover have "mem_view ?m = s'"
      using handleExtend_frame [OF assms(3) v v] assms(3) view_link [OF assms(1) Some] 2(2) by simp
    ultimately show ?thesis using sil circ by (intro exI [of _ ?m]) (simp add: insert_absorb domI)
  qed
qed

lemma relay_sections:
  assumes "mem_ok m" "Command c = CmdRelay" "handleRelay env c (mem_view m) = Inr (evs, s')"
  shows "sections m (AtSwitch c k) evs m \<and> mem_view m = s'"
proof (cases "rm_table m (CircID c)")
  case None
  then have "section_step m (AtSwitch c k) [] Finished m" using assms(2) by (intro section_step.lookup_none) simp_all
  then show ?thesis using sections_finish None assms(3) by (auto simp: handleRelay_def)
next
  case (Some r)
  then obtain circ where circ: "rm_heap m r = Some circ" using mem_okD(1) [OF assms(1)] by blast
  have "handleRelay env c (with_circuit m (CircID c) circ) = Inr (evs, with_circuit m (CircID c) circ) \<and> s' = mem_view m"
    using view_lookup [OF assms(1) Some circ] by (intro handleRelay_frame [OF assms(3)]) simp_all
  then show ?thesis using sections_silent [OF section_step.lookup_relay [OF assms(2) Some]] sections_finish section_step.relay [OF circ]
    by blast
qed

lemma create_sections:
  assumes "mem_ok m" "finite (dom (rm_heap m))" "Command c = CmdCreate" "handleCreate env c k (mem_view m) = (evs, s')"
  shows "\<exists>m'. sections m (AtSwitch c k) evs m' \<and> mem_view m' = s' \<and> finite (dom (rm_heap m'))"
proof -
  obtain r where r: "r \<notin> dom (rm_heap m)" using ex_new_if_finite [OF infinite_UNIV_nat assms(2)] by blast
  obtain circ where circ: "rs_circuits s' (CircID c) = Some circ" "s' = (mem_view m)\<lparr>rs_circuits := (rs_circuits (mem_view m))(CircID c \<mapsto> circ)\<rparr>"
    "handleCreate env c k (rm_srv m) = (evs, (rm_srv m)\<lparr>rs_circuits := (rs_circuits (rm_srv m))(CircID c \<mapsto> circ)\<rparr>)"
    using assms(4) by (auto simp: handleCreate_def Let_def split: prod.splits)
  have "section_step m (AtSwitch c k) evs Finished (m\<lparr>rm_heap := (rm_heap m)(r \<mapsto> circ), rm_table := (rm_table m)(CircID c \<mapsto> r)\<rparr>)"
    by (rule section_step.create [OF assms(3) r circ(3)]) simp
  then show ?thesis using sections_finish view_create [OF assms(1) r] circ(2) assms(2) by fastforce
qed

lemma dispatch_sections:
  assumes "mem_ok m" "finite (dom (rm_heap m))" "dispatch env c k (mem_view m) = Inr (evs, s')"
  shows "\<exists>m'. sections m (AtSwitch c k) evs m' \<and> mem_view m' = s' \<and> finite (dom (rm_heap m'))"
proof -
  consider "Command c = CmdCreate" | "Command c = CmdExtend" | "Command c = CmdRelay" | "Command c = CmdPing" | "Command c = CmdDestroy"
    | "Command c \<notin> {CmdCreate, CmdExtend, CmdRelay, CmdPing, CmdDestroy}" by auto
  then show ?thesis
  proof cases
    case 1
    then show ?thesis using create_sections [OF assms(1,2)] assms(3) by (simp add: dispatch_def)
  next
    case 2
    then have "handleExtend env c k (mem_view m) = Inr (evs, s')" using assms(3) by (simp add: dispatch_def cmd_defs)
    then show ?thesis using extend_sections [OF assms(1) 2] assms(2) by metis
  next
    case 3
    then have "handleRelay env c (mem_view m) = Inr (evs, s')" using assms(3) by (simp add: dispatch_def cmd_defs)
    then show ?thesis using relay_sections [OF assms(1) 3] assms(2) by blast
  next
    case 4
    then have "handlePing c k (mem_view m) = Inr (evs, s')" using assms(3) by (simp add: dispatch_def cmd_defs)
    from handlePing_local [OF this, of "rm_srv m"] handlePing_local [OF this, of "mem_view m"] this
    show ?thesis using section_step.ping [OF 4] sections_finish assms(2) by fastforce
  next
    case 5
    then have "(evs, s') = destroy_all [CircID c] (mem_view m)" using assms(3) by (auto simp: dispatch_def cmd_defs split: prod.split)
    then show ?thesis using destroy_sections [of m "[CircID c]"] sections_silent [OF section_step.destroy_cell [OF 5]] assms(2)
      by (metis fst_conv snd_conv)
  next
    case 6
    then show ?thesis using section_step.other [OF 6] sections_finish assms(2,3) by (fastforce simp: dispatch_def)
  qed
qed

lemma handleCell_sections:
  assumes "mem_ok m" "finite (dom (rm_heap m))" "handleCell env now c k (mem_view m) = Some (Inr (evs, s'))"
  shows "\<exists>m'. sections m (AtTouch c k) evs m' \<and> mem_view m' = s' \<and> finite (dom (rm_heap m'))"
proof -
  let ?m = "m\<lparr>rm_srv := (rm_srv m)\<lparr>rs_timeout := Touch now (CircID c) (rs_timeout (rm_srv m))\<rparr>\<rparr>"
  have touch: "sections ?m (AtReasm c k) evs m' \<Longrightarrow> sections m (AtTouch c k) evs m'" for m'
    by (rule sections_silent [OF section_step.touch])
  have v: "mem_view ?m = (mem_view m)\<lparr>rs_timeout := Touch now (CircID c) (rs_timeout (mem_view m))\<rparr>"
    by (simp add: mem_view_def timeout_circuits)
  obtain x t where x: "reassemble c (mem_view ?m) = Some (Inr (x, t))"
    using assms(3) v by (auto simp: handleCell_def Let_def split: option.splits sum.splits)
  obtain s where s: "reassemble c (rm_srv ?m) = Some (Inr (x, s))"
    using x by (auto simp: reassemble_def mem_view_def Let_def split: if_splits option.splits sum.splits prod.splits)
  then have t: "t = mem_view (?m\<lparr>rm_srv := s\<rparr>)" using reassemble_view [OF s] x by simp
  show ?thesis
  proof (cases x)
    case None
    then have "evs = [] \<and> s' = t" using assms(3) x v by (simp add: handleCell_def)
    moreover have "sections ?m (AtReasm c k) [] (?m\<lparr>rm_srv := s\<rparr>)"
      using s None by (intro sections_finish section_step.fragment) simp
    ultimately show ?thesis using touch t assms(2) by (intro exI [of _ "?m\<lparr>rm_srv := s\<rparr>"]) simp
  next
    case (Some c')
    then have "dispatch env c' k (mem_view (?m\<lparr>rm_srv := s\<rparr>)) = Inr (evs, s')" using assms(3) x v t by (simp add: handleCell_def)
    from dispatch_sections [OF _ _ this] assms(1,2) obtain m' where
      m': "sections (?m\<lparr>rm_srv := s\<rparr>) (AtSwitch c' k) evs m'" "mem_view m' = s'" "finite (dom (rm_heap m'))" by auto
    have "section_step ?m (AtReasm c k) [] (AtSwitch c' k) (?m\<lparr>rm_srv := s\<rparr>)" using s Some by (intro section_step.whole) simp
    then show ?thesis using touch sections_silent m' by blast
  qed
qed

lemma sections_lock_run:
  assumes "sections m pc evs m'" "lock_run one_active p" "lp_mem p = m" "lp_gs p g = pc" "\<forall>h. h \<noteq> g \<longrightarrow> \<not> active p h"
  shows "\<exists>p'. lock_run one_active p' \<and> quiet p' \<and> lp_mem p' = m' \<and> map snd (lp_log p') = map snd (lp_log p) @ evs"
  using assms
proof (induction arbitrary: p rule: sections.induct)
  case (at_end m)
  then have "quiet p" unfolding quiet_def active_def by metis
  then show ?case using at_end by (intro exI [of _ p]) simp
next
  case (step m pc evs pc' m' evs' m'')
  let ?p = "go_section g evs pc' m' p"
  have "lock_step p ?p" using lock_step.advance [OF step.prems(3)] step.hyps(1) step.prems(2) by simp
  moreover have "one_active ?p" using step.prems(4) unfolding one_active_def active_def by (auto split: if_splits)
  ultimately have "lock_run one_active ?p" using lock_run.step step.prems(1) by blast
  from step.IH [OF this] step.prems(4) show ?case by (simp add: active_def comp_def)
qed

lemma atomic_lock_run:
  assumes "relay_trace L s"
  shows "\<exists>p. lock_run one_active p \<and> quiet p \<and> mem_view (lp_mem p) = s \<and> map snd (lp_log p) = L \<and> finite (dom (rm_heap (lp_mem p)))"
  using assms
proof (induction rule: relay_trace.induct)
  case (start sm rnd wfail cfg fs s fs')
  have "rs_circuits s = Map.empty" using start by (auto simp: newRelayServer_def Let_def split: prod.splits sum.splits)
  then have "mem_view (lp_mem (lock_start s)) = s" by (simp add: lock_start_def mem_view_def map_comp_def)
  then show ?case using lock_run.start [OF start, of one_active]
    by (intro exI [of _ "lock_start s"]) (simp add: lock_start_def quiet_def active_def)
next
  case (step L s evs s')
  then obtain p where p: "lock_run one_active p" "quiet p" "mem_view (lp_mem p) = s" "map snd (lp_log p) = L"
    "finite (dom (rm_heap (lp_mem p)))" by blast
  have ok: "mem_ok (lp_mem p)" using lock_run_ok [OF p(1)] by simp
  have fin: "lp_gs p h = Finished" for h using p(2) unfolding quiet_def active_def by blast
  have run: ?case if "lock_step p (go_section g [] pc m p)" "sections m pc evs m'" "mem_view m' = s'" "finite (dom (rm_heap m'))" for g m pc m'
  proof -
    have "one_active (go_section g [] pc m p)" using fin unfolding one_active_def active_def by (auto split: if_splits)
    then have "lock_run one_active (go_section g [] pc m p)" using lock_run.step [OF p(1) that(1)] by blast
    from sections_lock_run [OF that(2) this, of g] fin p(4) that(3,4) show ?thesis by (auto simp: active_def)
  qed
  from step.hyps(2) show ?case
  proof (cases rule: relay_step.cases)
    case (cell c env now k)
    then show ?thesis
      using handleCell_sections [OF ok p(5)] p(3) run [OF lock_step.arrive [OF fin cell(1)]] by blast
  next
    case (tick order now)
    let ?t = "snd (sweep now order (rs_timeout s))" and ?x = "fst (sweep now order (rs_timeout s))"
    let ?m = "(lp_mem p)\<lparr>rm_srv := (rm_srv (lp_mem p))\<lparr>rs_timeout := ?t\<rparr>\<rparr>"
    have st: "rs_timeout s = rs_timeout (rm_srv (lp_mem p))" using p(3) by auto
    have "lock_step p (go_section Sweeper [] (AtDestroy ?x) ?m p)"
      using tick(1) st by (intro lock_step.tick [OF fin refl, of order now]) simp_all
    moreover have "destroy_all ?x (mem_view ?m) = (evs, s')"
      using tick(2) p(3) [symmetric] by (simp add: idle_tick_def split_beta Let_def mem_view_def timeout_circuits)
    ultimately show ?thesis using destroy_sections [of ?m ?x] run p(5) by fastforce
  qed
qed

text \<open>
  C6: The relay's handlers may be reasoned about as if each ran in one step, as long as no two of them overlap:
  a run of critical sections in which at most one handler is active, stopped when none is, has emitted
  exactly the events and left exactly the state of some run of the atomic handlers, and every run of the
  atomic handlers arises that way.
\<close>

theorem exclusive_runs_are_atomic:
  "(\<exists>p. lock_run one_active p \<and> quiet p \<and> mem_view (lp_mem p) = s \<and> map snd (lp_log p) = L) \<longleftrightarrow> relay_trace L s"
  using lock_run_pending atomic_lock_run by blast

section \<open>Overlapping handlers\<close>

lemma lock_run_finite: "lock_run P p \<Longrightarrow> finite {g. active p g} \<and> finite (dom (rm_heap (lp_mem p)))"
proof (induction rule: lock_run.induct)
  case (step p p')
  have sub: "{x. active (go_section g evs pc m p) x} \<subseteq> insert g {x. active p x}" for g evs pc m
    by (auto simp: active_def split: if_splits)
  have "finite (dom (rm_heap m'))" if "section_step m pc evs pc' m'" "finite (dom (rm_heap m))" for m pc evs pc' m'
    using that by cases simp_all
  with step.hyps(2) step.IH show ?case by cases (auto intro: finite_subset [OF sub])
qed (simp add: lock_start_def active_def)

lemma idle_conn: "lock_run P p \<Longrightarrow> \<exists>k. lp_gs p (OnConn k) = Finished"
proof -
  assume "lock_run P p"
  then have "finite {k. active p (OnConn k)}" using lock_run_finite finite_vimageI [of "{g. active p g}" OnConn] by (simp add: inj_def vimage_def)
  then show ?thesis using ex_new_if_finite [OF infinite_UNIV_nat] unfolding active_def by fastforce
qed

lemma fresh_pointer: "lock_run P p \<Longrightarrow> \<exists>r. r \<notin> dom (rm_heap (lp_mem p))"
  using lock_run_finite ex_new_if_finite [OF infinite_UNIV_nat] by blast

lemma go_section_twice [simp]: "go_section g evs' pc' m' (go_section g evs pc m p) = go_section g (evs @ evs') pc' m' p"
  by (simp add: go_section_def)

lemma advance_section: "section_step m pc evs pc' m' \<Longrightarrow> lock_step\<^sup>*\<^sup>* p (go_section g evs0 pc m p0) \<Longrightarrow>
   lock_step\<^sup>*\<^sup>* p (go_section g (evs0 @ evs) pc' m' p0)"
  using lock_step.advance [of "go_section g evs0 pc m p0" g pc evs pc' m'] by (auto intro: rtranclp.rtrancl_into_rtrancl)

lemma run_sections:
  "sections m pc evs m' \<Longrightarrow> lock_step\<^sup>*\<^sup>* p (go_section g evs0 pc m p0) \<Longrightarrow> lock_step\<^sup>*\<^sup>* p (go_section g (evs0 @ evs) Finished m' p0)"
proof (induction arbitrary: evs0 rule: sections.induct)
  case (step m pc evs pc' m' evs' m'')
  from step.IH [OF advance_section [OF step.hyps(1) step.prems]] show ?case by simp
qed simp

lemma lock_steps_run: "lock_step\<^sup>*\<^sup>* p p' \<Longrightarrow> lock_run (\<lambda>_. True) p \<Longrightarrow> lock_run (\<lambda>_. True) p'"
  by (induction rule: rtranclp_induct) (blast intro: lock_run.step)+

definition destroy_cell_of :: "uint32 \<Rightarrow> Cell" where
  "destroy_cell_of cid = mkCell cid CmdDestroy 0 []"

definition create_cell_of :: "uint32 \<Rightarrow> Cell" where
  "create_cell_of cid = mkCell cid CmdCreate 32 (replicate 32 0)"

lemma sample_cells [simp]:
  "wf_cell (destroy_cell_of cid)" "CircID (destroy_cell_of cid) = cid" "Command (destroy_cell_of cid) = CmdDestroy"
  "wf_cell (create_cell_of cid)" "CircID (create_cell_of cid) = cid" "Command (create_cell_of cid) = CmdCreate"
  by (simp_all add: destroy_cell_of_def create_cell_of_def wf_mkCell)

lemma lock_switch:
  assumes "lp_gs p (OnConn k) = Finished" "wf_cell c" "Command c \<notin> {CmdFragment, CmdFragFinal}"
  shows "lock_step\<^sup>*\<^sup>* p (go_section (OnConn k) [] (AtSwitch c k)
     ((lp_mem p)\<lparr>rm_srv := (rm_srv (lp_mem p))\<lparr>rs_timeout := Touch now (CircID c) (rs_timeout (rm_srv (lp_mem p)))\<rparr>\<rparr>) p)"
proof -
  let ?m = "(lp_mem p)\<lparr>rm_srv := (rm_srv (lp_mem p))\<lparr>rs_timeout := Touch now (CircID c) (rs_timeout (rm_srv (lp_mem p)))\<rparr>\<rparr>"
  have "lock_step\<^sup>*\<^sup>* p (go_section (OnConn k) [] (AtTouch c k) (lp_mem p) p)" using lock_step.arrive [OF assms(1,2)] by blast
  from advance_section [OF section_step.touch this] have "lock_step\<^sup>*\<^sup>* p (go_section (OnConn k) [] (AtReasm c k) ?m p)" by simp
  moreover have "section_step ?m (AtReasm c k) [] (AtSwitch c k) ?m"
    using section_step.whole [of c ?m c "rm_srv ?m" k] assms(3) by (simp add: reassemble_other)
  ultimately show ?thesis using advance_section by fastforce
qed

lemma destroy_create_race:
  assumes "lock_run (\<lambda>_. True) p"
  shows "\<exists>p' circ. lock_step\<^sup>*\<^sup>* p p' \<and> (\<forall>g. active p' g \<longrightarrow> active p g) \<and> rs_circuits (mem_view (lp_mem p')) cid = Some circ \<and>
     lastSeen (rs_timeout (mem_view (lp_mem p'))) cid = None"
proof -
  let ?d = "destroy_cell_of cid" and ?c = "create_cell_of cid"
  obtain kg where g: "lp_gs p (OnConn kg) = Finished" using idle_conn [OF assms] by blast
  let ?g = "OnConn kg"
  obtain m evs where p1: "lock_step\<^sup>*\<^sup>* p (go_section ?g evs (AtRemove cid []) m p)" (is "lock_step\<^sup>*\<^sup>* _ ?p1")
  proof -
    from advance_section [OF section_step.destroy_cell lock_switch [OF g, of ?d]] obtain m0 where
      "lock_step\<^sup>*\<^sup>* p (go_section ?g [] (AtDestroy [cid]) m0 p)" by (auto simp: cmd_defs)
    from advance_section [OF section_step.destroy [OF prod.collapse [symmetric]] this] that show thesis by blast
  qed
  have run1: "lock_run (\<lambda>_. True) ?p1" by (rule lock_steps_run [OF p1 assms])
  obtain k where h: "lp_gs ?p1 (OnConn k) = Finished" using idle_conn [OF run1] by blast
  let ?h = "OnConn k"
  have gh: "?h \<noteq> ?g" using h by (auto split: if_splits)
  obtain m2 evs2 r circ where p2: "lock_step\<^sup>*\<^sup>* ?p1 (go_section ?h evs2 Finished m2 ?p1)" (is "lock_step\<^sup>*\<^sup>* _ ?p2")
    and m2: "rm_table m2 cid = Some r" "rm_heap m2 r = Some circ"
  proof -
    obtain m0 where m0: "lock_step\<^sup>*\<^sup>* ?p1 (go_section ?h [] (AtSwitch ?c k) m0 ?p1)" "rm_heap m0 = rm_heap m"
      using lock_switch [OF h, of ?c] by (fastforce simp: cmd_defs)
    obtain r where r: "r \<notin> dom (rm_heap m0)" using fresh_pointer [OF run1] m0(2) by auto
    obtain es s circ where s: "handleCreate undefined ?c k (rm_srv m0) = (es, s)" "rs_circuits s cid = Some circ"
      by (simp add: handleCreate_def GenKeyPair_def Let_def)
    from advance_section [OF section_step.create [OF _ r s(1), of circ] m0(1)] s(2) that show thesis by simp
  qed
  have "lp_gs ?p2 ?g = AtRemove cid []" using gh by simp
  from lock_step.advance [OF this section_step.remove]
  have "lock_step ?p2 (go_section ?g [] (AtDestroy []) (m2\<lparr>rm_srv := (rm_srv m2)\<lparr>rs_timeout := Remove cid (rs_timeout (rm_srv m2))\<rparr>\<rparr>) ?p2)"
    (is "lock_step _ (go_section _ _ _ ?m3 _)") by simp
  from advance_section [OF section_step.destroyed r_into_rtranclp [of lock_step, OF this]]
  have "lock_step\<^sup>*\<^sup>* ?p2 (go_section ?g [] Finished ?m3 ?p2)" by simp
  with p1 p2 have "lock_step\<^sup>*\<^sup>* p (go_section ?g [] Finished ?m3 ?p2)" by (meson rtranclp_trans)
  moreover have "active p x" if "active (go_section ?g [] Finished ?m3 ?p2) x" for x
    using that g unfolding active_def by (auto split: if_splits)
  ultimately show ?thesis using m2 by (intro exI [of _ "go_section ?g [] Finished ?m3 ?p2"] exI [of _ circ]) (simp add: Remove_def)
qed

lemma extend_destroy_race:
  assumes "lock_run (\<lambda>_. True) p" "lp_gs p g = AtLink cid r out evs" "rm_table (lp_mem p) cid = Some r"
    and "rm_heap (lp_mem p) r = Some circ" "circ_OutConn circ = None"
    and "\<And>x circ. rs_circuits (mem_view (lp_mem p)) x = Some circ \<Longrightarrow> circ_OutConn circ \<noteq> Some out"
  shows "\<exists>p'. lock_step\<^sup>*\<^sup>* p p' \<and> (\<forall>h. active p' h \<longleftrightarrow> active p h \<and> h \<noteq> g) \<and>
     lp_log p' = lp_log p @ map (Pair g) (SpawnForward (circ\<lparr>circ_OutConn := Some out\<rparr>) # evs) \<and>
     rs_circuits (mem_view (lp_mem p')) cid = None \<and>
     (\<forall>x. CloseConn out \<notin> set (fst (destroyCircuit x (mem_view (lp_mem p')))))"
proof -
  let ?circ = "circ\<lparr>circ_OutConn := Some out\<rparr>"
  have ok: "mem_ok (lp_mem p)" using lock_run_ok [OF assms(1)] by simp
  obtain k where h: "lp_gs p (OnConn k) = Finished" using idle_conn [OF assms(1)] by blast
  let ?h = "OnConn k"
  have gh: "?h \<noteq> g" using h assms(2) by auto
  obtain m0 where m0: "lock_step\<^sup>*\<^sup>* p (go_section ?h [] (AtDestroy [cid]) m0 p)" "rm_heap m0 = rm_heap (lp_mem p)" "rm_table m0 = rm_table (lp_mem p)"
    using advance_section [OF section_step.destroy_cell lock_switch [OF h, of "destroy_cell_of cid"]] by (fastforce simp: cmd_defs)
  have silent: "fst (destroy_all [cid] (mem_view m0)) = []"
    using m0(2,3) assms(3-5) by (simp add: destroyCircuit_def)
  obtain m where m: "sections m0 (AtDestroy [cid]) [] m" "rm_heap m = rm_heap (lp_mem p)" "rm_table m = (rm_table (lp_mem p))(cid := None)"
    using destroy_sections [of m0 "[cid]"] m0(2,3) unfolding silent by (fastforce simp: fun_upd_def)
  let ?p1 = "go_section ?h [] Finished m p" and ?m = "m\<lparr>rm_heap := (rm_heap m)(r \<mapsto> ?circ)\<rparr>"
  have "lock_step\<^sup>*\<^sup>* p ?p1" using run_sections [OF m(1) m0(1)] by simp
  moreover have "lock_step ?p1 (go_section g (SpawnForward ?circ # evs) Finished ?m ?p1)"
    using lock_step.advance [of ?p1 g] section_step.link [of m r circ ?circ out cid evs] assms(2,4) gh m(2) by simp
  ultimately have "lock_step\<^sup>*\<^sup>* p (go_section g (SpawnForward ?circ # evs) Finished ?m ?p1)" (is "lock_step\<^sup>*\<^sup>* _ ?p2")
    by (rule rtranclp.rtrancl_into_rtrancl)
  moreover have "active ?p2 x \<longleftrightarrow> active p x \<and> x \<noteq> g" for x using h unfolding active_def by (auto split: if_splits)
  moreover have view: "rs_circuits (mem_view (lp_mem ?p2)) x = (if x = cid then None else rs_circuits (mem_view (lp_mem p)) x)" for x
    using m(2,3) mem_okD(2) [OF ok assms(3), of x] by (cases "rm_table (lp_mem p) x") auto
  moreover have "CloseConn out \<notin> set (fst (destroyCircuit x (mem_view (lp_mem ?p2))))" for x
    using view [of x] assms(6) [of x] by (auto simp: destroyCircuit_def Let_def split: option.splits)
  ultimately show ?thesis by (intro exI [of _ ?p2]) simp
qed

text \<open>
  C11: What overlapping handlers keep and what they break. In every interleaving the circuit stored under an id has that id and
  a 32 byte key. But from any moment on, a Destroy and a Create of the same id can overlap so that the new circuit is
  in the table and the idle tracker does not know it: no sweep will report it. And when a circuit is
  destroyed while an Extend of it waits for the next hop, the connection it opened ends up in no circuit of the table:
  its forwarder runs, and no \<^verbatim>\<open>destroyCircuit\<close> closes it.
\<close>

theorem overlapping_handlers_race:
  assumes "lock_run (\<lambda>_. True) p"
  shows "(\<forall>circ. rs_circuits (mem_view (lp_mem p)) cid = Some circ \<longrightarrow> circ_ID circ = cid \<and> length (circ_Key circ) = 32) \<and>
     (\<exists>p'. lock_step\<^sup>*\<^sup>* p p' \<and> (\<forall>g. active p' g \<longrightarrow> active p g) \<and> rs_circuits (mem_view (lp_mem p')) cid \<noteq> None \<and>
       (\<forall>now order. cid \<notin> set (fst (sweep now order (rs_timeout (mem_view (lp_mem p'))))))) \<and>
     (\<forall>g r out evs circ. lp_gs p g = AtLink cid r out evs \<and> rm_table (lp_mem p) cid = Some r \<and>
         rm_heap (lp_mem p) r = Some circ \<and> circ_OutConn circ = None \<and>
         (\<forall>x circ. rs_circuits (mem_view (lp_mem p)) x = Some circ \<longrightarrow> circ_OutConn circ \<noteq> Some out) \<longrightarrow>
       (\<exists>p'. lock_step\<^sup>*\<^sup>* p p' \<and> (\<forall>h. active p' h \<longleftrightarrow> active p h \<and> h \<noteq> g) \<and>
         lp_log p' = lp_log p @ map (Pair g) (SpawnForward (circ\<lparr>circ_OutConn := Some out\<rparr>) # evs) \<and>
         rs_circuits (mem_view (lp_mem p')) cid = None \<and>
         (\<forall>x. CloseConn out \<notin> set (fst (destroyCircuit x (mem_view (lp_mem p')))))))"
proof (intro conjI allI impI)
  have ok: "mem_ok (lp_mem p)" using lock_run_ok [OF assms] by simp
  fix circ assume "rs_circuits (mem_view (lp_mem p)) cid = Some circ"
  then obtain r where r: "rm_table (lp_mem p) cid = Some r" "rm_heap (lp_mem p) r = Some circ" by (auto simp: map_comp_Some_iff)
  show "circ_ID circ = cid" using mem_okD(1) [OF ok r(1)] r(2) by simp
  show "length (circ_Key circ) = 32" by (rule mem_okD(3) [OF ok r(2)])
next
  obtain p' circ where p': "lock_step\<^sup>*\<^sup>* p p'" "\<forall>g. active p' g \<longrightarrow> active p g" "rs_circuits (mem_view (lp_mem p')) cid = Some circ"
    "lastSeen (rs_timeout (mem_view (lp_mem p'))) cid = None" using destroy_create_race [OF assms] by blast
  have "cid \<notin> set (fst (sweep now order (rs_timeout (mem_view (lp_mem p')))))" for now order
    using p'(4) by (simp add: sweep_expired_iff idle_expired_def)
  then show "\<exists>p'. lock_step\<^sup>*\<^sup>* p p' \<and> (\<forall>g. active p' g \<longrightarrow> active p g) \<and> rs_circuits (mem_view (lp_mem p')) cid \<noteq> None \<and>
     (\<forall>now order. cid \<notin> set (fst (sweep now order (rs_timeout (mem_view (lp_mem p'))))))" using p' by blast
qed (rule extend_destroy_race [OF assms]; blast)

definition sample_next :: relay_env where
  \<comment> \<open>a next hop that answers every dial\<close>
  "sample_next = sample_env\<lparr>re_obfs := (\<lambda>c. (None, c)),
     re_dial := (\<lambda>_. Some (3, \<lparr>inbox = MarshalCell 0 (\<lambda>_. 0) (mkCell 7 CmdCreated 32 []), outbox = []\<rparr>))\<rparr>"

lemma sample_next_simps [simp]: "re_obfs sample_next c = (None, c)"
  "re_dial sample_next a = Some (3, \<lparr>inbox = MarshalCell 0 (\<lambda>_. 0) (mkCell 7 CmdCreated 32 []), outbox = []\<rparr>)"
  by (simp_all add: sample_next_def)

lemma sample_dialled:
  assumes "circ_OutConn circ = None" "length (circ_Key circ) = 32"
  obtains c sent evs s where "wf_cell c" "Command c = CmdExtend" "CircID c = 7"
    "handleExtend sample_next c 1 (with_circuit m 7 circ) = Inr (sent # SpawnForward (circ\<lparr>circ_OutConn := Some 3\<rparr>) # evs, s)"
    "rs_circuits s 7 = Some (circ\<lparr>circ_OutConn := Some 3\<rparr>)"
proof -
  let ?p = "1 # 120 # replicate 32 (0 :: byte)" and ?created = "mkCell 7 CmdCreated 32 []"
  obtain e where e: "Encrypt (re_aes sample_next) (\<lambda>_. 3) (circ_Key circ) ?p = Inr e" "Decrypt (re_aes sample_next) (circ_Key circ) e = Inr ?p"
    using gcm.enc_ok [of "circ_Key circ" "re_aes sample_next" "\<lambda>_. 3" ?p] assms(2) by auto
  have len: "length e \<le> CellBodyMax" using gcm.enc_len [OF e(1)] by simp
  let ?c = "mkCell 7 CmdExtend (length e) e"
  have "fst (ReadCell tcp_readFull (MarshalCell 0 (\<lambda>_. 0) ?created)) = Inr (canon_cell ?created)"
    using tcp.ReadCell_MarshalCell [of ?created "MarshalCell 0 (\<lambda>_. 0) ?created" 0 "\<lambda>_. 0" "[]"] wf_mkCell [of 32 7 CmdCreated "[]"]
    by (auto simp: wf_cell_def)
  moreover have "Command (canon_cell ?created) = CmdCreated" by (simp add: canon_cell_def)
  ultimately have "\<exists>sent evs s. extend_next sample_next 7 circ 1 ?p (with_circuit m 7 circ) =
     (sent # SpawnForward (circ\<lparr>circ_OutConn := Some 3\<rparr>) # evs, s) \<and> rs_circuits s 7 = Some (circ\<lparr>circ_OutConn := Some 3\<rparr>)"
    by (simp add: extend_next_def Let_def)
  then obtain sent evs s where "handleExtend sample_next ?c 1 (with_circuit m 7 circ) = Inr (sent # SpawnForward (circ\<lparr>circ_OutConn := Some 3\<rparr>) # evs, s)"
    "rs_circuits s 7 = Some (circ\<lparr>circ_OutConn := Some 3\<rparr>)"
    using e(2) len assms(1) wf_mkCell [OF len, of 7 CmdExtend e] by (auto simp: handleExtend_def body_slice_def)
  with that [of ?c] wf_mkCell [OF len] show thesis by simp
qed

lemma sample_extending:
  obtains p r evs circ where "lock_run (\<lambda>_. True) p" "lp_gs p (OnConn 1) = AtLink 7 r 3 evs" "rm_table (lp_mem p) = [7 \<mapsto> r]"
    "rm_heap (lp_mem p) r = Some circ" "circ_OutConn circ = None"
proof -
  obtain s fs where s: "newRelayServer (\<lambda>k u. k) (\<lambda>_. 1) False sample_relay_cfg Map.empty = (Inr s, fs)"
    by (simp add: newRelayServer_def LoadOrCreateX25519_def read_hex_key_def Let_def)
  let ?p = "lock_start s"
  have p: "lp_gs ?p g = Finished" "rm_table (lp_mem ?p) = Map.empty" for g by (simp_all add: lock_start_def)
  obtain m where m: "lock_step\<^sup>*\<^sup>* ?p (go_section (OnConn 1) [] (AtSwitch (create_cell_of 7) 1) m ?p)" "rm_table m = Map.empty"
    using lock_switch [OF p(1), of "create_cell_of 7"] p(2) by (fastforce simp: cmd_defs)
  obtain r where r: "r \<notin> dom (rm_heap m)"
    using fresh_pointer [OF lock_steps_run [OF m(1) lock_run.start [OF s]]] by auto
  obtain es t circ where t: "handleCreate sample_next (create_cell_of 7) 1 (rm_srv m) = (es, t)" "rs_circuits t 7 = Some circ"
    by (simp add: handleCreate_def GenKeyPair_def Let_def)
  then have circ: "circ_OutConn circ = None" "length (circ_Key circ) = 32" using handleCreate_circ [OF t(1)] by simp_all
  let ?m = "m\<lparr>rm_heap := (rm_heap m)(r \<mapsto> circ), rm_table := [7 \<mapsto> r]\<rparr>"
  let ?p1 = "go_section (OnConn 1) es Finished ?m ?p"
  have p1: "lock_step\<^sup>*\<^sup>* ?p ?p1" using advance_section [OF section_step.create [OF _ r t(1)] m(1)] t(2) m(2) by simp
  let ?m2 = "?m\<lparr>rm_srv := (rm_srv ?m)\<lparr>rs_timeout := Touch 0 7 (rs_timeout (rm_srv ?m))\<rparr>\<rparr>"
  obtain c sent evs u where c: "wf_cell c" "Command c = CmdExtend" "CircID c = 7"
    "handleExtend sample_next c 1 (with_circuit ?m2 7 circ) = Inr (sent # SpawnForward (circ\<lparr>circ_OutConn := Some 3\<rparr>) # evs, u)"
    "rs_circuits u 7 = Some (circ\<lparr>circ_OutConn := Some 3\<rparr>)"
    by (rule sample_dialled [OF circ, of ?m2])
  have "lock_step\<^sup>*\<^sup>* ?p1 (go_section (OnConn 1) [] (AtSwitch c 1) ?m2 ?p1)"
    using lock_switch [of ?p1 1 c 0] c(1-3) p(1) by (simp add: cmd_defs)
  from advance_section [OF section_step.lookup_extend this, of r] c(2,3)
  have "lock_step\<^sup>*\<^sup>* ?p1 (go_section (OnConn 1) [] (AtExtend c 1 r) ?m2 ?p1)" by simp
  moreover have "section_step ?m2 (AtExtend c 1 r) [sent] (AtLink 7 r 3 evs) ?m2"
    using section_step.dialled [of ?m2 r circ sample_next c 1 sent "circ\<lparr>circ_OutConn := Some 3\<rparr>" evs u 3] c linked_differs [OF circ(1)] by simp
  ultimately have p2: "lock_step\<^sup>*\<^sup>* ?p1 (go_section (OnConn 1) [sent] (AtLink 7 r 3 evs) ?m2 ?p1)" using advance_section by fastforce
  show thesis
    by (rule that [OF lock_steps_run [OF rtranclp_trans [OF p1 p2] lock_run.start [OF s]], of r evs circ]) (simp_all add: circ)
qed

theorem overlapping_handlers_race_witness:
  "\<exists>p p'. lock_run (\<lambda>_. True) p \<and> lock_step\<^sup>*\<^sup>* p p' \<and> rs_circuits (mem_view (lp_mem p)) 7 \<noteq> None \<and>
     rs_circuits (mem_view (lp_mem p')) 7 = None \<and> (\<forall>x. CloseConn 3 \<notin> set (fst (destroyCircuit x (mem_view (lp_mem p')))))"
proof -
  obtain p r evs circ where p: "lock_run (\<lambda>_. True) p" "lp_gs p (OnConn 1) = AtLink 7 r 3 evs" "rm_table (lp_mem p) = [7 \<mapsto> r]"
    "rm_heap (lp_mem p) r = Some circ" "circ_OutConn circ = None" by (rule sample_extending)
  have "\<forall>x c. rs_circuits (mem_view (lp_mem p)) x = Some c \<longrightarrow> circ_OutConn c \<noteq> Some 3" using p(3-5) by (simp add: map_comp_Some_iff)
  then obtain p' where "lock_step\<^sup>*\<^sup>* p p'" "rs_circuits (mem_view (lp_mem p')) 7 = None"
    "\<forall>x. CloseConn 3 \<notin> set (fst (destroyCircuit x (mem_view (lp_mem p'))))"
    using overlapping_handlers_race [OF p(1), of 7] p(2-5) by (metis fun_upd_same)
  moreover have "rs_circuits (mem_view (lp_mem p)) 7 \<noteq> None" using p(3,4) by simp
  ultimately show ?thesis using p(1) by blast
qed

section \<open>Circuit ids are not bound to connections\<close>

text \<open>
  C12: The table of circuits is keyed by the id alone. Whatever connection \<open>k\<close> it arrives on, a Destroy
  cell tears down the circuit that has its id, and tells the next hop of that circuit; a Create cell with an id in use
  replaces the circuit: the id then belongs to \<open>k\<close>, the one reply goes to \<open>k\<close>, the former
  owner is told nothing, and the connection to the former circuit's next hop, unless another circuit uses it too, is
  closed neither now nor by destroying any circuit later.
\<close>

theorem circuit_ids_shared:
  assumes "rs_circuits s cid = Some circ" "circ_OutConn circ = Some out" "wf_cell c" "CircID c = cid"
  shows "(Command c = CmdDestroy \<longrightarrow> (\<exists>s'. handleCell env now c k s =
         Some (Inr ([SendCell out (mkCell cid CmdDestroy 0 []), CloseConn out], s')) \<and>
       rs_circuits s' = (rs_circuits s)(cid := None) \<and> lastSeen (rs_timeout s') cid = None)) \<and>
     (Command c = CmdCreate \<longrightarrow> (\<exists>s' circ' reply. handleCell env now c k s = Some (Inr ([SendCell k reply], s')) \<and>
       rs_circuits s' = (rs_circuits s)(cid \<mapsto> circ') \<and> circ_InConn circ' = k \<and> circ_OutConn circ' = None \<and>
       ((\<forall>x circ. x \<noteq> cid \<longrightarrow> rs_circuits s x = Some circ \<longrightarrow> circ_OutConn circ \<noteq> Some out) \<longrightarrow>
         (\<forall>x. CloseConn out \<notin> set (fst (destroyCircuit x s'))))))"
proof (intro conjI impI)
  assume "Command c = CmdDestroy"
  then show "\<exists>s'. handleCell env now c k s = Some (Inr ([SendCell out (mkCell cid CmdDestroy 0 []), CloseConn out], s')) \<and>
     rs_circuits s' = (rs_circuits s)(cid := None) \<and> lastSeen (rs_timeout s') cid = None"
    using assms by (simp add: relay_cmds destroyCircuit_def Remove_def)
next
  assume create: "Command c = CmdCreate"
  obtain s' circ' reply where s': "handleCell env now c k s = Some (Inr ([SendCell k reply], s'))"
    "rs_circuits s' = (rs_circuits s)(cid \<mapsto> circ')" "circ_InConn circ' = k" "circ_OutConn circ' = None"
    using create_effect [OF create, of env now k s] assms(4) by (simp add: Let_def)
  have "CloseConn out \<notin> set (fst (destroyCircuit x s'))"
    if "\<forall>x circ. x \<noteq> cid \<longrightarrow> rs_circuits s x = Some circ \<longrightarrow> circ_OutConn circ \<noteq> Some out" for x
    using that s'(2,4) by (cases "x = cid") (auto simp: destroyCircuit_def Let_def split: option.split)
  with s' show "\<exists>s' circ' reply. handleCell env now c k s = Some (Inr ([SendCell k reply], s')) \<and>
     rs_circuits s' = (rs_circuits s)(cid \<mapsto> circ') \<and> circ_InConn circ' = k \<and> circ_OutConn circ' = None \<and>
     ((\<forall>x circ. x \<noteq> cid \<longrightarrow> rs_circuits s x = Some circ \<longrightarrow> circ_OutConn circ \<noteq> Some out) \<longrightarrow>
       (\<forall>x. CloseConn out \<notin> set (fst (destroyCircuit x s'))))" by blast
qed

theorem circuit_ids_shared_witness:
  "\<exists>s1 s2 reply circ. handleCell sample_env 1 (destroy_cell_of 7) 9 (sample_exit\<lparr>rs_circuits := [7 \<mapsto> sample_circ\<lparr>circ_OutConn := Some 3\<rparr>]\<rparr>) =
       Some (Inr ([SendCell 3 (mkCell 7 CmdDestroy 0 []), CloseConn 3], s1)) \<and> rs_circuits s1 7 = None \<and>
     handleCell sample_env 1 (create_cell_of 7) 9 (sample_exit\<lparr>rs_circuits := [7 \<mapsto> sample_circ\<lparr>circ_OutConn := Some 3\<rparr>]\<rparr>) =
       Some (Inr ([SendCell 9 reply], s2)) \<and> rs_circuits s2 7 = Some circ \<and> circ_InConn circ = 9 \<and>
     (\<forall>x. CloseConn 3 \<notin> set (fst (destroyCircuit x s2)))"
proof -
  let ?circ = "sample_circ\<lparr>circ_OutConn := Some 3\<rparr>"
  let ?s = "sample_exit\<lparr>rs_circuits := [7 \<mapsto> ?circ]\<rparr>"
  have "rs_circuits ?s 7 = Some ?circ" "circ_OutConn ?circ = Some 3" by simp_all
  note shared = circuit_ids_shared [OF this, of _ sample_env 1 9]
  obtain s1 where "handleCell sample_env 1 (destroy_cell_of 7) 9 ?s = Some (Inr ([SendCell 3 (mkCell 7 CmdDestroy 0 []), CloseConn 3], s1))"
    "rs_circuits s1 7 = None" using shared [of "destroy_cell_of 7"] by (auto simp: cmd_defs)
  moreover obtain s2 reply circ where "handleCell sample_env 1 (create_cell_of 7) 9 ?s = Some (Inr ([SendCell 9 reply], s2))"
    "rs_circuits s2 = (rs_circuits ?s)(7 \<mapsto> circ)" "circ_InConn circ = 9" "\<forall>x. CloseConn 3 \<notin> set (fst (destroyCircuit x s2))"
    using shared [of "create_cell_of 7"] by (auto simp: cmd_defs)
  ultimately show ?thesis by (auto intro!: exI)
qed

end
