(* ===== verification/Directory_Spec.thy ===== *)
theory Directory_Spec
  imports Directory
begin

text \<open>
  What the tables of the directory (\<^verbatim>\<open>src/directory/main.go\<close>) mean: an abstract directory only keeps the log of the
  descriptors it accepted, that is, of the requests it answered with status 200, and looks an id up
  as the first accepted descriptor of greatest \<^verbatim>\<open>LastSeen\<close>. The routes with their rate limits, authentication and
  conditional updates refine it.
\<close>

section \<open>The abstract directory\<close>

definition latest :: "('d \<Rightarrow> string) \<Rightarrow> ('d \<Rightarrow> int) \<Rightarrow> 'd list \<Rightarrow> (string \<rightharpoonup> 'd)" where
  \<comment> \<open>the first descriptor of an id that no accepted descriptor of this id is newer than\<close>
  "latest key seen_at hist k =
     find (\<lambda>d. \<forall>e \<in> set hist. key e = k \<longrightarrow> seen_at e \<le> seen_at d) (filter (\<lambda>d. key d = k) hist)"

fun dir_status ::
  "(float64 \<Rightarrow> int \<Rightarrow> 'lim) \<Rightarrow> ('lim \<Rightarrow> bool \<times> 'lim) \<Rightarrow> dir_op \<Rightarrow> 'lim directoryServer \<Rightarrow> nat" where
  \<comment> \<open>the status code of the response to a request\<close>
  "dir_status nl al (DRegister r n1 n2 n3 body) s =
     fst (fst (fst (rateLimit nl al (dc_RegisterRPS (ds_cfg s)) r (handleRegister n1 n2 n3 body) [] s)))"
| "dir_status nl al (DSync r n1 n2 body) s =
     fst (fst (fst (rateLimit nl al (dc_ConsensusRPS (ds_cfg s)) r (handleSync n1 n2 body) [] s)))"
| "dir_status nl al (DConsensus r) s =
     fst (fst (fst (rateLimit nl al (dc_ConsensusRPS (ds_cfg s)) r (\<lambda>s'. (((200, ''''), ()), s')) () s)))"

fun submitted :: "dir_op \<Rightarrow> RelayDescriptor option \<times> BrokerDescriptor option" where
  \<comment> \<open>the descriptor a request carries; a direct registration is stamped with the directory's clock\<close>
  "submitted (DRegister r n1 n2 n3 (Some req)) =
     (if rq_Kind req = KindRelay then (map_option (\<lambda>rd. rd\<lparr>rd_LastSeen := n2\<rparr>) (rq_Relay req), None)
      else (None, map_option (\<lambda>bd. bd\<lparr>bd_LastSeen := n2\<rparr>) (rq_Broker req)))"
| "submitted (DSync r n1 n2 (Some req)) =
     (if rq_Kind req = KindRelay then (rq_Relay req, None) else (None, rq_Broker req))"
| "submitted _ = (None, None)"

definition opt_list :: "'a option \<Rightarrow> 'a list" where
  "opt_list x = (case x of None \<Rightarrow> [] | Some a \<Rightarrow> [a])"

definition accepted ::
  "(float64 \<Rightarrow> int \<Rightarrow> 'lim) \<Rightarrow> ('lim \<Rightarrow> bool \<times> 'lim) \<Rightarrow> dir_op \<Rightarrow> 'lim directoryServer \<Rightarrow>
   RelayDescriptor list \<times> BrokerDescriptor list" where
  "accepted nl al op s =
     (if dir_status nl al op s = 200 then map_prod opt_list opt_list (submitted op) else ([], []))"

fun dir_history ::
  "(float64 \<Rightarrow> int \<Rightarrow> 'lim) \<Rightarrow> ('lim \<Rightarrow> bool \<times> 'lim) \<Rightarrow> dir_op list \<Rightarrow> 'lim directoryServer \<Rightarrow>
   RelayDescriptor list \<times> BrokerDescriptor list" where
  \<comment> \<open>everything accepted while the requests are handled one after the other\<close>
  "dir_history nl al [] s = ([], [])"
| "dir_history nl al (op # ops) s =
     (fst (accepted nl al op s) @ fst (dir_history nl al ops (dir_step nl al op s)),
      snd (accepted nl al op s) @ snd (dir_history nl al ops (dir_step nl al op s)))"

section \<open>Looking up the log\<close>

lemma latest_Nil [simp]: "latest key seen_at [] = Map.empty"
  by (simp add: latest_def fun_eq_iff)

lemma find_cong_set: "(\<And>x. x \<in> set xs \<Longrightarrow> P x = Q x) \<Longrightarrow> find P xs = find Q xs"
  by (induction xs) auto

lemma find_append: "find P (xs @ ys) = (case find P xs of None \<Rightarrow> find P ys | Some x \<Rightarrow> Some x)"
  by (induction xs) auto

lemma find_SomeD: "find P xs = Some x \<Longrightarrow> x \<in> set xs \<and> P x"
  by (induction xs) (auto split: if_splits)

lemma latest_Some_max:
  assumes "latest key seen_at hist k = Some d"
  shows "d \<in> set hist \<and> key d = k \<and> (\<forall>e \<in> set hist. key e = k \<longrightarrow> seen_at e \<le> seen_at d)"
  using find_SomeD [OF assms [unfolded latest_def]] by auto

lemma latest_None: "latest key seen_at hist k = None \<Longrightarrow> d \<in> set hist \<Longrightarrow> key d \<noteq> k"
proof
  assume n: "latest key seen_at hist k = None" and d: "d \<in> set hist" "key d = k"
  let ?F = "set (filter (\<lambda>d. key d = k) hist)"
  have fin: "finite (seen_at ` ?F)" "seen_at ` ?F \<noteq> {}" using d by auto
  from Max_in [OF fin] obtain m where m: "m \<in> ?F" "seen_at m = Max (seen_at ` ?F)" by auto
  have "\<forall>e \<in> set hist. key e = k \<longrightarrow> seen_at e \<le> seen_at m" using m(2) fin(1) by auto
  with n m(1) show False unfolding latest_def find_None_iff by blast
qed

lemma latest_snoc: "latest key seen_at (hist @ [d]) = snd (put_newer key seen_at d (latest key seen_at hist))"
proof
  fix k
  show "latest key seen_at (hist @ [d]) k = snd (put_newer key seen_at d (latest key seen_at hist)) k"
  proof (cases "k = key d")
    case False
    then show ?thesis by (auto simp: latest_def put_newer_def split: option.split)
  next
    case k: True
    let ?F = "filter (\<lambda>e. key e = k) hist"
    show ?thesis
    proof (cases "latest key seen_at hist k")
      case None
      then have "?F = []" using latest_None [of key seen_at hist k] by (auto simp: filter_empty_conv)
      moreover have "\<forall>e \<in> set hist. key e \<noteq> k" using latest_None [OF None] by blast
      ultimately show ?thesis using None k by (auto simp: latest_def put_newer_def)
    next
      case (Some old)
      note max = latest_Some_max [OF Some]
      show ?thesis
      proof (cases "seen_at d > seen_at old")
        case True
        have "find (\<lambda>x. \<forall>e \<in> set (hist @ [d]). key e = k \<longrightarrow> seen_at e \<le> seen_at x) ?F = None"
          using max True k by (force simp: find_None_iff)
        moreover have "\<forall>e \<in> set (hist @ [d]). key e = k \<longrightarrow> seen_at e \<le> seen_at d" using max True by force
        ultimately show ?thesis using Some True k by (simp add: latest_def put_newer_def find_append)
      next
        case False
        have "find (\<lambda>x. \<forall>e \<in> set (hist @ [d]). key e = k \<longrightarrow> seen_at e \<le> seen_at x) ?F =
            find (\<lambda>x. \<forall>e \<in> set hist. key e = k \<longrightarrow> seen_at e \<le> seen_at x) ?F"
          using max False k by (intro find_cong_set) force
        then show ?thesis using Some False k by (simp add: latest_def put_newer_def find_append)
      qed
    qed
  qed
qed

section \<open>The routes refine the abstract directory\<close>

definition dir_abs :: "RelayDescriptor list \<times> BrokerDescriptor list \<Rightarrow> 'lim directoryServer \<Rightarrow> bool" where
  \<comment> \<open>the tables show exactly what was accepted\<close>
  "dir_abs hist s \<longleftrightarrow> ds_relays s = latest rd_ID rd_LastSeen (fst hist) \<and> ds_brokers s = latest bd_ID bd_LastSeen (snd hist)"

lemma dir_abs_cong: "ds_relays s = ds_relays s' \<Longrightarrow> ds_brokers s = ds_brokers s' \<Longrightarrow> dir_abs hist s = dir_abs hist s'"
  by (simp add: dir_abs_def)

lemma store_cases:
  assumes "storeRegistration now req stamp s = ((stored, changed, msg, code), s')"
  obtains (invalid) "code = 400" "s' = s"
  | (relay) rd where "code = 0" "rq_Kind req = KindRelay" "rq_Relay req = Some rd"
      "s' = s\<lparr>ds_relays := snd (put_newer rd_ID rd_LastSeen (if stamp then rd\<lparr>rd_LastSeen := now\<rparr> else rd) (ds_relays s))\<rparr>"
  | (broker) bd where "code = 0" "rq_Kind req = KindBroker" "rq_Broker req = Some bd"
      "s' = s\<lparr>ds_brokers := snd (put_newer bd_ID bd_LastSeen (if stamp then bd\<lparr>bd_LastSeen := now\<rparr> else bd) (ds_brokers s))\<rparr>"
  using assms that by (auto simp: storeRegistration_def Let_def split_beta split: if_splits option.splits)

lemma dir_abs_store:
  assumes "storeRegistration now req stamp s = ((stored, changed, msg, code), s')" "dir_abs hist s"
    and x: "x = (if rq_Kind req = KindRelay then (map_option (\<lambda>rd. if stamp then rd\<lparr>rd_LastSeen := now\<rparr> else rd) (rq_Relay req), None)
          else (None, map_option (\<lambda>bd. if stamp then bd\<lparr>bd_LastSeen := now\<rparr> else bd) (rq_Broker req)))"
  shows "(code = 0 \<longrightarrow> dir_abs (fst hist @ opt_list (fst x), snd hist @ opt_list (snd x)) s') \<and> (code \<noteq> 0 \<longrightarrow> code = 400 \<and> s' = s)"
  using assms(1)
proof (cases rule: store_cases)
  case (relay rd)
  then show ?thesis using assms(2) unfolding x by (simp add: dir_abs_def opt_list_def latest_snoc)
next
  case (broker bd)
  then show ?thesis using assms(2) unfolding x by (simp add: dir_abs_def opt_list_def latest_snoc)
qed simp

lemma dir_abs_register:
  assumes "dir_abs hist s"
  shows "dir_abs (if fst (fst (fst (handleRegister n1 n2 n3 body s))) = 200
      then (fst hist @ opt_list (fst (submitted (DRegister r n1 n2 n3 body))), snd hist @ opt_list (snd (submitted (DRegister r n1 n2 n3 body))))
      else hist) (snd (handleRegister n1 n2 n3 body s))"
proof (cases body)
  case (Some req)
  obtain stored changed msg code s' where st: "storeRegistration n2 req True s = ((stored, changed, msg, code), s')"
    by (metis prod.exhaust)
  show ?thesis using dir_abs_store [OF st assms refl] assms st Some
    by (cases "code = 0"; cases "rq_Kind req = KindRelay") (simp_all add: handleRegister_def)
qed (use assms in \<open>simp add: handleRegister_def\<close>)

lemma dir_abs_sync:
  assumes "dir_abs hist s"
  shows "dir_abs (if fst (fst (fst (handleSync n1 n2 body s))) = 200
      then (fst hist @ opt_list (fst (submitted (DSync r n1 n2 body))), snd hist @ opt_list (snd (submitted (DSync r n1 n2 body))))
      else hist) (snd (handleSync n1 n2 body s))"
proof (cases body)
  case (Some req)
  obtain stored changed msg code s' where st: "storeRegistration n2 req False s = ((stored, changed, msg, code), s')"
    by (metis prod.exhaust)
  show ?thesis using dir_abs_store [OF st assms refl] assms st Some
    by (cases "code = 0"; cases "rq_Kind req = KindRelay") (simp_all add: handleSync_def option.map_ident)
qed (use assms in \<open>simp add: handleSync_def\<close>)

lemma dir_abs_limit:
  assumes "dir_abs hist s" "\<And>s1. dir_abs hist s1 \<Longrightarrow> dir_abs (if fst (fst (fst (h s1))) = 200 then hist' else hist) (snd (h s1))"
  shows "dir_abs (if fst (fst (fst (rateLimit nl al rps r h none s))) = 200 then hist' else hist) (snd (rateLimit nl al rps r h none s))"
proof (cases rule: rateLimit_cases [of nl al rps r h none s])
  case (1 s1)
  then show ?thesis using assms(1) dir_abs_cong [of s1 s] by simp
next
  case (2 s1)
  then show ?thesis using assms dir_abs_cong [of s1 s] by simp
qed

lemma dir_abs_step:
  assumes "dir_abs hist s"
  shows "dir_abs (fst hist @ fst (accepted nl al op s), snd hist @ snd (accepted nl al op s)) (dir_step nl al op s)"
proof -
  let ?new = "(fst hist @ opt_list (fst (submitted op)), snd hist @ opt_list (snd (submitted op)))"
  have "dir_abs (if dir_status nl al op s = 200 then ?new else hist) (dir_step nl al op s)"
  proof (cases op)
    case (DRegister r n1 n2 n3 body)
    show ?thesis unfolding DRegister dir_step.simps dir_status.simps
      by (rule dir_abs_limit [OF assms]) (rule dir_abs_register)
  next
    case (DSync r n1 n2 body)
    show ?thesis unfolding DSync dir_step.simps dir_status.simps
      by (rule dir_abs_limit [OF assms]) (rule dir_abs_sync)
  next
    case (DConsensus r)
    show ?thesis unfolding DConsensus dir_step.simps dir_status.simps
      by (rule dir_abs_limit [OF assms]) (simp add: opt_list_def)
  qed
  then show ?thesis by (cases "dir_status nl al op s = 200") (simp_all add: accepted_def)
qed

lemma dir_abs_run:
  "dir_abs hist s \<Longrightarrow>
   dir_abs (fst hist @ fst (dir_history nl al ops s), snd hist @ snd (dir_history nl al ops s)) (fold (dir_step nl al) ops s)"
proof (induction ops arbitrary: hist s)
  case (Cons op ops)
  from Cons.IH [OF dir_abs_step [OF Cons.prems, of nl al op]] show ?case by simp
qed simp

text \<open>
  C27: The directory refines the log of what it accepted. After any sequence of requests to a new directory, with any
  rate limiter, the table entry of an id is exactly the first descriptor of greatest LastSeen
  among those submitted for this id by requests that were answered with 200 (a direct registration
  counting with the directory's own clock); every other request left no trace.
\<close>

theorem directory_refines_log:
  assumes "newServer pem_ok gen wfail cfg fs = (Some s, fs')"
  shows "ds_relays (fold (dir_step nl al) ops s) = latest rd_ID rd_LastSeen (fst (dir_history nl al ops s)) \<and>
     ds_brokers (fold (dir_step nl al) ops s) = latest bd_ID bd_LastSeen (snd (dir_history nl al ops s))"
proof -
  have "dir_abs ([], []) s"
    using assms by (auto simp: newServer_def dir_abs_def split: prod.splits sum.splits)
  from dir_abs_run [OF this, of nl al ops] show ?thesis by (simp add: dir_abs_def)
qed

theorem directory_refines_log_witness:
  "\<exists>(s :: unit directoryServer) fs'. newServer (\<lambda>_. True) ([], []) False sample_dir_cfg Map.empty = (Some s, fs') \<and>
     ds_relays (fold (dir_step (\<lambda>_ _. ()) (\<lambda>l. (True, l)))
       [DRegister \<lparr>hr_RemoteAddr = ''a'', hr_XForwardedFor = ''''\<rparr> 1010 1010 1010 (Some sample_request)] s) ''r1'' =
     latest rd_ID rd_LastSeen [sample_relay\<lparr>rd_LastSeen := 1010\<rparr>] ''r1''"
proof -
  let ?op = "DRegister \<lparr>hr_RemoteAddr = ''a'', hr_XForwardedFor = ''''\<rparr> 1010 1010 1010 (Some sample_request)"
  obtain s :: "unit directoryServer" and fs' where s: "newServer (\<lambda>_. True) ([], []) False sample_dir_cfg Map.empty = (Some s, fs')"
    and e: "ds_cfg s = sample_dir_cfg" "ds_limiters s = Map.empty" "ds_relays s = Map.empty"
    by (simp add: newServer_def LoadOrCreateEd25519_def read_hex_key_def BuildHTTPClient_def sample_dir_cfg_def)
  let ?s = "s\<lparr>ds_limiters := [limiter_key ''a'' 5 \<mapsto> ()]\<rparr>"
  have "verifyHMAC 1010 ?s sample_request 30" by (rule sample_verify) (simp_all add: int64_def e)
  then have "fst (fst (fst (handleRegister 1010 1010 1010 (Some sample_request) ?s))) = 200"
    using e(3) by (simp add: handleRegister_def storeRegistration_def sample_request_def sample_relay_def put_newer_def Let_def)
  then have st: "dir_status (\<lambda>_ _. ()) (\<lambda>l. (True, l)) ?op s = 200"
    using e by (simp add: rateLimit_def limiter_def sample_dir_cfg_def Let_def)
  have "fst (dir_history (\<lambda>_ _. ()) (\<lambda>l. (True, l)) [?op] s) = [sample_relay\<lparr>rd_LastSeen := 1010\<rparr>]"
    using st by (simp add: accepted_def opt_list_def sample_request_def del: dir_status.simps)
  with directory_refines_log [OF s, of "\<lambda>_ _. ()" "\<lambda>l. (True, l)" "[?op]"] s show ?thesis by (metis (no_types, lifting))
qed

end
