(* ===== verification/Client_Pool.thy ===== *)
theory Client_Pool
  imports Client_Circuit
begin

text \<open>
  The circuit pool of \<^verbatim>\<open>src/client/main.go\<close>: the three ways to build a circuit, the round-robin
  choice with replacement of expired circuits, and sending with one retry. What a build takes from
  outside is a record \<open>build_env\<close>; each attempt gets its own. Circuits are shared by pointer in the
  source; here the pool owns them and an operation writes the used circuit back at its index.
\<close>

section \<open>Building one circuit\<close>

record 'n build_env =
  be_tr :: "'n transport"
  be_sm :: scalar_mult
  be_aes :: block_cipher
  be_rnds :: "nat \<Rightarrow> nat \<Rightarrow> nat \<Rightarrow> byte"
  be_idrnd :: "nat \<Rightarrow> byte"
  be_picks :: "nat \<Rightarrow> byte"
  be_now :: int
  be_unixNow :: int
  be_dial :: "string \<Rightarrow> 'n option"
  be_obfs :: "'n \<Rightarrow> obfs_error option \<times> 'n"
  be_kindDial :: "string \<Rightarrow> 'n option"                      \<comment> \<open>\<^verbatim>\<open>webrtcx.ClientDial\<close> at a broker URL\<close>
  be_post :: "string \<Rightarrow> AssignRequest \<Rightarrow> (nat \<times> AssignResponse option) option"
    \<comment> \<open>POST to a URL: status and decoded body\<close>
  be_unmarshal :: "bytes \<Rightarrow> guardState"
  be_marshal :: "guardState \<Rightarrow> bytes"
  be_wfail :: bool

definition assignViaBroker :: "'n build_env \<Rightarrow> string \<Rightarrow> string \<Rightarrow> string \<Rightarrow> client_error + RelayDescriptor" where
  "assignViaBroker env brokerAddr role country =
     (case be_post env (''http://'' @ brokerAddr @ ''/assign'')
         \<lparr>aq_Role = role, aq_Country = country, aq_Region = '''', aq_Mode = ''''\<rparr> of
        None \<Rightarrow> Inl AssignFailed
      | Some (status, body) \<Rightarrow>
          if status \<noteq> 200 then Inl AssignFailed
          else (case body of None \<Rightarrow> Inl AssignFailed | Some ar \<Rightarrow> Inr (ar_Relay ar)))"

definition env_buildCircuit ::
  "'n build_env \<Rightarrow> RelayDescriptor \<Rightarrow> RelayDescriptor \<Rightarrow> RelayDescriptor \<Rightarrow> client_error + 'n ClientCircuit" where
  \<comment> \<open>the call of \<^verbatim>\<open>buildCircuit\<close> in this environment, without the closed connection of a failure\<close>
  "env_buildCircuit env entry middle exitR =
     (case buildCircuit (be_dial env) (be_obfs env) (be_tr env) (be_sm env) (be_aes env) (be_rnds env)
         (be_idrnd env) (be_now env) entry (Some middle) (Some exitR) of
        Inl (e, _) \<Rightarrow> Inl e | Inr c \<Rightarrow> Inr c)"

definition buildDirect ::
  "'n build_env \<Rightarrow> ClientConfig \<Rightarrow> RelayDescriptor list \<Rightarrow> filesystem \<Rightarrow> (client_error + 'n ClientCircuit) \<times> filesystem" where
  "buildDirect env cfg relays fs =
     (let (guard, fs') = loadOrPickGuard (be_unmarshal env) (be_marshal env) (be_wfail env) (be_picks env 0)
            (be_unixNow env) relays (cc_GuardFile cfg) fs;
          middle = pickRelay (be_picks env 1) relays ''middle'';
          exitR = pickRelay (be_picks env 2) relays ''exit''
      in case (guard, middle, exitR) of
           (Some g, Some m, Some x) \<Rightarrow> (env_buildCircuit env g m x, fs')
         | _ \<Rightarrow> (Inl NotEnoughRelays, fs'))"

definition broker_addr :: "ClientConfig \<Rightarrow> BrokerDescriptor list \<Rightarrow> string" where
  "broker_addr cfg brokers =
     (case List.find (\<lambda>b. cc_BrokerID cfg = '''' \<or> bd_ID b = cc_BrokerID cfg) brokers of
        None \<Rightarrow> '''' | Some b \<Rightarrow> bd_IP b @ '':'' @ dec_int (bd_Port b))"

definition buildViaBroker ::
  "'n build_env \<Rightarrow> ClientConfig \<Rightarrow> BrokerDescriptor list \<Rightarrow> client_error + 'n ClientCircuit" where
  "buildViaBroker env cfg brokers =
     (let addr = broker_addr cfg brokers in
      if addr = '''' then Inl NoBroker
      else (case assignViaBroker env addr ''entry'' '''' of
              Inl e \<Rightarrow> Inl e
            | Inr entry \<Rightarrow>
                (case assignViaBroker env addr ''middle'' '''' of
                   Inl e \<Rightarrow> Inl e
                 | Inr middle \<Rightarrow>
                     (case assignViaBroker env addr ''exit'' '''' of
                        Inl e \<Rightarrow> Inl e
                      | Inr exitR \<Rightarrow> env_buildCircuit env entry middle exitR))))"

definition buildViaKind ::
  "'n build_env \<Rightarrow> ClientConfig \<Rightarrow> RelayDescriptor list \<Rightarrow> client_error + 'n ClientCircuit" where
  "buildViaKind env cfg relays =
     (case (pickRelay (be_picks env 1) relays ''middle'', pickRelay (be_picks env 2) relays ''exit'') of
        (Some middle, Some exitR) \<Rightarrow>
          (case be_kindDial env (cc_KindBrokerURL cfg) of
             None \<Rightarrow> Inl DialFailed
           | Some conn \<Rightarrow>
               (case be_obfs env conn of
                  (Some e, _) \<Rightarrow> Inl ObfsFailed
                | (None, conn') \<Rightarrow>
                    (case buildCircuitOnConn (be_tr env) (be_sm env) (be_aes env) (be_rnds env) (be_now env) conn'
                        (RandomUint32 (be_idrnd env)) (Some middle) (Some exitR) of
                       Inl (e, _) \<Rightarrow> Inl e | Inr c \<Rightarrow> Inr c)))
      | _ \<Rightarrow> Inl NotEnoughRelays)"

definition buildOne ::
  "'n build_env \<Rightarrow> ClientConfig \<Rightarrow> RelayDescriptor list \<Rightarrow> BrokerDescriptor list \<Rightarrow> filesystem \<Rightarrow>
   (client_error + 'n ClientCircuit) \<times> filesystem" where
  "buildOne env cfg relays brokers fs =
     (if cc_KindBrokerURL cfg \<noteq> '''' then (buildViaKind env cfg relays, fs)
      else if cc_BrokerID cfg \<noteq> '''' \<and> length brokers > 0 then (buildViaBroker env cfg brokers, fs)
      else buildDirect env cfg relays fs)"

section \<open>The pool\<close>

record 'n CircuitPool =
  cp_circuits :: "'n ClientCircuit list"
  cp_ready :: bool
  cp_count :: int
  cp_cfg :: ClientConfig
  cp_relays :: "RelayDescriptor list"
  cp_brokers :: "BrokerDescriptor list"
  cp_counter :: "64 word"
  cp_closed :: "'n list"      \<comment> \<open>not in the source: the connections closed so far\<close>

definition newCircuitPool :: "ClientConfig \<Rightarrow> 'n CircuitPool" where
  "newCircuitPool cfg = \<lparr>cp_circuits = [], cp_ready = False, cp_count = cc_CircuitCount cfg, cp_cfg = cfg,
     cp_relays = [], cp_brokers = [], cp_counter = 0, cp_closed = []\<rparr>"

definition setRelays :: "RelayDescriptor list \<Rightarrow> BrokerDescriptor list \<Rightarrow> 'n CircuitPool \<Rightarrow> 'n CircuitPool" where
  "setRelays relays brokers p = p\<lparr>cp_relays := relays, cp_brokers := brokers\<rparr>"

fun build_loop ::
  "(nat \<Rightarrow> 'n build_env) \<Rightarrow> ClientConfig \<Rightarrow> RelayDescriptor list \<Rightarrow> BrokerDescriptor list \<Rightarrow> nat \<Rightarrow> filesystem \<Rightarrow>
   'n ClientCircuit list \<times> filesystem" where
  "build_loop envs cfg relays brokers 0 fs = ([], fs)"
| "build_loop envs cfg relays brokers (Suc k) fs =
     (case buildOne (envs 0) cfg relays brokers fs of
        (Inl e, fs1) \<Rightarrow> build_loop (\<lambda>i. envs (Suc i)) cfg relays brokers k fs1
      | (Inr c, fs1) \<Rightarrow>
          let (cs, fs2) = build_loop (\<lambda>i. envs (Suc i)) cfg relays brokers k fs1 in (c # cs, fs2))"

definition buildAll ::
  "'n transport \<Rightarrow> (nat \<Rightarrow> 'n build_env) \<Rightarrow> 'n CircuitPool \<Rightarrow> filesystem \<Rightarrow>
   client_error option \<times> 'n CircuitPool \<times> filesystem" where
  "buildAll tr envs p fs =
     (let closed = map (close_circuit tr) (cp_circuits p);
          (built, fs') = build_loop envs (cp_cfg p) (cp_relays p) (cp_brokers p) (nat (cp_count p)) fs
      in (if length built = 0 then Some (AllBuildsFailed (nat (cp_count p))) else None,
          p\<lparr>cp_circuits := built, cp_ready := length built > 0, cp_closed := cp_closed p @ closed\<rparr>, fs'))"

definition isReady :: "'n CircuitPool \<Rightarrow> bool" where
  "isReady p = cp_ready p"

definition go_rem :: "int \<Rightarrow> int \<Rightarrow> int" where
  \<comment> \<open>\<^verbatim>\<open>%\<close>: the sign follows the dividend\<close>
  "go_rem a b = (if a < 0 then - ((- a) mod b) else a mod b)"

definition pool_get ::
  "'n transport \<Rightarrow> 'n build_env \<Rightarrow> int \<Rightarrow> 'n CircuitPool \<Rightarrow> filesystem \<Rightarrow>
   (go_panic + (client_error + nat \<times> 'n ClientCircuit)) \<times> 'n CircuitPool \<times> filesystem" where
  \<comment> \<open>\<^verbatim>\<open>get\<close>, with the index of the circuit it returns\<close>
  "pool_get tr env now p fs =
     (if length (cp_circuits p) = 0 then (Inr (Inl NoCircuits), p, fs)
      else let idx = go_rem (int64 (uint (cp_counter p))) (int (length (cp_circuits p)));
               p1 = p\<lparr>cp_counter := cp_counter p + 1\<rparr>
           in if idx < 0 then (Inl IndexOutOfRange, p1, fs)
              else let circ = cp_circuits p1 ! nat idx in
                if \<not> expired now circ then (Inr (Inr (nat idx, circ)), p1, fs)
                else (case buildOne env (cp_cfg p1) (cp_relays p1) (cp_brokers p1) fs of
                        (Inl e, fs') \<Rightarrow> (Inr (Inr (nat idx, circ)), p1, fs')
                      | (Inr newCirc, fs') \<Rightarrow>
                          (Inr (Inr (nat idx, newCirc)),
                           p1\<lparr>cp_circuits := (cp_circuits p1)[nat idx := newCirc],
                              cp_closed := cp_closed p1 @ [close_circuit tr circ]\<rparr>, fs')))"

record 'n send_env =
  se_tr :: "'n transport"
  se_aes :: block_cipher
  se_rnds :: "nat \<Rightarrow> nat \<Rightarrow> nat \<Rightarrow> byte"
  se_ctx :: "nat \<Rightarrow> nat \<Rightarrow> bool"
  se_deadline :: "nat \<Rightarrow> nat"
  se_build :: "nat \<Rightarrow> 'n build_env"
  se_now :: int

definition pool_send ::
  "'n send_env \<Rightarrow> string \<Rightarrow> uint16 \<Rightarrow> bytes \<Rightarrow> 'n CircuitPool \<Rightarrow> filesystem \<Rightarrow>
   (go_panic + (bytes \<times> client_error option)) \<times> 'n CircuitPool \<times> filesystem" where
  \<comment> \<open>\<^verbatim>\<open>send\<close>; the environments 0 and 1 of \<open>env\<close> are those of the two attempts\<close>
  "pool_send env host port req p fs =
     (case pool_get (se_tr env) (se_build env 0) (se_now env) p fs of
        (Inl pn, p1, fs1) \<Rightarrow> (Inl pn, p1, fs1)
      | (Inr (Inl e), p1, fs1) \<Rightarrow> (Inr ([], Some e), p1, fs1)
      | (Inr (Inr (idx, circ)), p1, fs1) \<Rightarrow>
          (case sendRequest (se_tr env) (se_aes env) (se_rnds env 0) (se_ctx env 0) (se_deadline env 0) host port req circ of
             ((resp, None), circ1) \<Rightarrow> (Inr (resp, None), p1\<lparr>cp_circuits := (cp_circuits p1)[idx := circ1]\<rparr>, fs1)
           | ((resp, Some e), circ1) \<Rightarrow>
               (case buildOne (se_build env 1) (cp_cfg p1) (cp_relays p1) (cp_brokers p1) fs1 of
                  (Inl e', fs2) \<Rightarrow> (Inr ([], Some AllAttemptsFailed), p1\<lparr>cp_circuits := (cp_circuits p1)[idx := circ1]\<rparr>, fs2)
                | (Inr newCirc, fs2) \<Rightarrow>
                    (case sendRequest (se_tr env) (se_aes env) (se_rnds env 1) (se_ctx env 1) (se_deadline env 1) host port req newCirc of
                       (res, circ2) \<Rightarrow> (Inr res,
                         p1\<lparr>cp_circuits := (cp_circuits p1)[idx := circ2],
                            cp_closed := cp_closed p1 @ [close_circuit (se_tr env) circ1]\<rparr>, fs2)))))"

section \<open>Configuration\<close>

definition client_loadConfig ::
  "ClientConfig option \<Rightarrow> ClientConfig \<Rightarrow> (string \<Rightarrow> string) \<Rightarrow> ClientConfig" where
  \<comment> \<open>\<open>file\<close> is the parsed file if there is one, \<open>zero\<close> the zero value, \<open>env\<close> is \<^verbatim>\<open>os.Getenv\<close>\<close>
  "client_loadConfig file zero env =
     (let cfg = ClientConfig_ApplyDefaults (case file of None \<Rightarrow> zero | Some c \<Rightarrow> c);
          cfg1 = (if env ''SBNET_DIR'' \<noteq> '''' then cfg\<lparr>cc_DirURL := env ''SBNET_DIR''\<rparr> else cfg);
          cfg2 = (if env ''SBNET_BRIDGE'' \<noteq> '''' then cfg1\<lparr>cc_BridgeURI := env ''SBNET_BRIDGE''\<rparr> else cfg1)
      in if env ''SBNET_KIND'' \<noteq> '''' then cfg2\<lparr>cc_KindBrokerURL := env ''SBNET_KIND''\<rparr> else cfg2)"

section \<open>Building and choosing\<close>

lemma build_loop_built:
  "build_loop envs cfg relays brokers k fs = (cs, fs') \<Longrightarrow>
   length cs \<le> k \<and> (\<forall>c \<in> set cs. \<exists>i < k. \<exists>f f'. buildOne (envs i) cfg relays brokers f = (Inr c, f'))"
proof (induction k arbitrary: envs fs cs fs')
  case (Suc k)
  obtain r fs1 where r: "buildOne (envs 0) cfg relays brokers fs = (r, fs1)" by fastforce
  obtain cs1 fs2 where l: "build_loop (\<lambda>i. envs (Suc i)) cfg relays brokers k fs1 = (cs1, fs2)" by fastforce
  have IH: "length cs1 \<le> k" "\<forall>c \<in> set cs1. \<exists>i < k. \<exists>f f'. buildOne (envs (Suc i)) cfg relays brokers f = (Inr c, f')"
    using Suc.IH [OF l] by blast+
  then have tail: "\<forall>c \<in> set cs1. \<exists>i < Suc k. \<exists>f f'. buildOne (envs i) cfg relays brokers f = (Inr c, f')"
    by (meson Suc_less_eq)
  show ?case
  proof (cases r)
    case (Inl e)
    with r l Suc.prems IH(1) tail show ?thesis by auto
  next
    case (Inr c)
    with r l Suc.prems have "cs = c # cs1" by simp
    moreover have "\<exists>i < Suc k. \<exists>f f'. buildOne (envs i) cfg relays brokers f = (Inr c, f')"
      using r Inr by (intro exI [of _ 0]) auto
    ultimately show ?thesis using IH(1) tail by auto
  qed
qed simp

text \<open>
  Rotating the pool never loses track of a circuit and never blocks on a failed build: all old
  circuits are torn down with a Destroy cell, at most CircuitCount new ones are kept, each of them
  the result of a successful build, the pool is ready exactly when there is one, and an error is
  returned exactly when there is none.
\<close>

theorem build_all_pool:
  assumes "buildAll tr envs p fs = (err, p', fs')"
  shows "cp_closed p' = cp_closed p @ map (\<lambda>c. tr_close tr (tr_send tr (mkCell (cl_CircID c) CmdDestroy 0 []) (cl_Conn c))) (cp_circuits p) \<and>
     length (cp_circuits p') \<le> nat (cp_count p) \<and>
     (isReady p' \<longleftrightarrow> cp_circuits p' \<noteq> []) \<and> (err = None \<longleftrightarrow> isReady p') \<and>
     (\<forall>c \<in> set (cp_circuits p'). \<exists>i f f'. i < nat (cp_count p) \<and>
        buildOne (envs i) (cp_cfg p) (cp_relays p) (cp_brokers p) f = (Inr c, f'))"
proof -
  obtain cs fs1 where l: "build_loop envs (cp_cfg p) (cp_relays p) (cp_brokers p) (nat (cp_count p)) fs = (cs, fs1)"
    by fastforce
  with assms have "err = (if length cs = 0 then Some (AllBuildsFailed (nat (cp_count p))) else None)"
    "p' = p\<lparr>cp_circuits := cs, cp_ready := length cs > 0, cp_closed := cp_closed p @ map (close_circuit tr) (cp_circuits p)\<rparr>"
    by (auto simp: buildAll_def)
  with build_loop_built [OF l] show ?thesis by (auto simp: isReady_def close_circuit_def)
qed

definition sample_client_cfg :: ClientConfig where
  "sample_client_cfg = \<lparr>cc_DirURL = '''', cc_BridgeURI = '''', cc_BrokerID = '''', cc_KindBrokerURL = '''',
     cc_SOCKS5Addr = '''', cc_HTTPProxyAddr = '''', cc_CircuitCount = 3, cc_CircuitRotateSecs = 0,
     cc_GuardFile = ''g'', cc_DirTLSCA = '''', cc_LogLevel = ''''\<rparr>"

theorem build_all_pool_witness:
  "\<forall>tr envs fs. \<exists>err p' fs'. buildAll tr envs (newCircuitPool sample_client_cfg) fs = (err, p', fs') \<and> length (cp_circuits p') \<le> 3"
proof (intro allI)
  fix tr :: "'n transport" and envs fs
  obtain err p' fs' where b: "buildAll tr envs (newCircuitPool sample_client_cfg) fs = (err, p', fs')"
    by (metis prod_cases3)
  from build_all_pool [OF b] b show "\<exists>err p' fs'. buildAll tr envs (newCircuitPool sample_client_cfg) fs = (err, p', fs') \<and>
      length (cp_circuits p') \<le> 3" by (auto simp: newCircuitPool_def sample_client_cfg_def)
qed

lemma counter_index_low:
  assumes "c < 2 ^ 63"
  shows "go_rem (int64 (int c)) (int n) = int (c mod n)"
proof -
  have "int c < 2 ^ 63" using assms by (metis of_nat_less_iff of_nat_numeral of_nat_power)
  then have "int64 (int c) = int c" by (intro int64_id) (simp add: in_int64_def)
  then show ?thesis by (simp add: go_rem_def zmod_int)
qed

lemma counter_index_high:
  assumes "c = 2 ^ 63" "\<not> n dvd 2 ^ 63"
  shows "go_rem (int64 (int c)) (int n) < 0"
proof -
  have "int64 (int c) = - (2 ^ 63)" by (simp add: assms(1) int64_def)
  moreover have "0 < (2 ^ 63 :: nat) mod n" using assms(2) by (simp add: dvd_eq_mod_eq_0)
  then have "0 < (2 ^ 63 :: int) mod int n" by (metis of_nat_0_less_iff of_nat_mod of_nat_numeral of_nat_power)
  ultimately show ?thesis by (simp add: go_rem_def)
qed

text \<open>
  The pool is used round robin: while the number of requests made so far is below 2^63, get never
  panics, and when no circuit has outlived circuitLifetime it returns the circuit at position
  counter mod length and only advances the counter. At 2^63 the conversion to int turns
  negative, and with a pool size that is not a power of two the index panics.
\<close>

theorem pool_round_robin:
  assumes "cp_circuits p \<noteq> []"
  shows "(unat (cp_counter p) < 2 ^ 63 \<longrightarrow> (\<exists>r. fst (pool_get tr env now p fs) = Inr (Inr r))) \<and>
     (unat (cp_counter p) < 2 ^ 63 \<and> (\<forall>c \<in> set (cp_circuits p). now - cl_built c \<le> circuitLifetime) \<longrightarrow>
        pool_get tr env now p fs =
          (Inr (Inr (unat (cp_counter p) mod length (cp_circuits p),
             cp_circuits p ! (unat (cp_counter p) mod length (cp_circuits p)))),
           p\<lparr>cp_counter := cp_counter p + 1\<rparr>, fs)) \<and>
     (unat (cp_counter p) = 2 ^ 63 \<and> \<not> length (cp_circuits p) dvd 2 ^ 63 \<longrightarrow>
        fst (pool_get tr env now p fs) = Inl IndexOutOfRange)"
proof -
  let ?n = "length (cp_circuits p)" and ?c = "unat (cp_counter p)"
  have u: "uint (cp_counter p) = int ?c" by (rule uint_nat)
  have low: "?c < 2 ^ 63 \<Longrightarrow> go_rem (int64 (uint (cp_counter p))) (int ?n) = int (?c mod ?n)"
    unfolding u by (rule counter_index_low)
  have high: "?c = 2 ^ 63 \<Longrightarrow> \<not> ?n dvd 2 ^ 63 \<Longrightarrow> go_rem (int64 (uint (cp_counter p))) (int ?n) < 0"
    unfolding u by (rule counter_index_high)
  have idx: "?c mod ?n < ?n" using assms by simp
  have "\<forall>c \<in> set (cp_circuits p). now - cl_built c \<le> circuitLifetime \<Longrightarrow> \<not> expired now (cp_circuits p ! (?c mod ?n))"
    using nth_mem [OF idx] by (metis expired_def not_less)
  with assms low high show ?thesis
    by (auto simp: pool_get_def Let_def split: prod.splits sum.splits)
qed

theorem pool_round_robin_witness:
  "\<forall>tr env fs. \<exists>c. fst (pool_get tr env 5 ((newCircuitPool sample_client_cfg)\<lparr>cp_counter := 7, cp_circuits :=
      [\<lparr>cl_CircID = 1, cl_Conn = (), cl_Keys = [], cl_built = 0\<rparr>, \<lparr>cl_CircID = 2, cl_Conn = (), cl_Keys = [], cl_built = 0\<rparr>]\<rparr>) fs) =
     Inr (Inr (1, c)) \<and> cl_CircID c = 2"
proof -
  let ?p = "(newCircuitPool sample_client_cfg)\<lparr>cp_counter := 7, cp_circuits :=
      [\<lparr>cl_CircID = 1, cl_Conn = (), cl_Keys = [], cl_built = 0\<rparr>, \<lparr>cl_CircID = 2, cl_Conn = (), cl_Keys = [], cl_built = 0\<rparr>]\<rparr>"
  have "(7 :: nat) mod Suc (Suc 0) = 1" by (simp add: numeral_eq_Suc mod_Suc)
  with pool_round_robin [where p = ?p and now = 5] show ?thesis by (simp add: circuitLifetime_def)
qed

end
