(* ===== verification/Bridge.thy ===== *)
theory Bridge
  imports Client_Pool Consensus
begin

text \<open>
  Bridge mode: the bridge server \<^verbatim>\<open>src/bridge/main.go\<close> and the bridge part of the client
  \<^verbatim>\<open>src/client/main.go\<close>. The server checks a token, dials a foreign entry relay, forwards a
  Create cell and then pipes cells both ways, rewriting circuit ids. What the server writes is a list
  of events; the connections, the upstream dialer with its optional TLS and the obfuscation
  handshake are arguments. \<^verbatim>\<open>url.ParseQuery\<close> is modelled here.
\<close>

section \<open>Query strings (net/url)\<close>

definition HasPrefix :: "string \<Rightarrow> string \<Rightarrow> bool" where
  "HasPrefix s pre = (take (length pre) s = pre)"

fun str_cut :: "char \<Rightarrow> string \<Rightarrow> string \<times> string" where
  \<comment> \<open>\<^verbatim>\<open>strings.Cut\<close>: before and after the first separator\<close>
  "str_cut sep [] = ([], [])"
| "str_cut sep (c # s) = (if c = sep then ([], s) else let (a, b) = str_cut sep s in (c # a, b))"

fun QueryUnescape :: "string \<Rightarrow> string option" where
  "QueryUnescape [] = Some []"
| "QueryUnescape (c # s) =
     (if c = CHR ''%'' then
        (case s of
           a # b # r \<Rightarrow>
             (case (from_hex a, from_hex b) of
                (Some x, Some y) \<Rightarrow> map_option (\<lambda>t. char_of (16 * x + y) # t) (QueryUnescape r)
              | _ \<Rightarrow> None)
         | _ \<Rightarrow> None)
      else map_option (\<lambda>t. (if c = CHR ''+'' then CHR '' '' else c) # t) (QueryUnescape s))"

lemma str_cut_shorter: "str_cut sep s = (a, b) \<Longrightarrow> length b \<le> length s \<and> (s \<noteq> [] \<longrightarrow> length b < length s)"
proof (induction s arbitrary: a b)
  case (Cons c s)
  obtain a' b' where ab: "str_cut sep s = (a', b')" by (cases "str_cut sep s")
  have "length b' \<le> length s" using Cons.IH [OF ab] by blast
  then show ?case using Cons.prems ab by (auto split: if_splits)
qed simp

lemma str_cut_rest: "s \<noteq> [] \<Longrightarrow> length (snd (str_cut sep s)) < length s"
  using str_cut_shorter [of sep s "fst (str_cut sep s)" "snd (str_cut sep s)"] by simp

function parse_query :: "string \<Rightarrow> (string \<times> string) list \<times> bool" where
  \<comment> \<open>\<^verbatim>\<open>url.ParseQuery\<close>: the pairs in order and whether an error was met\<close>
  "parse_query q =
     (if q = [] then ([], False)
      else let (item, rest) = str_cut (CHR ''&'') q;
               (ps, err) = parse_query rest
           in if CHR '';'' \<in> set item then (ps, True)
              else if item = [] then (ps, err)
              else (case str_cut (CHR ''='') item of
                      (k, v) \<Rightarrow>
                        (case (QueryUnescape k, QueryUnescape v) of
                           (Some k', Some v') \<Rightarrow> ((k', v') # ps, err)
                         | _ \<Rightarrow> (ps, True))))"
  by pat_completeness auto
termination
  by (relation "measure length") (auto simp: prod_eq_iff str_cut_rest)

declare parse_query.simps [simp del]

definition url_Get :: "(string \<times> string) list \<Rightarrow> string \<Rightarrow> string" where
  "url_Get vals k = (case map_of vals k of None \<Rightarrow> '''' | Some v \<Rightarrow> v)"

section \<open>Bridge URIs\<close>

datatype uri_error = NotSbnet | MalformedURI | MissingBridge | MissingToken

definition bridge_scheme :: string where
  "bridge_scheme = ''sbnet://''"

definition parse_bridge :: "bool \<Rightarrow> string \<Rightarrow> uri_error + BridgeConfig" where
  \<comment> \<open>the two copies of \<^verbatim>\<open>parseBridgeURI\<close> differ in whether a token is required\<close>
  "parse_bridge needToken uri =
     (if \<not> HasPrefix uri bridge_scheme then Inl NotSbnet
      else (case parse_query (drop (length bridge_scheme) uri) of
              (vals, err) \<Rightarrow>
                if err then Inl MalformedURI
                else let endpoint = url_Get vals ''bridge''; token = url_Get vals ''token'';
                         obfs = url_Get vals ''obfs''; mode = url_Get vals ''mode''
                     in if endpoint = '''' then Inl MissingBridge
                        else if needToken \<and> token = '''' then Inl MissingToken
                        else Inr \<lparr>br_Endpoint = endpoint, br_Token = token,
                                br_Obfs = (if obfs = '''' then ''tls'' else obfs),
                                br_Mode = (if mode = '''' then ''secure'' else mode)\<rparr>))"

definition client_parseBridgeURI :: "string \<Rightarrow> uri_error + BridgeConfig" where
  "client_parseBridgeURI = parse_bridge True"

definition server_parseBridgeURI :: "string \<Rightarrow> uri_error + BridgeConfig" where
  "server_parseBridgeURI = parse_bridge False"

section \<open>Bridge server\<close>

record bridgeServer =
  bs_cfg :: BridgeServerConfig
  bs_foreignRelays :: "RelayDescriptor list"

definition fetchForeignConsensus ::
  "(string \<Rightarrow> string \<Rightarrow> consensus_error + SignedConsensus) \<Rightarrow> bridgeServer \<Rightarrow> RelayDescriptor list option" where
  \<comment> \<open>\<open>fetch\<close> is \<^verbatim>\<open>FetchVerifiedConsensus\<close> with its outside world fixed; \<open>None\<close> is an error\<close>
  "fetchForeignConsensus fetch b =
     (if gc_ForeignDirURL (bs_cfg b) = '''' then None
      else (case fetch (gc_ForeignDirURL (bs_cfg b)) (gc_ForeignDirTLSCA (bs_cfg b)) of
              Inl e \<Rightarrow> None | Inr c \<Rightarrow> Some (sc_Relays c)))"

definition refreshForeignConsensus ::
  "(string \<Rightarrow> string \<Rightarrow> consensus_error + SignedConsensus) \<Rightarrow> bridgeServer \<Rightarrow> bridgeServer" where
  \<comment> \<open>one round of the refresh loop\<close>
  "refreshForeignConsensus fetch b =
     (case fetchForeignConsensus fetch b of None \<Rightarrow> b | Some rs \<Rightarrow> b\<lparr>bs_foreignRelays := rs\<rparr>)"

definition pickForeignEntry :: "byte \<Rightarrow> bridgeServer \<Rightarrow> RelayDescriptor option" where
  "pickForeignEntry jb b =
     (let pool = filter (\<lambda>r. rd_Role r = ''entry'') (bs_foreignRelays b) in
      if length pool = 0 then None else Some (pool ! (unat jb mod length pool)))"

definition foreignDial ::
  "(string \<Rightarrow> conn option) \<Rightarrow> (string \<Rightarrow> conn \<Rightarrow> conn option) \<Rightarrow> bridgeServer \<Rightarrow> string \<Rightarrow> conn option" where
  \<comment> \<open>\<open>tls\<close> is the TLS client handshake for a server name\<close>
  "foreignDial dial tls b addr =
     (case dial addr of
        None \<Rightarrow> None
      | Some c \<Rightarrow>
          if gc_Obfs (bs_cfg b) = ''tls'' then tls (fst (str_cut (CHR '':'') addr)) c else Some c)"

definition bridgeSentinelCircID :: uint32 where
  "bridgeSentinelCircID = 0xFFFFFFFF"

datatype bridge_event = ToForeign Cell | ToClient Cell | Pipe uint32

record bridge_env =
  ge_obfs :: "conn \<Rightarrow> obfs_error option \<times> conn"
  ge_dial :: "string \<Rightarrow> conn option"
  ge_tls :: "string \<Rightarrow> conn \<Rightarrow> conn option"
  ge_pick :: byte
  ge_idrnd :: "nat \<Rightarrow> byte"

definition bridge_token_ok :: "bridgeServer \<Rightarrow> Cell \<Rightarrow> bytes option" where
  \<comment> \<open>steps 1 and 2 of \<^verbatim>\<open>handleClientConn\<close> on the handshake cell: the client's ephemeral key\<close>
  "bridge_token_ok b c =
     (if CircID c \<noteq> bridgeSentinelCircID \<or> Command c \<noteq> CmdCreate then None
      else if unat (Length c) < 2 then None
      else let tokenLen = unat (get16 (slice 0 2 (Body c))) in
        if 2 + tokenLen + 32 > unat (Length c) then None
        else if string_of (slice 2 (2 + tokenLen) (Body c)) \<noteq> gc_Token (bs_cfg b) then None
        else Some (slice (2 + tokenLen) (2 + tokenLen + 32) (Body c)))"

definition handleClientConn :: "bridge_env \<Rightarrow> bridgeServer \<Rightarrow> conn \<Rightarrow> bridge_event list" where
  "handleClientConn env b conn =
     (case ge_obfs env conn of
        (Some e, _) \<Rightarrow> []
      | (None, conn1) \<Rightarrow>
          (case fst (ReadCell tcp_readFull (inbox conn1)) of
             Inl e \<Rightarrow> []
           | Inr cell \<Rightarrow>
               (case bridge_token_ok b cell of
                  None \<Rightarrow> []
                | Some clientEphPub \<Rightarrow>
                    (case pickForeignEntry (ge_pick env) b of
                       None \<Rightarrow> []
                     | Some entry \<Rightarrow>
                         (case foreignDial (ge_dial env) (ge_tls env) b (relay_addr entry) of
                            None \<Rightarrow> []
                          | Some foreignConn \<Rightarrow>
                              (case ge_obfs env foreignConn of
                                 (Some e, _) \<Rightarrow> []
                               | (None, foreignConn1) \<Rightarrow>
                                   let newCircID = RandomUint32 (ge_idrnd env);
                                       create = ToForeign (mkCell newCircID CmdCreate 32 clientEphPub)
                                   in (case fst (ReadCell tcp_readFull (inbox foreignConn1)) of
                                        Inl e \<Rightarrow> [create]
                                      | Inr created \<Rightarrow>
                                          if Command created \<noteq> CmdCreated then [create]
                                          else [create, ToClient (created\<lparr>CircID := bridgeSentinelCircID\<rparr>),
                                                Pipe newCircID])))))))"

definition pipe_to_foreign :: "uint32 \<Rightarrow> Cell list \<Rightarrow> Cell list" where
  \<comment> \<open>the first goroutine on the cells read from the client\<close>
  "pipe_to_foreign newCircID cs = map (\<lambda>c. c\<lparr>CircID := newCircID\<rparr>) cs"

definition pipe_to_client :: "Cell list \<Rightarrow> Cell list" where
  "pipe_to_client cs = map (\<lambda>c. c\<lparr>CircID := bridgeSentinelCircID\<rparr>) cs"

section \<open>Bridge client\<close>

definition dialBridge ::
  "(bool \<Rightarrow> string \<Rightarrow> string \<Rightarrow> 'n option) \<Rightarrow> ('n \<Rightarrow> obfs_error option \<times> 'n) \<Rightarrow> 'n transport \<Rightarrow> scalar_mult \<Rightarrow>
   (nat \<Rightarrow> byte) \<Rightarrow> BridgeConfig \<Rightarrow> client_error + 'n" where
  \<comment> \<open>\<open>dial useTLS endpoint serverName\<close>\<close>
  "dialBridge dial obfs tr sm rnd cfg =
     (case dial (br_Obfs cfg = ''tls'') (br_Endpoint cfg) (fst (str_cut (CHR '':'') (br_Endpoint cfg))) of
        None \<Rightarrow> Inl DialFailed
      | Some conn \<Rightarrow>
          (case obfs conn of
             (Some e, _) \<Rightarrow> Inl ObfsFailed
           | (None, conn1) \<Rightarrow>
               let (_, clientEphPub) = GenKeyPair sm rnd;
                   token = bytes_of (br_Token cfg);
                   bodyLen = 2 + length token + 32
               in if bodyLen > CellBodyMax then Inl (RequestTooLarge bodyLen)
                  else let body0 = copy_at 0 (replicate CellBodyMax 0) (put16 (of_nat (length token)));
                           body1 = copy_at 2 body0 token;
                           body2 = copy_at (2 + length token) body1 clientEphPub
                       in Inr (tr_send tr \<lparr>CircID = bridgeSentinelCircID, Command = CmdCreate,
                                 Length = of_nat bodyLen, Body = body2\<rparr> conn1)))"

definition buildCircuitViaBridge ::
  "(bool \<Rightarrow> string \<Rightarrow> string \<Rightarrow> 'n option) \<Rightarrow> ('n \<Rightarrow> obfs_error option \<times> 'n) \<Rightarrow> 'n transport \<Rightarrow> scalar_mult \<Rightarrow>
   (nat \<Rightarrow> nat \<Rightarrow> byte) \<Rightarrow> int \<Rightarrow> BridgeConfig \<Rightarrow> client_error + 'n ClientCircuit" where
  "buildCircuitViaBridge dial obfs tr sm rnds now cfg =
     (case dialBridge dial obfs tr sm (rnds 0) cfg of
        Inl e \<Rightarrow> Inl e
      | Inr conn \<Rightarrow>
          let (priv0, pub0) = GenKeyPair sm (rnds 1);
              conn1 = tr_send tr (mkCell bridgeSentinelCircID CmdCreate 32 pub0) conn
          in (case tr_recv tr conn1 of
                (Inl e, _) \<Rightarrow> Inl CreatedFailed
              | (Inr created, conn2) \<Rightarrow>
                  if Command created \<noteq> CmdCreated then Inl CreatedFailed
                  else Inr \<lparr>cl_CircID = bridgeSentinelCircID, cl_Conn = conn2,
                        cl_Keys = [DeriveKey sm priv0 (take 32 (Body created)), [], []], cl_built = now\<rparr>))"

section \<open>Access control\<close>

lemma bridge_token_ok_Some:
  "bridge_token_ok b c = Some pub \<longleftrightarrow>
     CircID c = bridgeSentinelCircID \<and> Command c = CmdCreate \<and> 2 \<le> unat (Length c) \<and>
     2 + unat (get16 (slice 0 2 (Body c))) + 32 \<le> unat (Length c) \<and>
     string_of (slice 2 (2 + unat (get16 (slice 0 2 (Body c)))) (Body c)) = gc_Token (bs_cfg b) \<and>
     pub = slice (2 + unat (get16 (slice 0 2 (Body c)))) (2 + unat (get16 (slice 0 2 (Body c))) + 32) (Body c)"
  by (auto simp: bridge_token_ok_def Let_def)

lemma pickForeignEntry_pickRelay: "pickForeignEntry jb b = pickRelay jb (bs_foreignRelays b) ''entry''"
  by (simp add: pickForeignEntry_def pickRelay_def)

lemma handleClientConn_events:
  assumes "handleClientConn env b conn \<noteq> []"
  shows "\<exists>conn1 cell pub entry. ge_obfs env conn = (None, conn1) \<and> fst (ReadCell tcp_readFull (inbox conn1)) = Inr cell \<and>
     bridge_token_ok b cell = Some pub \<and> pickForeignEntry (ge_pick env) b = Some entry \<and>
     hd (handleClientConn env b conn) = ToForeign (mkCell (RandomUint32 (ge_idrnd env)) CmdCreate 32 pub) \<and>
     (\<forall>c \<in> set (tl (handleClientConn env b conn)). \<forall>x. c \<noteq> ToForeign x)"
  using assms
  by (auto simp: handleClientConn_def Let_def split: prod.splits option.splits sum.splits if_splits)

text \<open>
  The bridge touches the foreign network only for clients that present its token. If
  handleClientConn does anything at all, the client's first cell was a Create on the sentinel circuit
  whose body starts with the length and exactly the bytes of the configured token; the first thing
  sent is a Create with the 32 bytes that follow the token, to an entry relay of the
  foreign consensus, and until the pipe is set up nothing else is sent there.
\<close>

theorem bridge_requires_token:
  assumes "handleClientConn env b conn \<noteq> []"
  shows "\<exists>conn1 cell entry n. ge_obfs env conn = (None, conn1) \<and>
     fst (ReadCell tcp_readFull (inbox conn1)) = Inr cell \<and>
     CircID cell = bridgeSentinelCircID \<and> Command cell = CmdCreate \<and>
     n = unat (get16 (take 2 (Body cell))) \<and> n + 34 \<le> unat (Length cell) \<and>
     string_of (slice 2 (2 + n) (Body cell)) = gc_Token (bs_cfg b) \<and>
     entry \<in> set (bs_foreignRelays b) \<and> rd_Role entry = ''entry'' \<and>
     hd (handleClientConn env b conn) =
       ToForeign (mkCell (RandomUint32 (ge_idrnd env)) CmdCreate 32 (slice (2 + n) (2 + n + 32) (Body cell))) \<and>
     (\<forall>c. ToForeign c \<notin> set (tl (handleClientConn env b conn)))"
proof -
  obtain conn1 cell pub entry where o: "ge_obfs env conn = (None, conn1)" "fst (ReadCell tcp_readFull (inbox conn1)) = Inr cell"
    "bridge_token_ok b cell = Some pub" "pickForeignEntry (ge_pick env) b = Some entry"
    "hd (handleClientConn env b conn) = ToForeign (mkCell (RandomUint32 (ge_idrnd env)) CmdCreate 32 pub)"
    "\<forall>c \<in> set (tl (handleClientConn env b conn)). \<forall>x. c \<noteq> ToForeign x"
    using handleClientConn_events [OF assms] by blast
  have "entry \<in> set (bs_foreignRelays b) \<and> rd_Role entry = ''entry''"
    using o(4) pickRelay_Some by (auto simp: pickForeignEntry_pickRelay)
  with o show ?thesis
    by (intro exI [of _ conn1] exI [of _ cell] exI [of _ entry] exI [of _ "unat (get16 (take 2 (Body cell)))"])
       (auto simp: bridge_token_ok_Some)
qed

definition sample_bridge_cfg :: BridgeServerConfig where
  "sample_bridge_cfg = \<lparr>gc_ForeignDirURL = '''', gc_ForeignDirTLSCA = '''', gc_UpstreamProxy = '''', gc_ListenAddr = '''',
     gc_Token = ''tk'', gc_Obfs = ''plain'', gc_Mode = '''', gc_TLSCert = '''', gc_TLSKey = '''', gc_KeyFile = '''', gc_LogLevel = ''''\<rparr>"

definition sample_bridge :: bridgeServer where
  "sample_bridge = \<lparr>bs_cfg = sample_bridge_cfg, bs_foreignRelays = [sample_entry]\<rparr>"

section \<open>The client's handshake\<close>

lemma handshake_body:
  assumes "length pub = 32" "length token + 34 \<le> CellBodyMax"
  shows "copy_at (2 + length token) (copy_at 2 (copy_at 0 (replicate CellBodyMax 0) (put16 (of_nat (length token)))) token) pub =
     put16 (of_nat (length token)) @ token @ pub @ replicate (CellBodyMax - (34 + length token)) 0"
proof -
  let ?l = "put16 (of_nat (length token))"
  have 1: "copy_at 0 (replicate 505 0) ?l = ?l @ replicate 503 0"
    using copy_at_append [of 0 "[]" ?l "replicate 505 0"] by simp
  have 2: "copy_at 2 (?l @ replicate 503 0) token = (?l @ token) @ replicate (503 - length token) 0"
    using assms(2) by (subst copy_at_append) simp_all
  have 3: "copy_at (2 + length token) ((?l @ token) @ replicate (503 - length token) 0) pub =
      ?l @ token @ pub @ replicate (505 - (34 + length token)) 0"
    using assms by (subst copy_at_append) simp_all
  show ?thesis by (simp only: cell_consts 1 2 3)
qed

lemma handshake_accepted:
  assumes "length pub = 32" "length token + 34 \<le> CellBodyMax" "bytes_of tk = token"
    and c: "c = \<lparr>CircID = bridgeSentinelCircID, Command = CmdCreate, Length = of_nat (2 + length token + 32),
       Body = put16 (of_nat (length token)) @ token @ pub @ rest\<rparr>"
  shows "bridge_token_ok b c = (if tk = gc_Token (bs_cfg b) then Some pub else None)"
proof -
  let ?l = "put16 (of_nat (length token))"
  have n: "unat (get16 (slice 0 2 (Body c))) = length token"
    using assms(2) get16_put16 [of "of_nat (length token)" "[]"] by (simp add: c)
  have t: "slice 2 (2 + length token) (Body c) = token"
    using slice_exact [of ?l 2 token "2 + length token" "pub @ rest"] by (simp add: c)
  have p: "slice (2 + length token) (2 + length token + 32) (Body c) = pub"
    using slice_exact [of "?l @ token" "2 + length token" pub "2 + length token + 32" rest] assms(1) by (simp add: c)
  have l: "unat (Length c) = 2 + length token + 32" using assms(2) by (simp add: c del: of_nat_add of_nat_Suc of_nat_numeral)
  have s: "string_of token = tk" using assms(3) by auto
  show ?thesis unfolding bridge_token_ok_def n t p l Let_def s by (simp add: c)
qed

text \<open>
  C31: Client and bridge agree on the handshake: the one cell dialBridge writes is well-formed, and a
  bridge accepts it exactly when it is configured with the client's token, in which case it takes
  the public key out of it that the client put in, for every token that fits.
\<close>

theorem bridge_handshake_agrees:
  assumes "dialBridge dial obfs tr sm rnd cfg = Inr n" "x25519_ok sm"
  shows "\<exists>c conn1. n = tr_send tr c conn1 \<and> wf_cell c \<and>
     bridge_token_ok b c =
       (if br_Token cfg = gc_Token (bs_cfg b) then Some (ScalarBaseMult sm (rand_bytes rnd 32)) else None)"
proof -
  let ?pub = "ScalarBaseMult sm (rand_bytes rnd 32)" and ?tk = "bytes_of (br_Token cfg)"
  have pub: "length ?pub = 32" using assms(2) by (simp add: x25519_ok_def ScalarBaseMult_def)
  let ?body = "copy_at (2 + length ?tk) (copy_at 2 (copy_at 0 (replicate CellBodyMax 0) (put16 (of_nat (length ?tk)))) ?tk) ?pub"
  let ?c = "\<lparr>CircID = bridgeSentinelCircID, Command = CmdCreate, Length = of_nat (2 + length ?tk + 32), Body = ?body\<rparr>"
  obtain conn1 where n: "n = tr_send tr ?c conn1" and small: "length ?tk + 34 \<le> CellBodyMax"
    using assms(1) by (auto simp: dialBridge_def GenKeyPair_def Let_def split: option.splits prod.splits if_splits)
  have "bridge_token_ok b ?c = (if br_Token cfg = gc_Token (bs_cfg b) then Some ?pub else None)"
    using small by (intro handshake_accepted [OF pub small refl]) (simp only: handshake_body [OF pub small])
  moreover have "unat (of_nat (2 + length ?tk + 32) :: uint16) = 2 + length ?tk + 32" using small by (intro unat_of_nat16) simp
  then have "wf_cell ?c" using small by (simp add: wf_cell_def del: of_nat_add of_nat_Suc of_nat_numeral)
  ultimately show ?thesis using n by blast
qed

definition sample_handshake :: Cell where
  "sample_handshake = \<lparr>CircID = bridgeSentinelCircID, Command = CmdCreate, Length = of_nat 36,
     Body = put16 2 @ bytes_of ''tk'' @ replicate 32 9 @ replicate 469 0\<rparr>"

lemma sample_handshake_wf: "wf_cell sample_handshake"
  by (simp add: sample_handshake_def wf_cell_def)

lemma sample_handshake_ok: "bridge_token_ok sample_bridge sample_handshake = Some (replicate 32 9)"
  using handshake_accepted [where token = "bytes_of ''tk''" and pub = "replicate 32 9" and tk = "''tk''"
      and c = sample_handshake and b = sample_bridge and rest = "replicate 469 0"]
  by (simp add: sample_handshake_def sample_bridge_def sample_bridge_cfg_def)

theorem bridge_requires_token_witness:
  "\<exists>env conn (conn1 :: conn) cell. handleClientConn env sample_bridge conn \<noteq> [] \<and>
     fst (ReadCell tcp_readFull (inbox conn1)) = Inr cell \<and> CircID cell = bridgeSentinelCircID \<and>
     string_of (slice 2 (2 + unat (get16 (take 2 (Body cell)))) (Body cell)) = ''tk''"
proof -
  let ?env = "\<lparr>ge_obfs = (\<lambda>c. (None, c)), ge_dial = (\<lambda>_. Some \<lparr>inbox = [], outbox = []\<rparr>), ge_tls = (\<lambda>_ c. Some c),
     ge_pick = 0, ge_idrnd = (\<lambda>_. 1)\<rparr>"
  let ?conn = "\<lparr>inbox = MarshalCell 0 (\<lambda>_. 0) sample_handshake, outbox = []\<rparr>"
  have 1: "fst (ReadCell tcp_readFull (inbox ?conn)) = Inr (canon_cell sample_handshake)"
    using tcp.ReadCell_MarshalCell [of sample_handshake "inbox ?conn" 0 "\<lambda>_. 0" "[]"] sample_handshake_wf
    by (auto simp: wf_cell_def)
  have 2: "canon_cell sample_handshake = sample_handshake"
    by (simp add: canon_cell_def mkCell_def sample_handshake_def go_copy_def)
  have 3: "\<exists>e. fst (ReadCell tcp_readFull []) = Inl e"
    by (auto simp: ReadCell_def tcp_readFull_def)
  have "handleClientConn ?env sample_bridge ?conn \<noteq> []"
    using sample_handshake_ok 1 2 3
    by (auto simp: handleClientConn_def pickForeignEntry_def foreignDial_def sample_bridge_def sample_bridge_cfg_def
        sample_entry_def Let_def)
  from bridge_requires_token [OF this]
  obtain conn1 :: conn and cell n where "fst (ReadCell tcp_readFull (inbox conn1)) = Inr cell" "CircID cell = bridgeSentinelCircID"
    "n = unat (get16 (take 2 (Body cell)))" "string_of (slice 2 (2 + n) (Body cell)) = gc_Token (bs_cfg sample_bridge)"
    by blast
  moreover have "gc_Token (bs_cfg sample_bridge) = ''tk''" by (simp add: sample_bridge_def sample_bridge_cfg_def)
  ultimately show ?thesis
    using \<open>handleClientConn ?env sample_bridge ?conn \<noteq> []\<close> by metis
qed

definition sample_uri_cfg :: BridgeConfig where
  "sample_uri_cfg = \<lparr>br_Endpoint = ''h:1'', br_Token = ''tk'', br_Obfs = ''plain'', br_Mode = ''secure''\<rparr>"

definition log_transport :: "Cell list transport" where
  "log_transport = \<lparr>tr_send = (\<lambda>c n. n @ [c]), tr_recv = (\<lambda>n. (Inr (mkCell 0 CmdCreated 32 []), n)), tr_close = (\<lambda>n. n)\<rparr>"

theorem bridge_handshake_agrees_witness:
  "\<exists>n c conn1. dialBridge (\<lambda>_ _ _. Some []) (\<lambda>n. (None, n)) log_transport sample_sm (\<lambda>_. 3) sample_uri_cfg = Inr n \<and>
     n = tr_send log_transport c conn1 \<and> bridge_token_ok sample_bridge c = Some (ScalarBaseMult sample_sm (rand_bytes (\<lambda>_. 3) 32))"
proof -
  obtain n where d: "dialBridge (\<lambda>_ _ _. Some []) (\<lambda>n. (None, n)) log_transport sample_sm (\<lambda>_. 3) sample_uri_cfg = Inr n"
    by (simp add: dialBridge_def GenKeyPair_def sample_uri_cfg_def Let_def)
  from bridge_handshake_agrees [OF d sample_sm_ok, of sample_bridge] d show ?thesis
    by (auto simp: sample_uri_cfg_def sample_bridge_def sample_bridge_cfg_def)
qed

section \<open>Bridge circuits carry no request\<close>

lemma bridge_circuit_keys:
  "buildCircuitViaBridge dial obfs tr sm rnds now cfg = Inr c \<Longrightarrow> \<exists>k. cl_Keys c = [k, [], []]"
  by (auto simp: buildCircuitViaBridge_def Let_def split: sum.splits prod.splits if_splits)

lemma bridge_sendRequest:
  assumes "cl_Keys c = [k, [], []]"
  shows "\<exists>e. sendRequest tr aes rnds ctx n host port req c = (([], Some (EncryptFailed e)), c)"
  using gcm.wrap_bad_key [of "[]" "[k, [], []]" aes rnds "request_payload host port req"] assms
  by (auto simp: sendRequest_def)

lemma buildOne_no_relays: "\<exists>e. buildOne env cfg [] [] fs = (Inl e, fs)"
  by (auto simp: buildOne_def buildViaKind_def buildDirect_def loadOrPickGuard_def pickRelay_def split: option.splits)

text \<open>
  Such a circuit has only its first key, so \<^verbatim>\<open>sendRequest\<close> fails when it encrypts the innermost layer, and
  the retry cannot build a circuit without relays.
\<close>

lemma bridge_pool_fails:
  assumes "\<forall>c \<in> set (cp_circuits p). \<exists>rnds now. buildCircuitViaBridge dial obfs tr sm rnds now bcfg = Inr c"
    and "cp_circuits p \<noteq> []" "cp_relays p = []" "cp_brokers p = []" "unat (cp_counter p) < 2 ^ 63"
  shows "pool_send env host port req p fs =
     (Inr ([], Some AllAttemptsFailed), p\<lparr>cp_counter := cp_counter p + 1\<rparr>, fs)"
proof -
  let ?i = "unat (cp_counter p) mod length (cp_circuits p)"
  let ?c = "cp_circuits p ! ?i" and ?p1 = "p\<lparr>cp_counter := cp_counter p + 1\<rparr>"
  have i: "?i < length (cp_circuits p)" using assms(2) by simp
  obtain rnds' now' where "buildCircuitViaBridge dial obfs tr sm rnds' now' bcfg = Inr ?c" using assms(1) nth_mem [OF i] by blast
  then obtain k where k: "cl_Keys ?c = [k, [], []]" using bridge_circuit_keys by blast
  obtain e where e: "buildOne (se_build env 0) (cp_cfg p) [] [] fs = (Inl e, fs)" using buildOne_no_relays by blast
  obtain e' where e': "buildOne (se_build env 1) (cp_cfg p) [] [] fs = (Inl e', fs)" using buildOne_no_relays by blast
  have idx: "go_rem (int64 (uint (cp_counter p))) (int (length (cp_circuits p))) = int ?i"
    unfolding uint_nat by (rule counter_index_low [OF assms(5)])
  have get: "pool_get (se_tr env) (se_build env 0) (se_now env) p fs = (Inr (Inr (?i, ?c)), ?p1, fs)"
    using assms(2-4) idx e by (simp add: pool_get_def Let_def)
  obtain x where send: "sendRequest (se_tr env) (se_aes env) (se_rnds env 0) (se_ctx env 0) (se_deadline env 0) host port req ?c =
      (([], Some (EncryptFailed x)), ?c)"
    using bridge_sendRequest [OF k] by blast
  have "p\<lparr>cp_circuits := (cp_circuits p)[?i := ?c], cp_counter := cp_counter p + 1\<rparr> = ?p1" by simp
  then show ?thesis using assms(3,4) get send e' by (simp add: pool_send_def)
qed

section \<open>Bridge start-up\<close>

definition bridge_loadConfig :: "BridgeServerConfig option \<Rightarrow> BridgeServerConfig \<Rightarrow> BridgeServerConfig" where
  "bridge_loadConfig file zero = BridgeServerConfig_ApplyDefaults (case file of None \<Rightarrow> zero | Some c \<Rightarrow> c)"

datatype bridge_dialer = Direct | SOCKS5Dialer string

datatype bridge_error = BadProxyURL | SOCKS5DialerFailed | UnsupportedScheme string | NoForeignConsensus | TLSKeyPair | ListenFailed

definition newBridgeServer ::
  "(string \<Rightarrow> (string \<times> string) option) \<Rightarrow> (string \<Rightarrow> bool) \<Rightarrow> BridgeServerConfig \<Rightarrow> bridge_error + (bridgeServer \<times> bridge_dialer)" where
  \<comment> \<open>\<open>parse\<close> is \<^verbatim>\<open>url.Parse\<close> (scheme and host), \<open>socks\<close> whether \<^verbatim>\<open>proxy.SOCKS5\<close> accepts the host\<close>
  "newBridgeServer parse socks cfg =
     (let b = \<lparr>bs_cfg = cfg, bs_foreignRelays = []\<rparr> in
      if gc_UpstreamProxy cfg \<noteq> '''' then
        (case parse (gc_UpstreamProxy cfg) of
           None \<Rightarrow> Inl BadProxyURL
         | Some (scheme, host) \<Rightarrow>
             if scheme = ''socks5'' then
               (if socks host then Inr (b, SOCKS5Dialer host) else Inl SOCKS5DialerFailed)
             else Inl (UnsupportedScheme scheme))
      else Inr (b, Direct))"

datatype bridge_listener = TLSListener string | TCPListener string

definition buildListener :: "(string \<Rightarrow> string \<Rightarrow> bool) \<Rightarrow> (string \<Rightarrow> bool) \<Rightarrow> bridgeServer \<Rightarrow> bridge_error + bridge_listener" where
  \<comment> \<open>\<open>keypair\<close> loads certificate and key, \<open>listen\<close> binds the address\<close>
  "buildListener keypair listen b =
     (let cfg = bs_cfg b in
      if gc_Obfs cfg = ''tls'' \<and> gc_TLSCert cfg \<noteq> '''' \<and> gc_TLSKey cfg \<noteq> '''' then
        (if \<not> keypair (gc_TLSCert cfg) (gc_TLSKey cfg) then Inl TLSKeyPair
         else if \<not> listen (gc_ListenAddr cfg) then Inl ListenFailed
         else Inr (TLSListener (gc_ListenAddr cfg)))
      else if \<not> listen (gc_ListenAddr cfg) then Inl ListenFailed
      else Inr (TCPListener (gc_ListenAddr cfg)))"

definition bridge_main ::
  "(string \<Rightarrow> (string \<times> string) option) \<Rightarrow> (string \<Rightarrow> bool) \<Rightarrow> (string \<Rightarrow> string \<Rightarrow> consensus_error + SignedConsensus) \<Rightarrow>
   (string \<Rightarrow> string \<Rightarrow> bool) \<Rightarrow> (string \<Rightarrow> bool) \<Rightarrow> BridgeServerConfig \<Rightarrow> bridge_error + (bridgeServer \<times> bridge_dialer \<times> bridge_listener)" where
  \<comment> \<open>\<^verbatim>\<open>main\<close> up to serving; an error is fatal\<close>
  "bridge_main parse socks fetch keypair listen cfg =
     (case newBridgeServer parse socks cfg of
        Inl e \<Rightarrow> Inl e
      | Inr (srv, dialer) \<Rightarrow>
          (case fetchForeignConsensus fetch srv of
             None \<Rightarrow> Inl NoForeignConsensus
           | Some relays \<Rightarrow>
               (case buildListener keypair listen srv of
                  Inl e \<Rightarrow> Inl e
                | Inr lsn \<Rightarrow> Inr (srv\<lparr>bs_foreignRelays := relays\<rparr>, dialer, lsn))))"

lemma bridge_main_listener:
  "bridge_main parse socks fetch keypair listen cfg = Inr (srv, dialer, lsn) \<Longrightarrow>
     (lsn = TLSListener (gc_ListenAddr cfg) \<longleftrightarrow> gc_Obfs cfg = ''tls'' \<and> gc_TLSCert cfg \<noteq> '''' \<and> gc_TLSKey cfg \<noteq> '''') \<and>
     gc_ForeignDirURL cfg \<noteq> '''' \<and> (gc_UpstreamProxy cfg \<noteq> '''' \<longrightarrow> dialer \<noteq> Direct)"
  by (auto simp: bridge_main_def newBridgeServer_def fetchForeignConsensus_def buildListener_def Let_def
      split: sum.splits option.splits prod.splits if_splits)

end
