(* ===== verification/Broker_Kind.thy ===== *)
theory Broker_Kind
  imports Config
begin

text \<open>
  The rendezvous between clients and volunteer proxies, \<^verbatim>\<open>src/broker/kind.go\<close>. The HTTP
  handlers of many requests run concurrently on one \<^verbatim>\<open>kindRendezvous\<close>, so the model is a step
  relation: a state holds the rendezvous, the allocated sessions (they are shared by pointer
  between the queue, the table and the handlers) and the position of every handler goroutine.
  One step is one atomic action of the source: a channel operation, a critical section, a timer.
  A body that fails to decode, exceeds the size limit or has an empty SDP is the argument \<open>None\<close>
  or the empty string.
\<close>

section \<open>State\<close>

record kindSession =
  ks_id :: string
  ks_offer :: string
  ks_answerCh :: "string list"   \<comment> \<open>a channel of capacity one\<close>

record kindRendezvous =
  kr_offers :: "nat list"        \<comment> \<open>session pointers, oldest first\<close>
  kr_cap :: nat
  kr_pending :: "string \<rightharpoonup> nat"

definition newKindRendezvous :: "int \<Rightarrow> kindRendezvous" where
  "newKindRendezvous capacity =
     \<lparr>kr_offers = [], kr_cap = nat (if capacity < 16 then 16 else capacity), kr_pending = Map.empty\<rparr>"

definition randSessionID :: "(nat \<Rightarrow> byte) \<Rightarrow> string" where
  "randSessionID rnd = hex_encode (map rnd [0..<16])"

datatype kind_resp =
    KBad           \<comment> \<open>400\<close>
  | KBusy          \<comment> \<open>503\<close>
  | KAnswer string \<comment> \<open>200 with the volunteer's SDP\<close>
  | KNoVolunteer   \<comment> \<open>504\<close>
  | KCanceled      \<comment> \<open>the request context ended: nothing is written\<close>
  | KOffer KindPollResponse
  | KNoContent     \<comment> \<open>204\<close>
  | KGone          \<comment> \<open>410\<close>
  | KOK            \<comment> \<open>200\<close>

text \<open>
  Where a handler is. A connect handler has registered its session, waits for the answer, has
  written its response and still has to run the deferred delete, or is done. A poll handler
  waits or has taken a session off the queue. An answer handler has found the session.
\<close>

datatype handler =
    CRegistered nat
  | CWaiting nat
  | CReturning nat kind_resp
  | CDone nat kind_resp
  | PWaiting
  | PGot nat
  | PDone nat kind_resp
  | PIdle kind_resp
  | AFound nat KindAnswerRequest
  | ADone KindAnswerRequest kind_resp
  | Refused

record kind_state =
  kn_rv :: kindRendezvous
  kn_heap :: "nat \<rightharpoonup> kindSession"
  kn_hs :: "nat \<rightharpoonup> handler"

section \<open>Handlers\<close>

inductive kind_connect_step :: "kind_state \<Rightarrow> kind_state \<Rightarrow> bool" where
  bad: "kn_hs s g = None \<Longrightarrow> body = None \<or> body = Some ('''' :: string) \<Longrightarrow>
     kind_connect_step s (s\<lparr>kn_hs := (kn_hs s)(g \<mapsto> Refused)\<rparr>)"
| register: "kn_hs s g = None \<Longrightarrow> kn_heap s r = None \<Longrightarrow> body = Some sdp \<Longrightarrow> sdp \<noteq> '''' \<Longrightarrow> sid = randSessionID rnd \<Longrightarrow>
     kind_connect_step s
       (s\<lparr>kn_heap := (kn_heap s)(r \<mapsto> \<lparr>ks_id = sid, ks_offer = sdp, ks_answerCh = []\<rparr>),
          kn_rv := (kn_rv s)\<lparr>kr_pending := (kr_pending (kn_rv s))(sid \<mapsto> r)\<rparr>,
          kn_hs := (kn_hs s)(g \<mapsto> CRegistered r)\<rparr>)"
| enqueue: "kn_hs s g = Some (CRegistered r) \<Longrightarrow> length (kr_offers (kn_rv s)) < kr_cap (kn_rv s) \<Longrightarrow>
     kind_connect_step s
       (s\<lparr>kn_rv := (kn_rv s)\<lparr>kr_offers := kr_offers (kn_rv s) @ [r]\<rparr>, kn_hs := (kn_hs s)(g \<mapsto> CWaiting r)\<rparr>)"
| busy: "kn_hs s g = Some (CRegistered r) \<Longrightarrow> \<not> length (kr_offers (kn_rv s)) < kr_cap (kn_rv s) \<Longrightarrow>
     kind_connect_step s (s\<lparr>kn_hs := (kn_hs s)(g \<mapsto> CReturning r KBusy)\<rparr>)"
| answered: "kn_hs s g = Some (CWaiting r) \<Longrightarrow> kn_heap s r = Some sess \<Longrightarrow> ks_answerCh sess = ans # rest \<Longrightarrow>
     kind_connect_step s
       (s\<lparr>kn_heap := (kn_heap s)(r \<mapsto> sess\<lparr>ks_answerCh := rest\<rparr>),
          kn_hs := (kn_hs s)(g \<mapsto> CReturning r (KAnswer ans))\<rparr>)"
| timeout: "kn_hs s g = Some (CWaiting r) \<Longrightarrow>
     kind_connect_step s (s\<lparr>kn_hs := (kn_hs s)(g \<mapsto> CReturning r KNoVolunteer)\<rparr>)"
| canceled: "kn_hs s g = Some (CWaiting r) \<Longrightarrow>
     kind_connect_step s (s\<lparr>kn_hs := (kn_hs s)(g \<mapsto> CReturning r KCanceled)\<rparr>)"
| cleanup: "kn_hs s g = Some (CReturning r resp) \<Longrightarrow> kn_heap s r = Some sess \<Longrightarrow>
     kind_connect_step s
       (s\<lparr>kn_rv := (kn_rv s)\<lparr>kr_pending := (kr_pending (kn_rv s))(ks_id sess := None)\<rparr>,
          kn_hs := (kn_hs s)(g \<mapsto> CDone r resp)\<rparr>)"

inductive kind_poll_step :: "kind_state \<Rightarrow> kind_state \<Rightarrow> bool" where
  poll: "kn_hs s g = None \<Longrightarrow> kind_poll_step s (s\<lparr>kn_hs := (kn_hs s)(g \<mapsto> PWaiting)\<rparr>)"
| dequeue: "kn_hs s g = Some PWaiting \<Longrightarrow> kr_offers (kn_rv s) = r # rs \<Longrightarrow>
     kind_poll_step s (s\<lparr>kn_rv := (kn_rv s)\<lparr>kr_offers := rs\<rparr>, kn_hs := (kn_hs s)(g \<mapsto> PGot r)\<rparr>)"
| dead: "kn_hs s g = Some (PGot r) \<Longrightarrow> kn_heap s r = Some sess \<Longrightarrow> kr_pending (kn_rv s) (ks_id sess) = None \<Longrightarrow>
     kind_poll_step s (s\<lparr>kn_hs := (kn_hs s)(g \<mapsto> PDone r KNoContent)\<rparr>)"
| live: "kn_hs s g = Some (PGot r) \<Longrightarrow> kn_heap s r = Some sess \<Longrightarrow> kr_pending (kn_rv s) (ks_id sess) \<noteq> None \<Longrightarrow>
     kind_poll_step s
       (s\<lparr>kn_hs := (kn_hs s)(g \<mapsto> PDone r (KOffer \<lparr>kp_SessionID = ks_id sess, kp_Offer = ks_offer sess\<rparr>))\<rparr>)"
| timeout: "kn_hs s g = Some PWaiting \<Longrightarrow> resp \<in> {KNoContent, KCanceled} \<Longrightarrow>
     kind_poll_step s (s\<lparr>kn_hs := (kn_hs s)(g \<mapsto> PIdle resp)\<rparr>)"

inductive kind_answer_step :: "kind_state \<Rightarrow> kind_state \<Rightarrow> bool" where
  bad: "kn_hs s g = None \<Longrightarrow> body = None \<or> (\<exists>q :: KindAnswerRequest. body = Some q \<and> ka_Answer q = '''') \<Longrightarrow>
     kind_answer_step s (s\<lparr>kn_hs := (kn_hs s)(g \<mapsto> Refused)\<rparr>)"
| gone: "kn_hs s g = None \<Longrightarrow> body = Some q \<Longrightarrow> ka_Answer q \<noteq> '''' \<Longrightarrow> kr_pending (kn_rv s) (ka_SessionID q) = None \<Longrightarrow>
     kind_answer_step s (s\<lparr>kn_hs := (kn_hs s)(g \<mapsto> ADone q KGone)\<rparr>)"
| found: "kn_hs s g = None \<Longrightarrow> body = Some q \<Longrightarrow> ka_Answer q \<noteq> '''' \<Longrightarrow> kr_pending (kn_rv s) (ka_SessionID q) = Some r \<Longrightarrow>
     kind_answer_step s (s\<lparr>kn_hs := (kn_hs s)(g \<mapsto> AFound r q)\<rparr>)"
| send: "kn_hs s g = Some (AFound r q) \<Longrightarrow> kn_heap s r = Some sess \<Longrightarrow>
     kind_answer_step s
       (s\<lparr>kn_heap := (kn_heap s)(r \<mapsto> (if length (ks_answerCh sess) < 1
            then sess\<lparr>ks_answerCh := ks_answerCh sess @ [ka_Answer q]\<rparr> else sess)),
          kn_hs := (kn_hs s)(g \<mapsto> ADone q KOK)\<rparr>)"

definition handleKindInfo :: "BrokerConfig \<Rightarrow> string list" where
  "handleKindInfo cfg = bc_STUNServers cfg"

inductive kind_step :: "kind_state \<Rightarrow> kind_state \<Rightarrow> bool" where
  connect: "kind_connect_step s s' \<Longrightarrow> kind_step s s'"
| poll: "kind_poll_step s s' \<Longrightarrow> kind_step s s'"
| answer: "kind_answer_step s s' \<Longrightarrow> kind_step s s'"

inductive kind_reachable :: "nat \<Rightarrow> kind_state \<Rightarrow> bool" for capacity where
  start: "kind_reachable capacity
     \<lparr>kn_rv = newKindRendezvous (int capacity), kn_heap = Map.empty, kn_hs = Map.empty\<rparr>"
| step: "kind_reachable capacity s \<Longrightarrow> kind_step s s' \<Longrightarrow> kind_reachable capacity s'"

lemmas kind_step_cases = kind_step.cases kind_connect_step.cases kind_poll_step.cases kind_answer_step.cases


section \<open>Invariants\<close>

fun owned :: "handler \<Rightarrow> nat option" where
  \<comment> \<open>the session a connect handler created\<close>
  "owned (CRegistered r) = Some r"
| "owned (CWaiting r) = Some r"
| "owned (CReturning r _) = Some r"
| "owned (CDone r _) = Some r"
| "owned _ = None"

fun running :: "handler \<Rightarrow> nat option" where
  "running (CRegistered r) = Some r"
| "running (CWaiting r) = Some r"
| "running (CReturning r _) = Some r"
| "running _ = None"

fun taken :: "handler \<Rightarrow> nat option" where
  \<comment> \<open>the session a poll handler took off the queue\<close>
  "taken (PGot r) = Some r"
| "taken (PDone r _) = Some r"
| "taken _ = None"

definition session :: "kind_state \<Rightarrow> nat \<Rightarrow> string \<Rightarrow> bool" where
  "session s r sid \<longleftrightarrow> (\<exists>sess. kn_heap s r = Some sess \<and> ks_id sess = sid)"

definition posted :: "kind_state \<Rightarrow> string \<Rightarrow> string \<Rightarrow> bool" where
  \<comment> \<open>some volunteer submitted this answer for this session and got status 200\<close>
  "posted s sid a \<longleftrightarrow> (\<exists>g. kn_hs s g = Some (ADone \<lparr>ka_SessionID = sid, ka_Answer = a\<rparr> KOK))"

definition refs_ok :: "kind_state \<Rightarrow> bool" where
  "refs_ok s \<longleftrightarrow> set (kr_offers (kn_rv s)) \<subseteq> dom (kn_heap s) \<and>
     (\<forall>sid r. kr_pending (kn_rv s) sid = Some r \<longrightarrow> session s r sid) \<and>
     (\<forall>g h r. kn_hs s g = Some h \<longrightarrow> owned h = Some r \<longrightarrow> r \<in> dom (kn_heap s)) \<and>
     (\<forall>g h r. kn_hs s g = Some h \<longrightarrow> taken h = Some r \<longrightarrow> r \<in> dom (kn_heap s)) \<and>
     (\<forall>g r q. kn_hs s g = Some (AFound r q) \<longrightarrow> session s r (ka_SessionID q))"

definition queue_ok :: "kind_state \<Rightarrow> bool" where
  "queue_ok s \<longleftrightarrow> length (kr_offers (kn_rv s)) \<le> kr_cap (kn_rv s) \<and> distinct (kr_offers (kn_rv s)) \<and>
     (\<forall>g g' h h' r. kn_hs s g = Some h \<longrightarrow> kn_hs s g' = Some h' \<longrightarrow> owned h = Some r \<longrightarrow> owned h' = Some r \<longrightarrow> g = g') \<and>
     (\<forall>g g' h h' r. kn_hs s g = Some h \<longrightarrow> kn_hs s g' = Some h' \<longrightarrow> taken h = Some r \<longrightarrow> taken h' = Some r \<longrightarrow> g = g') \<and>
     (\<forall>g h r. kn_hs s g = Some h \<longrightarrow> taken h = Some r \<longrightarrow> r \<notin> set (kr_offers (kn_rv s))) \<and>
     (\<forall>g r. kn_hs s g = Some (CRegistered r) \<longrightarrow>
        r \<notin> set (kr_offers (kn_rv s)) \<and> (\<forall>g' h'. kn_hs s g' = Some h' \<longrightarrow> taken h' \<noteq> Some r))"

definition answers_ok :: "kind_state \<Rightarrow> bool" where
  "answers_ok s \<longleftrightarrow>
     (\<forall>r sess. kn_heap s r = Some sess \<longrightarrow> length (ks_answerCh sess) \<le> 1 \<and> (\<forall>a \<in> set (ks_answerCh sess). posted s (ks_id sess) a)) \<and>
     (\<forall>g h r a. kn_hs s g = Some h \<longrightarrow> h = CReturning r (KAnswer a) \<or> h = CDone r (KAnswer a) \<longrightarrow>
        (\<exists>sid. session s r sid \<and> posted s sid a)) \<and>
     (\<forall>g r x. kn_hs s g = Some (PDone r (KOffer x)) \<longrightarrow>
        (\<exists>sess. kn_heap s r = Some sess \<and> kp_SessionID x = ks_id sess \<and> kp_Offer x = ks_offer sess))"

definition pending_ok :: "kind_state \<Rightarrow> bool" where
  "pending_ok s \<longleftrightarrow> (\<forall>sid r. kr_pending (kn_rv s) sid = Some r \<longrightarrow>
     (\<exists>g h. kn_hs s g = Some h \<and> running h = Some r))"

lemmas kind_invs = refs_ok_def queue_ok_def answers_ok_def pending_ok_def

lemma refs_ok_step:
  assumes "kind_step s s'" "refs_ok s"
  shows "refs_ok s'"
  using assms
  apply (elim kind_step_cases; simp only:)
  apply (auto simp: refs_ok_def session_def dom_def split: if_splits)
  apply fastforce+
  done

text \<open>The effect of a step on the queue: one handler moves, and at most one session enters or leaves.\<close>

lemma queue_effect:
  assumes "kind_step s s'"
  obtains (q_new) g r where "kn_hs s' = (kn_hs s)(g \<mapsto> CRegistered r)" "kn_hs s g = None" "kn_heap s r = None"
      "kr_offers (kn_rv s') = kr_offers (kn_rv s)" "kr_cap (kn_rv s') = kr_cap (kn_rv s)"
  | (q_enq) g r where "kn_hs s' = (kn_hs s)(g \<mapsto> CWaiting r)" "kn_hs s g = Some (CRegistered r)"
      "kr_offers (kn_rv s') = kr_offers (kn_rv s) @ [r]" "length (kr_offers (kn_rv s)) < kr_cap (kn_rv s)"
      "kr_cap (kn_rv s') = kr_cap (kn_rv s)"
  | (q_deq) g r where "kn_hs s' = (kn_hs s)(g \<mapsto> PGot r)" "kn_hs s g = Some PWaiting"
      "kr_offers (kn_rv s) = r # kr_offers (kn_rv s')" "kr_cap (kn_rv s') = kr_cap (kn_rv s)"
  | (q_move) g h where "kn_hs s' = (kn_hs s)(g \<mapsto> h)" "owned h = Option.bind (kn_hs s g) owned"
      "taken h = Option.bind (kn_hs s g) taken" "\<forall>r. h \<noteq> CRegistered r"
      "kr_offers (kn_rv s') = kr_offers (kn_rv s)" "kr_cap (kn_rv s') = kr_cap (kn_rv s)"
  using assms
proof cases
  case connect
  then show ?thesis
  proof cases
    case (bad g body)
    then show ?thesis by (intro q_move [of g Refused]) simp_all
  next
    case (register g r body sdp sid rnd)
    then show ?thesis by (intro q_new [of g r]) simp_all
  next
    case (enqueue g r)
    then show ?thesis by (intro q_enq [of g r]) simp_all
  next
    case (busy g r)
    then show ?thesis by (intro q_move [of g "CReturning r KBusy"]) simp_all
  next
    case (answered g r sess ans rest)
    then show ?thesis by (intro q_move [of g "CReturning r (KAnswer ans)"]) simp_all
  next
    case (timeout g r)
    then show ?thesis by (intro q_move [of g "CReturning r KNoVolunteer"]) simp_all
  next
    case (canceled g r)
    then show ?thesis by (intro q_move [of g "CReturning r KCanceled"]) simp_all
  next
    case (cleanup g r resp sess)
    then show ?thesis by (intro q_move [of g "CDone r resp"]) simp_all
  qed
next
  case poll
  then show ?thesis
  proof cases
    case (poll g)
    then show ?thesis by (intro q_move [of g PWaiting]) simp_all
  next
    case (dequeue g r rs)
    then show ?thesis by (intro q_deq [of g r]) simp_all
  next
    case (dead g r sess)
    then show ?thesis by (intro q_move [of g "PDone r KNoContent"]) simp_all
  next
    case (live g r sess)
    then show ?thesis by (intro q_move [of g "PDone r (KOffer \<lparr>kp_SessionID = ks_id sess, kp_Offer = ks_offer sess\<rparr>)"]) simp_all
  next
    case (timeout g resp)
    then show ?thesis by (intro q_move [of g "PIdle resp"]) simp_all
  qed
next
  case answer
  then show ?thesis
  proof cases
    case (bad g body)
    then show ?thesis by (intro q_move [of g Refused]) simp_all
  next
    case (gone g body q)
    then show ?thesis by (intro q_move [of g "ADone q KGone"]) simp_all
  next
    case (found g body q r)
    then show ?thesis by (intro q_move [of g "AFound r q"]) simp_all
  next
    case (send g r q sess)
    then show ?thesis by (intro q_move [of g "ADone q KOK"]) simp_all
  qed
qed

lemma queue_ok_step:
  assumes "kind_step s s'" "refs_ok s" "queue_ok s"
  shows "queue_ok s'"
  using assms(1)
proof (cases rule: queue_effect)
  case (q_new g r)
  have "\<forall>g h. kn_hs s g = Some h \<longrightarrow> owned h \<noteq> Some r \<and> taken h \<noteq> Some r" "r \<notin> set (kr_offers (kn_rv s))"
    using assms(2) q_new(3) unfolding refs_ok_def by blast+
  then show ?thesis using assms(3) q_new unfolding queue_ok_def by auto
next
  case (q_enq g r)
  then show ?thesis using assms(3) unfolding queue_ok_def by auto
next
  case (q_deq g r)
  then have "r \<in> set (kr_offers (kn_rv s))" by simp
  then have "\<forall>g h. kn_hs s g = Some h \<longrightarrow> taken h \<noteq> Some r" using assms(3) unfolding queue_ok_def by blast
  then show ?thesis using q_deq assms(3) unfolding queue_ok_def by auto
next
  case (q_move g h)
  then show ?thesis using assms(3) unfolding queue_ok_def by (auto simp: bind_eq_Some_conv)
qed

lemma answer_done_stays: "kind_step s s' \<Longrightarrow> kn_hs s g = Some (ADone q k) \<Longrightarrow> kn_hs s' g = Some (ADone q k)"
  by (elim kind_step_cases; simp only:) auto

lemma posted_mono: "kind_step s s' \<Longrightarrow> posted s sid a \<Longrightarrow> posted s' sid a"
  unfolding posted_def using answer_done_stays by blast

lemma session_mono:
  assumes "kind_step s s'" "kn_heap s r = Some sess"
  shows "\<exists>sess'. kn_heap s' r = Some sess' \<and> ks_id sess' = ks_id sess \<and> ks_offer sess' = ks_offer sess"
  using assms by (elim kind_step_cases; simp only:) auto

lemma channel_length:
  assumes "kind_step s s'" "answers_ok s" "kn_heap s' r = Some sess"
  shows "length (ks_answerCh sess) \<le> 1"
  using assms by (elim kind_step_cases; simp only:) (fastforce simp: answers_ok_def split: if_splits)+

lemma postedI: "kn_hs s g = Some (ADone q KOK) \<Longrightarrow> ka_SessionID q = sid \<Longrightarrow> posted s sid (ka_Answer q)"
  unfolding posted_def by (intro exI [of _ g]) simp

lemma channel_step:
  assumes "kind_step s s'" "refs_ok s" "kn_heap s' r = Some sess" "a \<in> set (ks_answerCh sess)"
  shows "(\<exists>sess0. kn_heap s r = Some sess0 \<and> ks_id sess0 = ks_id sess \<and> a \<in> set (ks_answerCh sess0)) \<or>
     posted s' (ks_id sess) a"
  using assms
  apply (elim kind_step_cases; simp only:)
  apply (auto simp: refs_ok_def session_def split: if_splits)
  apply (fastforce intro: postedI)
  done

lemma answer_step:
  assumes "kind_step s s'" "answers_ok s" "kn_hs s' g = Some h" "h = CReturning r (KAnswer a) \<or> h = CDone r (KAnswer a)"
  shows "(\<exists>h'. kn_hs s g = Some h' \<and> (h' = CReturning r (KAnswer a) \<or> h' = CDone r (KAnswer a))) \<or>
     (\<exists>sess. kn_heap s r = Some sess \<and> a \<in> set (ks_answerCh sess))"
  using assms by (elim kind_step_cases; simp only:) (auto split: if_splits)

lemma offer_step:
  assumes "kind_step s s'" "kn_hs s' g = Some (PDone r (KOffer x))"
  shows "kn_hs s g = Some (PDone r (KOffer x)) \<or>
     (\<exists>sess. kn_heap s r = Some sess \<and> kp_SessionID x = ks_id sess \<and> kp_Offer x = ks_offer sess)"
  using assms by (elim kind_step_cases; simp only:) (auto split: if_splits)

lemma running_step:
  assumes "kind_step s s'" "kn_hs s g = Some h" "running h = Some r" "kn_heap s r = Some sess"
  shows "\<exists>h'. kn_hs s' g = Some h' \<and> (running h' = Some r \<or> kr_pending (kn_rv s') (ks_id sess) = None)"
  using assms by (elim kind_step_cases; simp only:) auto

lemma pending_new:
  assumes "kind_step s s'" "kr_pending (kn_rv s') sid = Some r" "kr_pending (kn_rv s) sid \<noteq> Some r"
  shows "\<exists>g h. kn_hs s' g = Some h \<and> running h = Some r"
  using assms by (elim kind_step_cases; simp only:) (auto split: if_splits)

lemma pending_ok_step:
  assumes st: "kind_step s s'" and "refs_ok s" "pending_ok s"
  shows "pending_ok s'"
  unfolding pending_ok_def
proof (intro allI impI)
  fix sid r assume p: "kr_pending (kn_rv s') sid = Some r"
  show "\<exists>g h. kn_hs s' g = Some h \<and> running h = Some r"
  proof (cases "kr_pending (kn_rv s) sid = Some r")
    case True
    then obtain g h where h: "kn_hs s g = Some h" "running h = Some r" using assms(3) unfolding pending_ok_def by blast
    obtain sess where sess: "kn_heap s r = Some sess" "ks_id sess = sid"
      using True assms(2) unfolding refs_ok_def session_def by blast
    show ?thesis using running_step [OF st h sess(1)] sess(2) p by auto
  qed (rule pending_new [OF st p])
qed

lemma answers_ok_step:
  assumes st: "kind_step s s'" and "refs_ok s" "answers_ok s"
  shows "answers_ok s'"
proof -
  have 1: "\<exists>sid. session s' r sid \<and> posted s' sid a"
    if h: "kn_hs s' g = Some h" "h = CReturning r (KAnswer a) \<or> h = CDone r (KAnswer a)" for g h r a
  proof -
    have "\<exists>sess. kn_heap s r = Some sess \<and> posted s (ks_id sess) a"
      using answer_step [OF st assms(3) h] assms(3) unfolding answers_ok_def session_def by metis
    then show ?thesis using session_mono [OF st] posted_mono [OF st] unfolding session_def by metis
  qed
  have 2: "\<exists>sess. kn_heap s' r = Some sess \<and> kp_SessionID x = ks_id sess \<and> kp_Offer x = ks_offer sess"
    if h: "kn_hs s' g = Some (PDone r (KOffer x))" for g r x
    using offer_step [OF st h] session_mono [OF st] assms(3) unfolding answers_ok_def by metis
  have 3: "length (ks_answerCh sess) \<le> 1 \<and> (\<forall>a \<in> set (ks_answerCh sess). posted s' (ks_id sess) a)"
    if h: "kn_heap s' r = Some sess" for r sess
    using channel_length [OF st assms(3) h] channel_step [OF st assms(2) h] posted_mono [OF st] assms(3)
    unfolding answers_ok_def by metis
  show ?thesis unfolding answers_ok_def using 1 2 3 by blast
qed

lemma reachable_inv:
  "kind_reachable capacity s \<Longrightarrow> refs_ok s \<and> queue_ok s \<and> answers_ok s \<and> pending_ok s \<and> kr_cap (kn_rv s) = max 16 capacity"
proof (induction rule: kind_reachable.induct)
  case start
  show ?case by (auto simp: kind_invs newKindRendezvous_def)
next
  case (step s s')
  have "kr_cap (kn_rv s') = kr_cap (kn_rv s)"
    using step(2) by (elim kind_step_cases; simp only:) auto
  with step show ?case
    using refs_ok_step queue_ok_step answers_ok_step pending_ok_step by simp
qed

text \<open>
  C13: Safety of the rendezvous under every interleaving of its handlers. The queue never exceeds its
  capacity; a session is handed to at most one volunteer, with the id and offer of the
  client that created it; an answer a client receives was submitted, and accepted, for that
  client's session id; the table of pending sessions only refers to connect handlers that are
  still running.
\<close>

theorem kind_rendezvous_safe:
  assumes "kind_reachable capacity s"
  shows "length (kr_offers (kn_rv s)) \<le> max 16 capacity \<and>
     (\<forall>g g' r x x'. kn_hs s g = Some (PDone r (KOffer x)) \<longrightarrow> kn_hs s g' = Some (PDone r (KOffer x')) \<longrightarrow> g = g') \<and>
     (\<forall>g r x. kn_hs s g = Some (PDone r (KOffer x)) \<longrightarrow>
        (\<exists>sess. kn_heap s r = Some sess \<and> x = \<lparr>kp_SessionID = ks_id sess, kp_Offer = ks_offer sess\<rparr>)) \<and>
     (\<forall>g r a. kn_hs s g = Some (CDone r (KAnswer a)) \<longrightarrow>
        (\<exists>sess g'. kn_heap s r = Some sess \<and>
           kn_hs s g' = Some (ADone \<lparr>ka_SessionID = ks_id sess, ka_Answer = a\<rparr> KOK))) \<and>
     (\<forall>sid r. kr_pending (kn_rv s) sid = Some r \<longrightarrow>
        (\<exists>g. kn_hs s g = Some (CRegistered r) \<or> kn_hs s g = Some (CWaiting r) \<or> (\<exists>k. kn_hs s g = Some (CReturning r k))))"
proof -
  have inv: "refs_ok s" "queue_ok s" "answers_ok s" "pending_ok s" "kr_cap (kn_rv s) = max 16 capacity"
    using reachable_inv [OF assms] by auto
  have "length (kr_offers (kn_rv s)) \<le> max 16 capacity" using inv by (simp add: queue_ok_def)
  moreover have "g = g'" if "kn_hs s g = Some (PDone r (KOffer x))" "kn_hs s g' = Some (PDone r (KOffer x'))" for g g' r x x'
    using inv(2) that taken.simps(2) unfolding queue_ok_def by metis
  moreover have "\<exists>sess. kn_heap s r = Some sess \<and> x = \<lparr>kp_SessionID = ks_id sess, kp_Offer = ks_offer sess\<rparr>"
    if "kn_hs s g = Some (PDone r (KOffer x))" for g r x
    using inv(3) that unfolding answers_ok_def by (metis KindPollResponse.surjective old.unit.exhaust)
  moreover have "\<exists>sess g'. kn_heap s r = Some sess \<and> kn_hs s g' = Some (ADone \<lparr>ka_SessionID = ks_id sess, ka_Answer = a\<rparr> KOK)"
    if "kn_hs s g = Some (CDone r (KAnswer a))" for g r a
    using inv(3) that unfolding answers_ok_def session_def posted_def by metis
  moreover have "\<exists>g. kn_hs s g = Some (CRegistered r) \<or> kn_hs s g = Some (CWaiting r) \<or> (\<exists>k. kn_hs s g = Some (CReturning r k))"
    if p: "kr_pending (kn_rv s) sid = Some r" for sid r
  proof -
    obtain g h where "kn_hs s g = Some h" "running h = Some r" using inv(4) p unfolding pending_ok_def by blast
    then show ?thesis by (cases h) auto
  qed
  ultimately show ?thesis by blast
qed

section \<open>Progress\<close>

definition grows :: "kind_state \<Rightarrow> kind_state \<Rightarrow> bool" where
  \<comment> \<open>a run that leaves the existing handlers, the sessions and the table alone\<close>
  "grows s s' \<longleftrightarrow> kind_step\<^sup>*\<^sup>* s s' \<and> kn_hs s \<subseteq>\<^sub>m kn_hs s' \<and> kn_heap s' = kn_heap s \<and>
     kr_pending (kn_rv s') = kr_pending (kn_rv s) \<and> finite (dom (kn_hs s'))"

lemma fresh_handler: "finite (dom hs) \<Longrightarrow> \<exists>g :: nat. hs g = None"
  using ex_new_if_finite [OF infinite_UNIV_nat, of "dom hs"] by auto

lemma finite_dom_upd: "finite (dom m) \<Longrightarrow> finite (dom (m(g \<mapsto> h)))"
  by (simp del: fun_upd_apply)

lemma poll_steps:
  assumes "kn_hs s g = None" "kr_offers (kn_rv s) = r # rs" "kn_heap s r = Some sess"
  defines "resp \<equiv> (if kr_pending (kn_rv s) (ks_id sess) = None then KNoContent
      else KOffer \<lparr>kp_SessionID = ks_id sess, kp_Offer = ks_offer sess\<rparr>)"
  shows "kind_step\<^sup>*\<^sup>* s (s\<lparr>kn_rv := (kn_rv s)\<lparr>kr_offers := rs\<rparr>, kn_hs := (kn_hs s)(g \<mapsto> PDone r resp)\<rparr>)"
proof -
  let ?s1 = "s\<lparr>kn_hs := (kn_hs s)(g \<mapsto> PWaiting)\<rparr>"
  let ?s2 = "?s1\<lparr>kn_rv := (kn_rv ?s1)\<lparr>kr_offers := rs\<rparr>, kn_hs := (kn_hs ?s1)(g \<mapsto> PGot r)\<rparr>"
  let ?s3 = "?s2\<lparr>kn_hs := (kn_hs ?s2)(g \<mapsto> PDone r resp)\<rparr>"
  have 1: "kind_step s ?s1" using assms(1) by (intro kind_step.poll kind_poll_step.poll)
  have 2: "kind_step ?s1 ?s2" using assms by (intro kind_step.poll kind_poll_step.dequeue) simp_all
  have 3: "kind_step ?s2 ?s3"
  proof (cases "kr_pending (kn_rv s) (ks_id sess) = None")
    case True
    then show ?thesis
      using kind_poll_step.dead [of ?s2 g r sess] assms(3) unfolding resp_def by (intro kind_step.poll) simp
  next
    case False
    then show ?thesis
      using kind_poll_step.live [of ?s2 g r sess] assms(3) unfolding resp_def by (intro kind_step.poll) auto
  qed
  have "kind_step\<^sup>*\<^sup>* s ?s3" using 1 2 3 by (meson rtranclp.rtrancl_into_rtrancl rtranclp.rtrancl_refl)
  then show ?thesis by simp
qed

lemma drain_queue:
  assumes "kr_offers (kn_rv s) = pre @ rest" "set pre \<subseteq> dom (kn_heap s)" "finite (dom (kn_hs s))"
  shows "\<exists>s'. grows s s' \<and> kr_offers (kn_rv s') = rest"
  using assms
proof (induction pre arbitrary: s)
  case Nil
  then show ?case by (auto simp: grows_def)
next
  case (Cons r pre)
  obtain g where g: "kn_hs s g = None" using fresh_handler [OF Cons.prems(3)] by blast
  obtain sess where sess: "kn_heap s r = Some sess" using Cons.prems(2) by auto
  have q: "kr_offers (kn_rv s) = r # pre @ rest" using Cons.prems(1) by simp
  obtain k where st: "kind_step\<^sup>*\<^sup>* s (s\<lparr>kn_rv := (kn_rv s)\<lparr>kr_offers := pre @ rest\<rparr>, kn_hs := (kn_hs s)(g \<mapsto> PDone r k)\<rparr>)"
    (is "kind_step\<^sup>*\<^sup>* s ?s1")
    using poll_steps [OF g q sess] by blast
  have "\<exists>s'. grows ?s1 s' \<and> kr_offers (kn_rv s') = rest" using Cons.prems finite_dom_upd [of "kn_hs s"] by (intro Cons.IH) (auto simp del: fun_upd_apply)
  then obtain s' where s': "grows ?s1 s'" "kr_offers (kn_rv s') = rest" by blast
  have "kn_hs s \<subseteq>\<^sub>m kn_hs ?s1" using g by (auto simp: map_le_def)
  moreover have "kn_hs ?s1 \<subseteq>\<^sub>m kn_hs s'" using s'(1) unfolding grows_def by blast
  ultimately have "kn_hs s \<subseteq>\<^sub>m kn_hs s'" by (rule map_le_trans)
  moreover have "kind_step\<^sup>*\<^sup>* s s'" using st s'(1) unfolding grows_def by (meson rtranclp_trans)
  ultimately have "grows s s'" using s'(1) by (simp add: grows_def)
  with s'(2) show ?case by blast
qed

lemma reachable_finite: "kind_reachable capacity s \<Longrightarrow> finite (dom (kn_hs s))"
proof (induction rule: kind_reachable.induct)
  case (step s s')
  have "\<exists>g h. kn_hs s' = (kn_hs s)(g \<mapsto> h)" using step(2) by (elim kind_step_cases; simp only:) auto
  then show ?case using step(3) finite_dom_upd by metis
qed simp

lemma answer_steps:
  assumes "kn_hs s g = Some (CWaiting r)" "kn_heap s r = Some sess" "ks_answerCh sess = []"
    "kr_pending (kn_rv s) (ks_id sess) = Some r" "kn_hs s g' = None" "a \<noteq> ''''"
  defines "q \<equiv> \<lparr>ka_SessionID = ks_id sess, ka_Answer = a\<rparr>"
  shows "kind_step\<^sup>*\<^sup>* s
     (s\<lparr>kn_rv := (kn_rv s)\<lparr>kr_pending := (kr_pending (kn_rv s))(ks_id sess := None)\<rparr>,
        kn_hs := (kn_hs s)(g' \<mapsto> ADone q KOK, g \<mapsto> CDone r (KAnswer a))\<rparr>)"
proof -
  have ne: "g \<noteq> g'" using assms(1,5) by auto
  let ?s1 = "s\<lparr>kn_hs := (kn_hs s)(g' \<mapsto> AFound r q)\<rparr>"
  let ?s2 = "?s1\<lparr>kn_heap := (kn_heap ?s1)(r \<mapsto> sess\<lparr>ks_answerCh := [a]\<rparr>), kn_hs := (kn_hs ?s1)(g' \<mapsto> ADone q KOK)\<rparr>"
  let ?s3 = "?s2\<lparr>kn_heap := (kn_heap ?s2)(r \<mapsto> sess), kn_hs := (kn_hs ?s2)(g \<mapsto> CReturning r (KAnswer a))\<rparr>"
  let ?s4 = "?s3\<lparr>kn_rv := (kn_rv ?s3)\<lparr>kr_pending := (kr_pending (kn_rv ?s3))(ks_id sess := None)\<rparr>,
      kn_hs := (kn_hs ?s3)(g \<mapsto> CDone r (KAnswer a))\<rparr>"
  have sess: "sess\<lparr>ks_answerCh := []\<rparr> = sess" using assms(3) by (cases sess) simp
  have 1: "kind_step s ?s1"
    using assms by (intro kind_step.answer kind_answer_step.found [where body = "Some q"]) (auto simp: q_def)
  have 2: "kind_step ?s1 ?s2"
    using kind_answer_step.send [of ?s1 g' r q sess] assms by (intro kind_step.answer) (simp add: q_def)
  have 3: "kind_step ?s2 ?s3"
    using kind_connect_step.answered [of ?s2 g r "sess\<lparr>ks_answerCh := [a]\<rparr>" a "[]"] assms(1) ne sess
    by (intro kind_step.connect) simp
  have 4: "kind_step ?s3 ?s4"
    using kind_connect_step.cleanup [of ?s3 g r "KAnswer a" sess] by (intro kind_step.connect) simp
  have "kind_step\<^sup>*\<^sup>* s ?s4" using 1 2 3 4 by (meson rtranclp.rtrancl_into_rtrancl rtranclp.rtrancl_refl)
  moreover have "kn_heap ?s4 = kn_heap s" using assms(2) by (simp add: map_upd_triv)
  ultimately show ?thesis using assms(2) ne by (simp add: fun_upd_twist)
qed

lemma rendezvous_run:
  assumes "kind_reachable capacity s" "kn_hs s g = Some (CWaiting r)" "kn_heap s r = Some sess" "ks_answerCh sess = []"
    "kr_pending (kn_rv s) (ks_id sess) = Some r" "r \<in> set (kr_offers (kn_rv s))" "a \<noteq> ''''"
  shows "\<exists>s' g1 g2. kind_step\<^sup>*\<^sup>* s s' \<and>
     kn_hs s' g1 = Some (PDone r (KOffer \<lparr>kp_SessionID = ks_id sess, kp_Offer = ks_offer sess\<rparr>)) \<and>
     kn_hs s' g2 = Some (ADone \<lparr>ka_SessionID = ks_id sess, ka_Answer = a\<rparr> KOK) \<and>
     kn_hs s' g = Some (CDone r (KAnswer a)) \<and> kr_pending (kn_rv s') (ks_id sess) = None"
proof -
  obtain pre rest where q: "kr_offers (kn_rv s) = pre @ r # rest" using assms(6) split_list by metis
  have "set pre \<subseteq> dom (kn_heap s)" using reachable_inv [OF assms(1)] q by (auto simp: refs_ok_def)
  then obtain s1 where s1: "grows s s1" "kr_offers (kn_rv s1) = r # rest"
    using drain_queue [OF q] reachable_finite [OF assms(1)] by blast
  then have frame: "kn_heap s1 r = Some sess" "kr_pending (kn_rv s1) (ks_id sess) = Some r" "finite (dom (kn_hs s1))"
    "kn_hs s1 g = Some (CWaiting r)" "kind_step\<^sup>*\<^sup>* s s1"
    using assms by (auto simp: grows_def map_le_def dom_def)
  obtain g1 where g1: "kn_hs s1 g1 = None" using fresh_handler [OF frame(3)] by blast
  let ?off = "KOffer \<lparr>kp_SessionID = ks_id sess, kp_Offer = ks_offer sess\<rparr>"
  let ?s2 = "s1\<lparr>kn_rv := (kn_rv s1)\<lparr>kr_offers := rest\<rparr>, kn_hs := (kn_hs s1)(g1 \<mapsto> PDone r ?off)\<rparr>"
  have 2: "kind_step\<^sup>*\<^sup>* s1 ?s2" using poll_steps [OF g1 s1(2) frame(1)] frame(2) by simp
  have "finite (dom (kn_hs ?s2))" using finite_dom_upd [OF frame(3)] by (simp del: fun_upd_apply)
  then obtain g2 where g2: "kn_hs ?s2 g2 = None" using fresh_handler by blast
  have ne: "g \<noteq> g1" "g1 \<noteq> g2" "g \<noteq> g2" using g1 g2 frame(4) by (auto split: if_splits)
  have w: "kn_hs ?s2 g = Some (CWaiting r)" using ne frame(4) by simp
  have h: "kn_heap ?s2 r = Some sess" "kr_pending (kn_rv ?s2) (ks_id sess) = Some r" using frame by simp_all
  let ?s3 = "?s2\<lparr>kn_rv := (kn_rv ?s2)\<lparr>kr_pending := (kr_pending (kn_rv ?s2))(ks_id sess := None)\<rparr>,
        kn_hs := (kn_hs ?s2)(g2 \<mapsto> ADone \<lparr>ka_SessionID = ks_id sess, ka_Answer = a\<rparr> KOK, g \<mapsto> CDone r (KAnswer a))\<rparr>"
  have "kind_step\<^sup>*\<^sup>* ?s2 ?s3" by (rule answer_steps [OF w h(1) assms(4) h(2) g2 assms(7)])
  then have "kind_step\<^sup>*\<^sup>* s ?s3" using frame(5) 2 by (meson rtranclp_trans)
  then show ?thesis using ne by (intro exI [of _ ?s3] exI [of _ g1] exI [of _ g2]) simp
qed

text \<open>
  A waiting client can always be served: from every reachable state in which a client's session is
  queued, pending and unanswered, further polls and one answer, with nothing else going on, lead
  to a state in which some volunteer has received exactly that client's offer, its answer is
  accepted, the client has received the answer and the session is gone from the table.
\<close>

theorem kind_rendezvous_completes:
  assumes "kind_reachable capacity s" "kn_hs s g = Some (CWaiting r)" "kn_heap s r = Some sess" "ks_answerCh sess = []"
    "kr_pending (kn_rv s) (ks_id sess) = Some r" "r \<in> set (kr_offers (kn_rv s))" "a \<noteq> ''''"
  shows "\<exists>s' g1 g2. kind_step\<^sup>*\<^sup>* s s' \<and>
     kn_hs s' g1 = Some (PDone r (KOffer \<lparr>kp_SessionID = ks_id sess, kp_Offer = ks_offer sess\<rparr>)) \<and>
     kn_hs s' g2 = Some (ADone \<lparr>ka_SessionID = ks_id sess, ka_Answer = a\<rparr> KOK) \<and>
     kn_hs s' g = Some (CDone r (KAnswer a)) \<and> kr_pending (kn_rv s') (ks_id sess) = None"
  by (rule rendezvous_run [OF assms])

section \<open>Dead offers\<close>

definition connect_then_timeout :: "nat \<Rightarrow> kind_state \<Rightarrow> kind_state" where
  \<comment> \<open>the state after a client with handler and session number \<open>n\<close> connected, waited in vain and left\<close>
  "connect_then_timeout n s =
     s\<lparr>kn_heap := (kn_heap s)(n \<mapsto> \<lparr>ks_id = randSessionID (\<lambda>_. 0), ks_offer = ''o'', ks_answerCh = []\<rparr>),
       kn_rv := (kn_rv s)\<lparr>kr_offers := kr_offers (kn_rv s) @ [n],
          kr_pending := (kr_pending (kn_rv s))(randSessionID (\<lambda>_. 0) := None)\<rparr>,
       kn_hs := (kn_hs s)(n \<mapsto> CDone n KNoVolunteer)\<rparr>"

lemma register_enqueue:
  assumes "kn_hs s g = None" "kn_heap s r = None" "length (kr_offers (kn_rv s)) < kr_cap (kn_rv s)" "sdp \<noteq> ''''"
    and sid_def: "sid = randSessionID rnd"
  shows "kind_step\<^sup>*\<^sup>* s
     (s\<lparr>kn_heap := (kn_heap s)(r \<mapsto> \<lparr>ks_id = sid, ks_offer = sdp, ks_answerCh = []\<rparr>),
        kn_rv := (kn_rv s)\<lparr>kr_pending := (kr_pending (kn_rv s))(sid \<mapsto> r), kr_offers := kr_offers (kn_rv s) @ [r]\<rparr>,
        kn_hs := (kn_hs s)(g \<mapsto> CWaiting r)\<rparr>)"
proof -
  let ?s1 = "s\<lparr>kn_heap := (kn_heap s)(r \<mapsto> \<lparr>ks_id = sid, ks_offer = sdp, ks_answerCh = []\<rparr>),
        kn_rv := (kn_rv s)\<lparr>kr_pending := (kr_pending (kn_rv s))(sid \<mapsto> r)\<rparr>,
        kn_hs := (kn_hs s)(g \<mapsto> CRegistered r)\<rparr>"
  have 1: "kind_step s ?s1"
    using kind_connect_step.register [OF assms(1,2) refl assms(4) refl, of rnd] unfolding sid_def by (rule kind_step.connect)
  have 2: "kind_step ?s1 (?s1\<lparr>kn_rv := (kn_rv ?s1)\<lparr>kr_offers := kr_offers (kn_rv ?s1) @ [r]\<rparr>,
      kn_hs := (kn_hs ?s1)(g \<mapsto> CWaiting r)\<rparr>)"
    using assms(3) by (intro kind_step.connect kind_connect_step.enqueue) simp_all
  have "kind_step\<^sup>*\<^sup>* s (?s1\<lparr>kn_rv := (kn_rv ?s1)\<lparr>kr_offers := kr_offers (kn_rv ?s1) @ [r]\<rparr>,
      kn_hs := (kn_hs ?s1)(g \<mapsto> CWaiting r)\<rparr>)"
    using 1 2 by (meson rtranclp.rtrancl_into_rtrancl rtranclp.rtrancl_refl)
  then show ?thesis by simp
qed

lemma connect_then_timeout_steps:
  assumes "kn_hs s n = None" "kn_heap s n = None" "length (kr_offers (kn_rv s)) < kr_cap (kn_rv s)"
  shows "kind_step\<^sup>*\<^sup>* s (connect_then_timeout n s)"
proof -
  let ?sess = "\<lparr>ks_id = randSessionID (\<lambda>_. 0), ks_offer = ''o'', ks_answerCh = []\<rparr>"
  let ?s1 = "s\<lparr>kn_heap := (kn_heap s)(n \<mapsto> ?sess),
        kn_rv := (kn_rv s)\<lparr>kr_pending := (kr_pending (kn_rv s))(randSessionID (\<lambda>_. 0) \<mapsto> n),
          kr_offers := kr_offers (kn_rv s) @ [n]\<rparr>,
        kn_hs := (kn_hs s)(n \<mapsto> CWaiting n)\<rparr>"
  let ?s2 = "?s1\<lparr>kn_hs := (kn_hs ?s1)(n \<mapsto> CReturning n KNoVolunteer)\<rparr>"
  have 1: "kind_step\<^sup>*\<^sup>* s ?s1" by (rule register_enqueue [OF assms _ refl]) simp
  have 2: "kind_step ?s1 ?s2" by (intro kind_step.connect kind_connect_step.timeout) simp
  have 3: "kind_step ?s2 (connect_then_timeout n s)"
    using kind_connect_step.cleanup [of ?s2 n n KNoVolunteer ?sess]
    by (intro kind_step.connect) (simp add: connect_then_timeout_def)
  show ?thesis using 1 2 3 by (meson rtranclp.rtrancl_into_rtrancl)
qed

lemma reachable_steps: "kind_step\<^sup>*\<^sup>* s s' \<Longrightarrow> kind_reachable capacity s \<Longrightarrow> kind_reachable capacity s'"
  by (induction rule: rtranclp_induct) (auto intro: kind_reachable.step)

lemma dead_offers_reachable:
  "n \<le> max 16 capacity \<Longrightarrow> \<exists>s. kind_reachable capacity s \<and> kr_offers (kn_rv s) = [0..<n] \<and> kr_pending (kn_rv s) = Map.empty \<and>
     (\<forall>m \<ge> n. kn_heap s m = None \<and> kn_hs s m = None) \<and> (\<forall>m h. kn_hs s m = Some h \<longrightarrow> h = CDone m KNoVolunteer)"
proof (induction n)
  case 0
  show ?case
    by (rule exI, rule conjI, rule kind_reachable.start) (simp add: newKindRendezvous_def)
next
  case (Suc n)
  then obtain s where s: "kind_reachable capacity s" "kr_offers (kn_rv s) = [0..<n]" "kr_pending (kn_rv s) = Map.empty"
    "\<forall>m \<ge> n. kn_heap s m = None \<and> kn_hs s m = None" "\<forall>m h. kn_hs s m = Some h \<longrightarrow> h = CDone m KNoVolunteer"
    by auto
  have "kr_cap (kn_rv s) = max 16 capacity" using reachable_inv [OF s(1)] by simp
  then have "kind_reachable capacity (connect_then_timeout n s)"
    using s Suc.prems by (intro reachable_steps [OF connect_then_timeout_steps s(1)]) auto
  then show ?case
    using s by (intro exI [of _ "connect_then_timeout n s"]) (auto simp: connect_then_timeout_def)
qed

lemma full_queue_refuses:
  assumes "kind_connect_step\<^sup>*\<^sup>* s t" "length (kr_offers (kn_rv s)) = kr_cap (kn_rv s)" "\<forall>g r. kn_hs s g \<noteq> Some (CWaiting r)"
  shows "length (kr_offers (kn_rv t)) = kr_cap (kn_rv t) \<and> (\<forall>g r. kn_hs t g \<noteq> Some (CWaiting r))"
  using assms(1)
proof (induction rule: rtranclp_induct)
  case base
  show ?case using assms(2,3) by blast
next
  case (step t u)
  then show ?case by (elim kind_connect_step.cases; simp only:) (auto split: if_splits)
qed

text \<open>
  Offers of clients that gave up stay in the queue. A state is reachable in which no connect
  handler is running and no session is pending, yet the queue is full; from there, until a
  volunteer polls, no client gets to wait for an answer: every connect request is refused as busy.
\<close>

theorem kind_dead_offers_block:
  "\<exists>s. kind_reachable capacity s \<and> kr_pending (kn_rv s) = Map.empty \<and>
     {g. \<exists>h r. kn_hs s g = Some h \<and> running h = Some r} = {} \<and> length (kr_offers (kn_rv s)) = max 16 capacity \<and>
     {t. kind_connect_step\<^sup>*\<^sup>* s t \<and> (\<exists>g r. kn_hs t g = Some (CWaiting r))} = {}"
proof -
  obtain s where s: "kind_reachable capacity s" "kr_offers (kn_rv s) = [0..<max 16 capacity]" "kr_pending (kn_rv s) = Map.empty"
    "\<forall>m h. kn_hs s m = Some h \<longrightarrow> h = CDone m KNoVolunteer"
    using dead_offers_reachable [of "max 16 capacity" capacity] by blast
  have "length (kr_offers (kn_rv s)) = kr_cap (kn_rv s)" using reachable_inv [OF s(1)] s(2) by simp
  moreover have "\<forall>g r. kn_hs s g \<noteq> Some (CWaiting r)" using s(4) by blast
  ultimately have "{t. kind_connect_step\<^sup>*\<^sup>* s t \<and> (\<exists>g r. kn_hs t g = Some (CWaiting r))} = {}"
    using full_queue_refuses by blast
  moreover have "{g. \<exists>h r. kn_hs s g = Some h \<and> running h = Some r} = {}" using s(4) by fastforce
  ultimately show ?thesis using s by (intro exI [of _ s]) simp
qed

section \<open>Witnesses\<close>

lemma waiting_client_reachable:
  "\<exists>s. kind_reachable 64 s \<and> kn_hs s 0 = Some (CWaiting 0) \<and> kr_offers (kn_rv s) = [0] \<and>
     kn_heap s 0 = Some \<lparr>ks_id = randSessionID (\<lambda>_. 7), ks_offer = ''offer'', ks_answerCh = []\<rparr> \<and>
     dom (kn_hs s) = {0} \<and> dom (kn_heap s) = {0} \<and> kr_pending (kn_rv s) (randSessionID (\<lambda>_. 7)) = Some 0"
proof -
  let ?init = "\<lparr>kn_rv = newKindRendezvous (int 64), kn_heap = Map.empty, kn_hs = Map.empty\<rparr>"
  let ?sid = "randSessionID (\<lambda>_. 7)"
  let ?s = "\<lparr>kn_rv = (newKindRendezvous 64)\<lparr>kr_pending := [?sid \<mapsto> 0], kr_offers := [0]\<rparr>,
      kn_heap = [0 \<mapsto> \<lparr>ks_id = ?sid, ks_offer = ''offer'', ks_answerCh = []\<rparr>], kn_hs = [0 \<mapsto> CWaiting 0]\<rparr>"
  have "kind_step\<^sup>*\<^sup>* ?init ?s"
    using register_enqueue [where s = ?init and g = 0 and r = 0 and sdp = "''offer''" and sid = ?sid and rnd = "\<lambda>_. 7"]
    by (simp add: newKindRendezvous_def)
  from reachable_steps [OF this kind_reachable.start] have "kind_reachable 64 ?s" .
  then show ?thesis by (intro exI [of _ ?s]) simp
qed

theorem kind_rendezvous_completes_witness:
  "\<exists>s s'. kind_reachable 64 s \<and> kn_hs s 0 = Some (CWaiting 0) \<and> kind_step\<^sup>*\<^sup>* s s' \<and>
     kn_hs s' 0 = Some (CDone 0 (KAnswer ''answer''))"
proof -
  obtain s where s: "kind_reachable 64 s" "kn_hs s 0 = Some (CWaiting 0)" "kr_offers (kn_rv s) = [0]"
    "kn_heap s 0 = Some \<lparr>ks_id = randSessionID (\<lambda>_. 7), ks_offer = ''offer'', ks_answerCh = []\<rparr>"
    "kr_pending (kn_rv s) (randSessionID (\<lambda>_. 7)) = Some 0"
    using waiting_client_reachable by blast
  then show ?thesis using kind_rendezvous_completes [OF s(1,2,4), of "''answer''"] by auto
qed

theorem kind_rendezvous_safe_witness:
  "\<exists>s g g'. kind_reachable 64 s \<and> kn_hs s g = Some (CDone 0 (KAnswer ''answer'')) \<and>
     kn_hs s g' = Some (ADone \<lparr>ka_SessionID = randSessionID (\<lambda>_. 7), ka_Answer = ''answer''\<rparr> KOK)"
proof -
  obtain s where s: "kind_reachable 64 s" "kn_hs s 0 = Some (CWaiting 0)" "kr_offers (kn_rv s) = [0]"
    "kn_heap s 0 = Some \<lparr>ks_id = randSessionID (\<lambda>_. 7), ks_offer = ''offer'', ks_answerCh = []\<rparr>"
    "kr_pending (kn_rv s) (randSessionID (\<lambda>_. 7)) = Some 0"
    using waiting_client_reachable by blast
  let ?hs = "kn_hs s" and ?q = "\<lparr>ka_SessionID = randSessionID (\<lambda>_. 7), ka_Answer = ''answer''\<rparr>"
  obtain g' where "?hs g' = None" using fresh_handler [OF reachable_finite [OF s(1)]] by blast
  from answer_steps [OF s(2,4) _ _ this, of "''answer''"] s(5)
  have "kind_reachable 64 (s\<lparr>kn_rv := (kn_rv s)\<lparr>kr_pending := (kr_pending (kn_rv s))(randSessionID (\<lambda>_. 7) := None)\<rparr>,
        kn_hs := ?hs(g' \<mapsto> ADone ?q KOK, 0 \<mapsto> CDone 0 (KAnswer ''answer''))\<rparr>)" (is "kind_reachable 64 ?s")
    by (intro reachable_steps [OF _ s(1)]) simp
  moreover have fin: "kn_hs ?s 0 = Some (CDone 0 (KAnswer ''answer''))" by simp
  moreover obtain sess g'' where sess: "kn_heap ?s 0 = Some sess"
      and "kn_hs ?s g'' = Some (ADone \<lparr>ka_SessionID = ks_id sess, ka_Answer = ''answer''\<rparr> KOK)"
    using kind_rendezvous_safe [OF \<open>kind_reachable 64 ?s\<close>] fin by blast
  moreover have "ks_id sess = randSessionID (\<lambda>_. 7)" using sess s(4) by auto
  ultimately show ?thesis by metis
qed

end
