(* ===== verification/Broker.thy ===== *)
theory Broker
  imports Directory Replay Broker_Kind
begin

text \<open>
  The broker, \<^verbatim>\<open>src/broker/main.go\<close>: session tokens, relay selection, the HTTP handlers and the
  registration with the directory. Time is in nanoseconds, clock readings and random bytes are arguments.
  \<^verbatim>\<open>sort.Slice\<close> is not stable and leaves the order of equal elements open, so the sorted list is
  the argument \<open>sortSlice\<close>, of which only the documented contract \<open>sorts_by\<close> is assumed.
\<close>

section \<open>Token store\<close>

record tokenEntry =
  te_relay :: RelayDescriptor
  te_expiresAt :: int

record tokenStore =
  ts_tokens :: "string \<rightharpoonup> tokenEntry"

definition newTokenStore :: tokenStore where
  "newTokenStore = \<lparr>ts_tokens = Map.empty\<rparr>"

definition issue_token :: "(nat \<Rightarrow> byte) \<Rightarrow> string" where
  "issue_token rnd = hex_encode (map rnd [0..<32])"

definition issue :: "int \<Rightarrow> (nat \<Rightarrow> byte) \<Rightarrow> RelayDescriptor \<Rightarrow> tokenStore \<Rightarrow> (string \<times> int) \<times> tokenStore" where
  "issue now rnd relay ts =
     (let token = issue_token rnd; exp = now + TokenTTL in
      ((token, exp div 1000000000),
       ts\<lparr>ts_tokens := (ts_tokens ts)(token \<mapsto> \<lparr>te_relay = relay, te_expiresAt = exp\<rparr>)\<rparr>))"

definition validate :: "int \<Rightarrow> string \<Rightarrow> tokenStore \<Rightarrow> RelayDescriptor option \<times> tokenStore" where
  "validate now token ts =
     (case ts_tokens ts token of
        None \<Rightarrow> (None, ts\<lparr>ts_tokens := (ts_tokens ts)(token := None)\<rparr>)
      | Some e \<Rightarrow>
          if now > te_expiresAt e then (None, ts\<lparr>ts_tokens := (ts_tokens ts)(token := None)\<rparr>)
          else (Some (te_relay e), ts))"

definition token_gc :: "int \<Rightarrow> tokenStore \<Rightarrow> tokenStore" where
  \<comment> \<open>one tick of \<^verbatim>\<open>gc\<close>\<close>
  "token_gc now ts =
     ts\<lparr>ts_tokens := (\<lambda>k. case ts_tokens ts k of None \<Rightarrow> None
                          | Some v \<Rightarrow> if now > te_expiresAt v then None else Some v)\<rparr>"

section \<open>Relay pool\<close>

type_synonym scored = "RelayDescriptor \<times> float64"

definition pool_update :: "RelayDescriptor list \<Rightarrow> RelayDescriptor list \<Rightarrow> RelayDescriptor list" where
  "pool_update relays old = relays"

definition relay_matches :: "AssignRequest \<Rightarrow> RelayDescriptor \<Rightarrow> bool" where
  "relay_matches req r \<longleftrightarrow> \<not> rd_Role r \<noteq> aq_Role req \<and> \<not> (aq_Mode req \<noteq> '''' \<and> rd_OperMode r \<noteq> aq_Mode req)"

definition relay_score :: "AssignRequest \<Rightarrow> byte \<Rightarrow> RelayDescriptor \<Rightarrow> float64" where
  "relay_score req jb r =
     (let s0 = (0 :: float64);
          s1 = (if aq_Country req \<noteq> '''' \<and> rd_Country r = aq_Country req then fadd s0 3 else s0);
          s2 = (if aq_Region req \<noteq> '''' \<and> rd_Region r = aq_Region req then fadd s1 2 else s1);
          s3 = fadd s2 (min (fmul (float_of_int (rd_Bandwidth r)) (fl (1 / 100))) 10)
      in fadd s3 (fdiv (float_of_int (uint jb)) 2560))"

fun pick_candidates :: "AssignRequest \<Rightarrow> (nat \<Rightarrow> byte) \<Rightarrow> RelayDescriptor list \<Rightarrow> scored list" where
  \<comment> \<open>the loop of \<^verbatim>\<open>pick\<close>; a random byte is drawn for each candidate only\<close>
  "pick_candidates req rnd [] = []"
| "pick_candidates req rnd (r # rs) =
     (if relay_matches req r then (r, relay_score req (rnd 0) r) # pick_candidates req (\<lambda>i. rnd (Suc i)) rs
      else pick_candidates req rnd rs)"

definition pick ::
  "(scored list \<Rightarrow> scored list) \<Rightarrow> (nat \<Rightarrow> byte) \<Rightarrow> AssignRequest \<Rightarrow> RelayDescriptor list \<Rightarrow> RelayDescriptor option" where
  "pick sortSlice rnd req relays =
     (let candidates = pick_candidates req rnd relays in
      if length candidates = 0 then None else Some (fst (sortSlice candidates ! 0)))"

definition sorts_by :: "('a \<Rightarrow> 'a \<Rightarrow> bool) \<Rightarrow> ('a list \<Rightarrow> 'a list) \<Rightarrow> bool" where
  \<comment> \<open>the contract of \<^verbatim>\<open>sort.Slice\<close> with a less function: a permutation without inversions\<close>
  "sorts_by lt srt \<longleftrightarrow> (\<forall>xs. mset (srt xs) = mset xs \<and> sorted_wrt (\<lambda>x y. \<not> lt y x) (srt xs))"

definition higher :: "scored \<Rightarrow> scored \<Rightarrow> bool" where
  "higher a b \<longleftrightarrow> snd a > snd b"

section \<open>Broker server\<close>

record brokerServer =
  bk_cfg :: BrokerConfig
  bk_pubKey :: bytes
  bk_pool :: "RelayDescriptor list"
  bk_tokens :: tokenStore
  bk_kind :: kindRendezvous

definition newBrokerServer ::
  "bytes \<times> bytes \<Rightarrow> bool \<Rightarrow> BrokerConfig \<Rightarrow> filesystem \<Rightarrow> brokerServer option \<times> filesystem" where
  "newBrokerServer gen wfail cfg fs =
     (case LoadOrCreateEd25519 gen wfail (bc_KeyFile cfg) fs of
        (Inl e, fs') \<Rightarrow> (None, fs')
      | (Inr (pub, priv), fs') \<Rightarrow>
          (Some \<lparr>bk_cfg = cfg, bk_pubKey = pub, bk_pool = [], bk_tokens = newTokenStore,
             bk_kind = newKindRendezvous 64\<rparr>, fs'))"

definition pollConsensus ::
  "(string \<Rightarrow> string \<Rightarrow> consensus_error + SignedConsensus) \<Rightarrow> brokerServer \<Rightarrow> brokerServer" where
  \<comment> \<open>one call of \<^verbatim>\<open>fetch\<close>; the argument is \<^verbatim>\<open>FetchVerifiedConsensus\<close> in its environment\<close>
  "pollConsensus fetch b =
     (case fetch (bc_DirURL (bk_cfg b)) (bc_DirTLSCA (bk_cfg b)) of
        Inl e \<Rightarrow> b
      | Inr consensus \<Rightarrow> b\<lparr>bk_pool := pool_update (sc_Relays consensus) (bk_pool b)\<rparr>)"

definition handleAssign ::
  "(scored list \<Rightarrow> scored list) \<Rightarrow> (nat \<Rightarrow> byte) \<Rightarrow> (nat \<Rightarrow> byte) \<Rightarrow> int \<Rightarrow> AssignRequest option \<Rightarrow> brokerServer \<Rightarrow>
   (http_resp + AssignResponse) \<times> brokerServer" where
  "handleAssign sortSlice jitter rnd now body b =
     (case body of
        None \<Rightarrow> (Inl (400, ''bad request''), b)
      | Some req \<Rightarrow>
          if aq_Role req = '''' then (Inl (400, ''role is required''), b)
          else (case pick sortSlice jitter req (bk_pool b) of
                  None \<Rightarrow> (Inl (503, ''no relay available for this request''), b)
                | Some relay \<Rightarrow>
                    (case issue now rnd relay (bk_tokens b) of
                       ((token, expiresAt), ts) \<Rightarrow>
                         (Inr \<lparr>ar_Relay = relay, ar_Token = token, ar_ExpiresAt = expiresAt\<rparr>,
                          b\<lparr>bk_tokens := ts\<rparr>))))"

definition handleValidate ::
  "int \<Rightarrow> string option \<Rightarrow> brokerServer \<Rightarrow> (http_resp + string) \<times> brokerServer" where
  \<comment> \<open>the success value is \<^verbatim>\<open>relay_id\<close>\<close>
  "handleValidate now body b =
     (case body of
        None \<Rightarrow> (Inl (400, ''bad request''), b)
      | Some token \<Rightarrow>
          (case validate now token (bk_tokens b) of
             (None, ts) \<Rightarrow> (Inl (401, ''invalid or expired token''), b\<lparr>bk_tokens := ts\<rparr>)
           | (Some relay, ts) \<Rightarrow> (Inr (rd_ID relay), b\<lparr>bk_tokens := ts\<rparr>)))"

record broker_health =
  bh_id :: string
  bh_country :: string
  bh_region :: string
  bh_modes :: "string list"
  bh_relays :: nat

definition broker_handleHealth :: "brokerServer \<Rightarrow> broker_health" where
  "broker_handleHealth b =
     \<lparr>bh_id = bc_ID (bk_cfg b), bh_country = bc_Country (bk_cfg b), bh_region = bc_Region (bk_cfg b),
      bh_modes = bc_Modes (bk_cfg b), bh_relays = length (bk_pool b)\<rparr>"

definition broker_descriptor :: "brokerServer \<Rightarrow> BrokerDescriptor" where
  "broker_descriptor b =
     \<lparr>bd_ID = bc_ID (bk_cfg b), bd_IP = bc_IP (bk_cfg b), bd_Port = bc_Port (bk_cfg b),
      bd_PublicKey = hex_encode (bk_pubKey b), bd_Country = bc_Country (bk_cfg b),
      bd_Region = bc_Region (bk_cfg b), bd_Modes = bc_Modes (bk_cfg b), bd_LastSeen = 0\<rparr>"

definition broker_keepAlive :: "string \<Rightarrow> int \<Rightarrow> brokerServer \<Rightarrow> (string \<times> RegisterRequest) option" where
  \<comment> \<open>one call of \<^verbatim>\<open>register\<close>: URL and request; \<open>env_secret\<close> is \<^verbatim>\<open>SBNET_REG_SECRET\<close>\<close>
  "broker_keepAlive env_secret now b =
     (let secret = (if bc_RegSecret (bk_cfg b) = '''' then env_secret else bc_RegSecret (bk_cfg b)) in
      if secret = '''' then None
      else let bd = broker_descriptor b in
        Some (bc_DirURL (bk_cfg b) @ ''/register'',
          \<lparr>rq_Kind = KindBroker, rq_Relay = None, rq_Broker = Some bd, rq_Timestamp = now,
           rq_HMAC = registration_mac secret (bd_ID bd @ bd_IP bd @ bd_PublicKey bd)\<rparr>))"

definition broker_loadConfig :: "BrokerConfig option \<Rightarrow> BrokerConfig \<Rightarrow> (string \<Rightarrow> string) \<Rightarrow> BrokerConfig" where
  \<comment> \<open>\<open>file\<close> is the parsed file if there is one, \<open>zero\<close> the zero value, \<open>env\<close> is \<^verbatim>\<open>os.Getenv\<close>\<close>
  "broker_loadConfig file zero env =
     (let cfg = BrokerConfig_ApplyDefaults (case file of None \<Rightarrow> zero | Some c \<Rightarrow> c)
      in if env ''SBNET_REG_SECRET'' \<noteq> '''' then cfg\<lparr>bc_RegSecret := env ''SBNET_REG_SECRET''\<rparr> else cfg)"

text \<open>The operations that change the pool or the tokens, for runs of the server.\<close>

datatype broker_op =
    BAssign "nat \<Rightarrow> byte" "nat \<Rightarrow> byte" int "AssignRequest option"
  | BValidate int "string option"
  | BPoll int "string \<Rightarrow> string \<Rightarrow> consensus_error + SignedConsensus"
  | BGC int

fun broker_step :: "(scored list \<Rightarrow> scored list) \<Rightarrow> broker_op \<Rightarrow> brokerServer \<Rightarrow> brokerServer" where
  "broker_step srt (BAssign jitter rnd now body) b = snd (handleAssign srt jitter rnd now body b)"
| "broker_step srt (BValidate now body) b = snd (handleValidate now body b)"
| "broker_step srt (BPoll now fetch) b = pollConsensus fetch b"
| "broker_step srt (BGC now) b = b\<lparr>bk_tokens := token_gc now (bk_tokens b)\<rparr>"

fun broker_time :: "broker_op \<Rightarrow> int" where
  "broker_time (BAssign jitter rnd now body) = now"
| "broker_time (BValidate now body) = now"
| "broker_time (BPoll now fetch) = now"
| "broker_time (BGC now) = now"

fun draws_token :: "broker_op \<Rightarrow> string \<Rightarrow> bool" where
  "draws_token (BAssign jitter rnd now body) tok = (issue_token rnd = tok)"
| "draws_token _ _ = False"

section \<open>Relay selection\<close>

lemma pick_candidates_conv:
  "pick_candidates req rnd relays =
     (let cs = filter (relay_matches req) relays in
      map (\<lambda>i. (cs ! i, relay_score req (rnd i) (cs ! i))) [0..<length cs])"
proof (induction relays arbitrary: rnd)
  case (Cons r rs)
  show ?case
    by (simp add: Cons.IH Let_def upt_conv_Cons map_Suc_upt [symmetric] del: upt_Suc)
qed simp

lemma sorted_first_max:
  assumes "sorts_by higher srt" "xs \<noteq> []"
  shows "srt xs ! 0 \<in> set xs \<and> (\<forall>y \<in> set xs. snd y \<le> snd (srt xs ! 0))"
proof -
  have m: "mset (srt xs) = mset xs" and s: "sorted_wrt (\<lambda>x y. \<not> higher y x) (srt xs)"
    using assms(1) by (auto simp: sorts_by_def)
  have st: "set (srt xs) = set xs" by (rule mset_eq_setD [OF m])
  obtain z zs where z: "srt xs = z # zs" using st assms(2) by (cases "srt xs") auto
  have "\<forall>y \<in> set (z # zs). snd y \<le> snd z" using s by (auto simp: z higher_def)
  then show ?thesis using st z by auto
qed

lemma pick_argmax:
  assumes "sorts_by higher srt"
    and cs_def: "cs = filter (relay_matches req) relays"
  shows "(pick srt rnd req relays = None \<longleftrightarrow> cs = []) \<and>
     (cs \<noteq> [] \<longrightarrow> (\<exists>i < length cs. pick srt rnd req relays = Some (cs ! i) \<and>
        (\<forall>j < length cs. relay_score req (rnd j) (cs ! j) \<le> relay_score req (rnd i) (cs ! i))))"
proof -
  let ?f = "\<lambda>i. (cs ! i, relay_score req (rnd i) (cs ! i))"
  have c: "pick_candidates req rnd relays = map ?f [0..<length cs]"
    by (simp add: pick_candidates_conv cs_def Let_def)
  have "\<exists>i < length cs. pick srt rnd req relays = Some (cs ! i) \<and>
      (\<forall>j < length cs. relay_score req (rnd j) (cs ! j) \<le> relay_score req (rnd i) (cs ! i))" if "cs \<noteq> []"
  proof -
    have "map ?f [0..<length cs] \<noteq> []" using that by simp
    from sorted_first_max [OF assms(1) this]
    have mem: "srt (map ?f [0..<length cs]) ! 0 \<in> ?f ` {0..<length cs}"
      and tp: "\<forall>y \<in> set (map ?f [0..<length cs]). snd y \<le> snd (srt (map ?f [0..<length cs]) ! 0)"
      unfolding set_map set_upt by (rule conjunct1, rule conjunct2)
    from mem obtain i where i: "i < length cs" "srt (map ?f [0..<length cs]) ! 0 = ?f i" by auto
    have top: "\<forall>y \<in> set (map ?f [0..<length cs]). snd y \<le> snd (?f i)" using tp unfolding i(2) .
    have "\<forall>j < length cs. relay_score req (rnd j) (cs ! j) \<le> relay_score req (rnd i) (cs ! i)" using top by auto
    moreover have "pick srt rnd req relays = Some (cs ! i)" using i that by (simp add: pick_def c Let_def)
    ultimately show ?thesis using i(1) by blast
  qed
  moreover have "pick srt rnd req relays = None \<longleftrightarrow> cs = []" by (simp add: pick_def c Let_def)
  ultimately show ?thesis by blast
qed

lemma pick_member:
  assumes "sorts_by higher srt" "pick srt rnd req relays = Some r"
  shows "r \<in> set (filter (relay_matches req) relays)"
  using pick_argmax [OF assms(1) refl, of rnd req relays] assms(2) by (metis nth_mem option.distinct(1) option.inject)

text \<open>
  C17: pick implements its specification for every correct sort: it finds no relay exactly when none
  has the requested role and, if one is requested, the mode; otherwise it returns a matching relay
  of the pool whose score, jitter included, is at least the score of every other matching relay.
\<close>

theorem pick_refines_argmax:
  assumes "sorts_by higher srt"
    and "cs = filter (relay_matches req) relays"
  shows "(pick srt rnd req relays = None \<longleftrightarrow> cs = []) \<and>
     (cs \<noteq> [] \<longrightarrow> (\<exists>i < length cs. pick srt rnd req relays = Some (cs ! i) \<and>
        (\<forall>j < length cs. relay_score req (rnd j) (cs ! j) \<le> relay_score req (rnd i) (cs ! i))))"
  by (rule pick_argmax [OF assms])

definition sample_sort :: "scored list \<Rightarrow> scored list" where
  "sample_sort = sort_key (\<lambda>x. - snd x)"

lemma sample_sort_ok: "sorts_by higher sample_sort"
proof -
  have "sorted_wrt (\<lambda>x y. \<not> higher y x) (sort_key (\<lambda>x. - snd x) xs)" for xs :: "scored list"
    using sorted_sort_key [of "\<lambda>x. - snd x" xs] by (simp add: sorted_map higher_def not_less)
  then show ?thesis by (simp add: sorts_by_def sample_sort_def)
qed

definition sample_assign :: AssignRequest where
  "sample_assign = \<lparr>aq_Role = ''entry'', aq_Country = ''DE'', aq_Region = '''', aq_Mode = ''''\<rparr>"

theorem pick_refines_argmax_witness:
  "sorts_by higher sample_sort \<and> pick sample_sort (\<lambda>_. 0) sample_assign [sample_relay\<lparr>rd_Role := ''entry''\<rparr>, sample_relay\<lparr>rd_Role := ''exit''\<rparr>] =
     Some (sample_relay\<lparr>rd_Role := ''entry''\<rparr>)"
  using pick_refines_argmax [OF sample_sort_ok refl, of "\<lambda>_. 0" sample_assign
      "[sample_relay\<lparr>rd_Role := ''entry''\<rparr>, sample_relay\<lparr>rd_Role := ''exit''\<rparr>]"] sample_sort_ok
  by (simp add: relay_matches_def sample_assign_def)

section \<open>Life of a token\<close>

lemma handleAssign_Inr:
  "handleAssign srt jitter rnd now body b = (Inr resp, b') \<longleftrightarrow>
     (\<exists>req relay. body = Some req \<and> aq_Role req \<noteq> '''' \<and> pick srt jitter req (bk_pool b) = Some relay \<and>
        resp = \<lparr>ar_Relay = relay, ar_Token = issue_token rnd, ar_ExpiresAt = (now + TokenTTL) div 1000000000\<rparr> \<and>
        b' = b\<lparr>bk_tokens := (bk_tokens b)\<lparr>ts_tokens := (ts_tokens (bk_tokens b))(issue_token rnd \<mapsto>
          \<lparr>te_relay = relay, te_expiresAt = now + TokenTTL\<rparr>)\<rparr>\<rparr>)"
  by (auto simp: handleAssign_def issue_def Let_def split: option.splits if_splits)

lemma assign_tokens:
  "issue_token rnd \<noteq> tok \<Longrightarrow>
   ts_tokens (bk_tokens (snd (handleAssign srt jitter rnd now body b))) tok = ts_tokens (bk_tokens b) tok"
  by (auto simp: handleAssign_def issue_def Let_def split: option.splits)

lemma validate_tokens:
  "ts_tokens (bk_tokens (snd (handleValidate now body b))) tok =
     (case ts_tokens (bk_tokens b) tok of None \<Rightarrow> None
      | Some e \<Rightarrow> if body = Some tok \<and> now > te_expiresAt e then None else Some e)"
  by (auto simp: handleValidate_def validate_def split: option.splits)

lemma broker_step_tokens:
  assumes "\<not> draws_token op tok" "ts_tokens (bk_tokens b) tok = Some e"
  shows "ts_tokens (bk_tokens (broker_step srt op b)) tok = Some e \<or>
     (ts_tokens (bk_tokens (broker_step srt op b)) tok = None \<and> broker_time op > te_expiresAt e)"
proof (cases op)
  case (BAssign jitter rnd now body)
  then show ?thesis using assms assign_tokens by simp
next
  case (BValidate now body)
  then show ?thesis using assms by (simp add: validate_tokens)
next
  case (BPoll now fetch)
  then show ?thesis using assms by (simp add: pollConsensus_def split: sum.splits)
next
  case (BGC now)
  then show ?thesis using assms by (simp add: token_gc_def)
qed

lemma broker_step_no_token:
  assumes "\<not> draws_token op tok" "ts_tokens (bk_tokens b) tok = None"
  shows "ts_tokens (bk_tokens (broker_step srt op b)) tok = None"
  using assms assign_tokens
  by (cases op) (simp_all add: validate_tokens token_gc_def pollConsensus_def split: sum.splits)

definition token_stamp :: "brokerServer \<Rightarrow> string \<times> RelayDescriptor \<Rightarrow> int option" where
  \<comment> \<open>when the token was issued for that relay\<close>
  "token_stamp b k =
     (case ts_tokens (bk_tokens b) (fst k) of None \<Rightarrow> None
      | Some e \<Rightarrow> if te_relay e = snd k then Some (te_expiresAt e - TokenTTL) else None)"

interpretation tok: stamped_store token_stamp "broker_step srt" broker_time "\<lambda>op k. draws_token op (fst k)" "\<lambda>b. TokenTTL"
  for srt
proof unfold_locales
  fix b k t op
  assume t: "token_stamp b k = Some t" and d: "\<not> draws_token op (fst k)"
    and time: "t \<le> broker_time op" "broker_time op \<le> t + TokenTTL"
  obtain e where e: "ts_tokens (bk_tokens b) (fst k) = Some e" "te_relay e = snd k" "te_expiresAt e = t + TokenTTL"
    using t by (auto simp: token_stamp_def split: option.splits if_splits)
  have "ts_tokens (bk_tokens (broker_step srt op b)) (fst k) = Some e"
    using broker_step_tokens [OF d e(1), of srt] e(3) time(2) by auto
  then show "\<exists>t'. token_stamp (broker_step srt op b) k = Some t' \<and> t \<le> t' \<and> t' \<le> broker_time op"
    using e time(1) by (auto simp: token_stamp_def)
qed simp

lemma token_gone:
  assumes "\<forall>op \<in> set ops. \<not> draws_token op tok"
    and "case ts_tokens (bk_tokens b) tok of None \<Rightarrow> True | Some e \<Rightarrow> te_expiresAt e = x"
  shows "case ts_tokens (bk_tokens (fold (broker_step srt) ops b)) tok of None \<Rightarrow> True | Some e \<Rightarrow> te_expiresAt e = x"
  using assms
proof (induction ops arbitrary: b)
  case (Cons op ops)
  have "case ts_tokens (bk_tokens (broker_step srt op b)) tok of None \<Rightarrow> True | Some e \<Rightarrow> te_expiresAt e = x"
    using broker_step_tokens [of op tok b _ srt] broker_step_no_token [of op tok b srt] Cons.prems
    by (auto split: option.splits)
  then show ?case using Cons.IH Cons.prems(1) by simp
qed simp

text \<open>
  C16: An assignment names a relay of the pool that fits the request, and its token lives exactly as long as
  TokenTTL: whatever other requests, polls and purges the broker handles in between (as long as none
  draws the same 32 random bytes), validating it up to five minutes after the assignment
  returns the id of the assigned relay, and validating it later is refused with status 401.
\<close>

theorem assigned_token_lifetime:
  assumes "sorts_by higher srt"
    and assign: "handleAssign srt jitter rnd now (Some req) b = (Inr resp, b')"
    and ops: "\<forall>op \<in> set ops. now \<le> broker_time op \<and> broker_time op \<le> later \<and> \<not> draws_token op (ar_Token resp)"
    and "sorted (map broker_time ops)"
  shows "ar_Relay resp \<in> set (bk_pool b) \<and> relay_matches req (ar_Relay resp) \<and>
     fst (handleValidate later (Some (ar_Token resp)) (fold (broker_step srt) ops b')) =
       (if later \<le> now + TokenTTL then Inr (rd_ID (ar_Relay resp)) else Inl (401, ''invalid or expired token''))"
proof -
  obtain relay where r: "pick srt jitter req (bk_pool b) = Some relay" "ar_Relay resp = relay" "ar_Token resp = issue_token rnd"
    and b': "ts_tokens (bk_tokens b') (issue_token rnd) = Some \<lparr>te_relay = relay, te_expiresAt = now + TokenTTL\<rparr>"
    using assign by (auto simp: handleAssign_Inr)
  let ?tok = "issue_token rnd" and ?b = "fold (broker_step srt) ops b'"
  have "relay \<in> set (filter (relay_matches req) (bk_pool b))"
    using pick_member [OF assms(1) r(1)] .
  moreover have "fst (handleValidate later (Some ?tok) ?b) = Inr (rd_ID relay)" if le: "later \<le> now + TokenTTL"
  proof -
    have "token_stamp b' (?tok, relay) = Some now" by (simp add: token_stamp_def b')
    then obtain t' where "token_stamp ?b (?tok, relay) = Some t'" "now \<le> t'"
      using tok.run_keeps [of b' "(?tok, relay)" now ops srt] ops r(3) le assms(4) by fastforce
    then show ?thesis using le
      by (auto simp: token_stamp_def handleValidate_def validate_def split: option.splits if_splits)
  qed
  moreover have "fst (handleValidate later (Some ?tok) ?b) = Inl (401, ''invalid or expired token'')" if "\<not> later \<le> now + TokenTTL"
  proof -
    have "\<forall>op \<in> set ops. \<not> draws_token op ?tok" using ops r(3) by auto
    then have "case ts_tokens (bk_tokens ?b) ?tok of None \<Rightarrow> True | Some e \<Rightarrow> te_expiresAt e = now + TokenTTL"
      by (rule token_gone) (simp add: b')
    then show ?thesis using that by (auto simp: handleValidate_def validate_def split: option.splits)
  qed
  ultimately show ?thesis using r by simp
qed

definition sample_broker_cfg :: BrokerConfig where
  "sample_broker_cfg = BrokerConfig_ApplyDefaults
     \<lparr>bc_ID = ''b1'', bc_IP = ''10.0.0.9'', bc_Port = 0, bc_Country = ''DE'', bc_Region = ''eu'', bc_Modes = [],
      bc_DirURL = ''https://d'', bc_DirTLSCA = '''', bc_RegSecret = ''s'', bc_KeyFile = '''', bc_TLSCert = '''',
      bc_TLSKey = '''', bc_LogLevel = '''', bc_STUNServers = []\<rparr>"

definition sample_broker :: brokerServer where
  "sample_broker = \<lparr>bk_cfg = sample_broker_cfg, bk_pubKey = replicate 32 5,
     bk_pool = [sample_relay\<lparr>rd_Role := ''entry''\<rparr>], bk_tokens = newTokenStore, bk_kind = newKindRendezvous 64\<rparr>"

lemma sample_assigned:
  "\<exists>resp b'. handleAssign sample_sort (\<lambda>_. 0) (\<lambda>_. 1) 0 (Some sample_assign) sample_broker = (Inr resp, b') \<and>
     ar_Token resp = issue_token (\<lambda>_. 1) \<and> rd_ID (ar_Relay resp) = rd_ID sample_relay"
proof -
  let ?r = "sample_relay\<lparr>rd_Role := ''entry''\<rparr>"
  have m: "relay_matches sample_assign ?r" by (simp add: relay_matches_def sample_assign_def)
  have "pick sample_sort (\<lambda>_. 0) sample_assign [?r] \<noteq> None"
    by (simp add: pick_def m)
  then obtain x where x: "pick sample_sort (\<lambda>_. 0) sample_assign [?r] = Some x" by blast
  then have "x = ?r" using pick_member [OF sample_sort_ok x] by (simp split: if_splits)
  then show ?thesis using x
    by (simp add: handleAssign_def sample_broker_def issue_def Let_def) (simp add: sample_assign_def)
qed

theorem assigned_token_lifetime_witness:
  "\<exists>resp b'. handleAssign sample_sort (\<lambda>_. 0) (\<lambda>_. 1) 0 (Some sample_assign) sample_broker = (Inr resp, b') \<and>
     fst (handleValidate 1000 (Some (ar_Token resp)) (fold (broker_step sample_sort) [BGC 500, BValidate 600 (Some ''x'')] b')) =
       Inr (rd_ID sample_relay) \<and>
     fst (handleValidate (TokenTTL + 1) (Some (ar_Token resp)) (fold (broker_step sample_sort) [BGC 500] b')) =
       Inl (401, ''invalid or expired token'')"
proof -
  obtain resp b' where a: "handleAssign sample_sort (\<lambda>_. 0) (\<lambda>_. 1) 0 (Some sample_assign) sample_broker = (Inr resp, b')"
    and id: "rd_ID (ar_Relay resp) = rd_ID sample_relay"
    using sample_assigned by blast
  have 1: "\<forall>op \<in> set [BGC 500, BValidate 600 (Some ''x'')]. 0 \<le> broker_time op \<and> broker_time op \<le> 1000 \<and> \<not> draws_token op (ar_Token resp)"
    by simp
  have 2: "\<forall>op \<in> set [BGC 500]. 0 \<le> broker_time op \<and> broker_time op \<le> TokenTTL + 1 \<and> \<not> draws_token op (ar_Token resp)"
    by (simp add: TokenTTL_def)
  have s: "sorted (map broker_time [BGC 500, BValidate 600 (Some ''x'')])" "sorted (map broker_time [BGC 500])" by simp_all
  show ?thesis
    using assigned_token_lifetime [OF sample_sort_ok a 1 s(1)] assigned_token_lifetime [OF sample_sort_ok a 2 s(2)] a id
    by (intro exI [of _ resp] exI [of _ b']) (simp add: TokenTTL_def)
qed

section \<open>Registration\<close>

text \<open>
  A directory with the same secret accepts what the broker's keepAlive sends: within the 30 second window
  the answer is 200, the descriptor is stored under the broker's id with the directory's own
  time, and it is gossiped to every peer directory.
\<close>

theorem broker_registration_accepted:
  assumes "broker_keepAlive env_secret now b = Some (url, req)"
    and "dc_RegSecret (ds_cfg d) = (if bc_RegSecret (bk_cfg b) = '''' then env_secret else bc_RegSecret (bk_cfg b))"
    and "- 30 \<le> int64 (n1 - now)" "int64 (n1 - now) \<le> 30"
    and "\<forall>old. ds_brokers d (bc_ID (bk_cfg b)) = Some old \<longrightarrow> bd_LastSeen old < n2"
  shows "\<exists>out. handleRegister n1 n2 n3 (Some req) d =
     (((200, ''''), out),
      d\<lparr>ds_brokers := (ds_brokers d)(bc_ID (bk_cfg b) \<mapsto> (broker_descriptor b)\<lparr>bd_LastSeen := n2\<rparr>)\<rparr>) \<and>
     map fst out = map (\<lambda>p. p @ ''/sync'') (dc_PeerDirs (ds_cfg d))"
proof -
  let ?bd = "broker_descriptor b"
  have bd: "bd_ID ?bd = bc_ID (bk_cfg b)" by (simp add: broker_descriptor_def)
  have req: "rq_Kind req = KindBroker" "rq_Broker req = Some ?bd" "rq_Timestamp req = now"
    "rq_HMAC req = registration_mac (dc_RegSecret (ds_cfg d)) (bd_ID ?bd @ bd_IP ?bd @ bd_PublicKey ?bd)"
    using assms(1,2) by (auto simp: broker_keepAlive_def Let_def split: if_splits)
  have v: "verifyHMAC n1 d req 30"
    using req assms(3,4) by (simp add: verifyHMAC_iff hmacMessage_def)
  have "put_newer bd_ID bd_LastSeen (?bd\<lparr>bd_LastSeen := n2\<rparr>) (ds_brokers d) =
      (True, (ds_brokers d)(bc_ID (bk_cfg b) \<mapsto> ?bd\<lparr>bd_LastSeen := n2\<rparr>))"
    using assms(5) bd by (simp add: put_newer_def split: option.split)
  then have "storeRegistration n2 req True d =
      ((req\<lparr>rq_Broker := Some (?bd\<lparr>bd_LastSeen := n2\<rparr>)\<rparr>, True, '''', 0),
       d\<lparr>ds_brokers := (ds_brokers d)(bc_ID (bk_cfg b) \<mapsto> ?bd\<lparr>bd_LastSeen := n2\<rparr>)\<rparr>)"
    using req by (simp add: storeRegistration_def Let_def)
  then show ?thesis using v req by (auto simp: handleRegister_def gossip_def hmacMessage_def Let_def comp_def)
qed

theorem broker_registration_accepted_witness:
  "\<exists>url req out. broker_keepAlive '''' 1000 (sample_broker :: brokerServer) = Some (url, req) \<and>
     handleRegister 1010 1010 1010 (Some req) sample_dir =
       (((200, ''''), out), sample_dir\<lparr>ds_brokers := [''b1'' \<mapsto> (broker_descriptor sample_broker)\<lparr>bd_LastSeen := 1010\<rparr>]\<rparr>)"
proof -
  obtain url req where k: "broker_keepAlive '''' 1000 sample_broker = Some (url, req)"
    by (simp add: broker_keepAlive_def sample_broker_def sample_broker_cfg_def BrokerConfig_ApplyDefaults_def Let_def)
  have c: "bc_RegSecret (bk_cfg sample_broker) = ''s''" "bc_ID (bk_cfg sample_broker) = ''b1''"
    by (simp_all add: sample_broker_def sample_broker_cfg_def BrokerConfig_ApplyDefaults_def)
  show ?thesis
    using broker_registration_accepted [OF k, of sample_dir 1010 1010 1010] k c
    by (auto simp: sample_dir_def sample_dir_cfg_def int64_def)
qed

end
