(* ===== verification/WebRTC.thy ===== *)
theory WebRTC
  imports Cell Config
begin

text \<open>
  The WebRTC transport of kind mode, \<^verbatim>\<open>src/webrtcx/conn.go\<close>. A datachannel delivers messages; \<open>Conn\<close>
  turns them into the byte stream the cell reader expects, which is stated as an interpretation of the
  locale \<open>byte_reader\<close>. The pion library is outside: a datachannel is the list of the messages its
  \<^verbatim>\<open>Read\<close> calls return before it reports the end of the stream, and the outcome of every
  signalling call is an argument.
\<close>

section \<open>Stream over messages\<close>

record Conn =
  cn_dc :: "bytes list"
  cn_rbuf :: bytes

definition newConn :: "bytes list \<Rightarrow> Conn" where
  "newConn dc = \<lparr>cn_dc = dc, cn_rbuf = []\<rparr>"

definition Conn_Read :: "nat \<Rightarrow> Conn \<Rightarrow> bytes option \<times> Conn" where
  \<comment> \<open>\<open>n\<close> is \<^verbatim>\<open>len(p)\<close>; \<open>None\<close> is the error of the datachannel\<close>
  "Conn_Read n c =
     (if length (cn_rbuf c) = 0 then
        (case cn_dc c of
           [] \<Rightarrow> (None, c)
         | m # ms \<Rightarrow> (Some (take n m), \<lparr>cn_dc = ms, cn_rbuf = drop n m\<rparr>))
      else (Some (take n (cn_rbuf c)), c\<lparr>cn_rbuf := drop n (cn_rbuf c)\<rparr>))"

lemma Conn_Read_less:
  assumes "Conn_Read n c = (Some bs, c')" "0 < n"
  shows "length (cn_dc c') < length (cn_dc c) \<or> cn_dc c' = cn_dc c \<and> length (cn_rbuf c') < length (cn_rbuf c)"
  using assms by (auto simp: Conn_Read_def split: if_splits list.splits)

text \<open>\<^verbatim>\<open>io.ReadFull\<close> over this \<^verbatim>\<open>Read\<close>; a read may return fewer bytes, or none for an empty message.\<close>

function conn_fill :: "nat \<Rightarrow> bytes \<Rightarrow> Conn \<Rightarrow> (cell_error + bytes) \<times> Conn" where
  "conn_fill n acc c =
     (if n \<le> length acc then (Inr acc, c)
      else (case Conn_Read (n - length acc) c of
              (None, c') \<Rightarrow> (Inl (if acc = [] then ReadEOF else ReadUnexpectedEOF), c')
            | (Some bs, c') \<Rightarrow> conn_fill n (acc @ bs) c'))"
  by pat_completeness auto
termination
  by (relation "inv_image (less_than <*lex*> less_than) (\<lambda>(n, acc, c). (length (cn_dc c), length (cn_rbuf c)))")
     (auto dest!: Conn_Read_less [OF sym])

declare conn_fill.simps [simp del]

definition conn_readFull :: "Conn read_full" where
  "conn_readFull n c = conn_fill n [] c"

definition conn_view :: "Conn \<Rightarrow> bytes" where
  \<comment> \<open>all bytes still to come\<close>
  "conn_view c = cn_rbuf c @ concat (cn_dc c)"

section \<open>The stream is the concatenation of the messages\<close>

lemma Conn_Read_view:
  "Conn_Read n c = (Some bs, c') \<Longrightarrow> conn_view c = bs @ conn_view c' \<and> length bs \<le> n"
  by (auto simp: Conn_Read_def conn_view_def split: if_splits list.splits)

lemma Conn_Read_end: "Conn_Read n c = (None, c') \<Longrightarrow> conn_view c = [] \<and> c' = c"
  by (auto simp: Conn_Read_def conn_view_def split: if_splits list.splits)

lemma conn_fill_spec:
  "length acc \<le> n \<Longrightarrow> \<exists>c'. conn_fill n acc c = (fst (tcp_readFull n (acc @ conn_view c)), c') \<and>
     conn_view c' = snd (tcp_readFull n (acc @ conn_view c))"
proof (induction n acc c rule: conn_fill.induct)
  case (1 n acc c)
  show ?case
  proof (cases "n \<le> length acc")
    case True
    with 1(2) show ?thesis by (subst conn_fill.simps) (simp add: tcp_readFull_def)
  next
    case False
    show ?thesis
    proof (cases "Conn_Read (n - length acc) c")
      case (Pair r c')
      show ?thesis
      proof (cases r)
        case None
        then have "conn_view c = []" "c' = c" using Pair Conn_Read_end by blast+
        with None Pair False show ?thesis by (subst conn_fill.simps) (simp add: tcp_readFull_def)
      next
        case (Some bs)
        then have v: "conn_view c = bs @ conn_view c'" "length (acc @ bs) \<le> n"
          using Conn_Read_view [of "n - length acc" c bs c'] Pair False by auto
        have "conn_fill n acc c = conn_fill n (acc @ bs) c'"
          using False Pair Some by (subst conn_fill.simps) simp
        with 1(1) [OF False Pair [symmetric] Some v(2)] v(1) show ?thesis by simp
      qed
    qed
  qed
qed

lemma conn_readFull_spec:
  "\<exists>c'. conn_readFull n c = (fst (tcp_readFull n (conn_view c)), c') \<and> conn_view c' = snd (tcp_readFull n (conn_view c))"
  using conn_fill_spec [of "[]" n c] by (simp add: conn_readFull_def)

interpretation dc: byte_reader conn_readFull conn_view
proof unfold_locales
  fix n c
  show "n \<le> length (conn_view c) \<Longrightarrow>
      \<exists>c'. conn_readFull n c = (Inr (take n (conn_view c)), c') \<and> conn_view c' = drop n (conn_view c)"
    using conn_readFull_spec [of n c] by (simp add: tcp_readFull_def)
  show "length (conn_view c) < n \<Longrightarrow> \<exists>e c'. conn_readFull n c = (Inl e, c')"
    using conn_readFull_spec [of n c] by (auto simp: tcp_readFull_def)
qed

lemma ReadCell_conn_tcp:
  "\<exists>c'. ReadCell conn_readFull c = (fst (ReadCell tcp_readFull (conn_view c)), c') \<and>
     conn_view c' = snd (ReadCell tcp_readFull (conn_view c))"
proof -
  obtain r1 bs1 where t1: "tcp_readFull 2 (conn_view c) = (r1, bs1)" by fastforce
  then obtain c1 where c1: "conn_readFull 2 c = (r1, c1)" "conn_view c1 = bs1" using conn_readFull_spec [of 2 c] by auto
  show ?thesis
  proof (cases r1)
    case (Inl e)
    with t1 c1 show ?thesis by (simp add: ReadCell_def)
  next
    case (Inr lenBuf)
    let ?n = "unat (get16 lenBuf)"
    obtain r2 bs2 where t2: "tcp_readFull ?n bs1 = (r2, bs2)" by fastforce
    then obtain c2 where c2: "conn_readFull ?n c1 = (r2, c2)" "conn_view c2 = bs2"
      using conn_readFull_spec [of ?n c1] c1(2) by auto
    show ?thesis
      using t1 c1 Inr t2 c2 by (cases r2) (simp_all add: ReadCell_def Let_def)
  qed
qed

text \<open>
  C18: Over a datachannel the cell reader behaves exactly as over TCP: for every way the bytes are cut into
  messages, empty messages and messages longer than a frame included, reading cells returns the same
  cells and the same error as reading the concatenated bytes from a TCP stream.
\<close>

theorem webrtc_stream_equals_tcp:
  "fst (read_cells fuel conn_readFull c) = fst (read_cells fuel tcp_readFull (conn_view c)) \<and>
   fst (snd (read_cells fuel conn_readFull c)) = fst (snd (read_cells fuel tcp_readFull (conn_view c)))"
proof (induction fuel arbitrary: c)
  case (Suc fuel)
  obtain r bs where t: "ReadCell tcp_readFull (conn_view c) = (r, bs)" by fastforce
  then obtain c' where c': "ReadCell conn_readFull c = (r, c')" "conn_view c' = bs" using ReadCell_conn_tcp [of c] by auto
  show ?case
    using Suc [of c'] t c' by (cases r) (auto split: prod.splits)
qed simp

section \<open>Signalling\<close>

definition iceConfig :: "string list \<Rightarrow> string list list" where
  \<comment> \<open>the ICE server entries, each with its URLs\<close>
  "iceConfig stun = (if length stun > 0 then [stun] else [])"

definition FetchSTUN :: "(string \<Rightarrow> string list option option) \<Rightarrow> string \<Rightarrow> string list" where
  \<comment> \<open>\<open>get\<close> is the GET request and the JSON decoder; the outer \<open>None\<close> is a transport error\<close>
  "FetchSTUN get brokerURL =
     (case get (brokerURL @ ''/kind/info'') of
        None \<Rightarrow> []
      | Some None \<Rightarrow> []
      | Some (Some stun) \<Rightarrow> stun)"

datatype open_outcome = Opens "bytes list" | DetachFails | NeverOpens

record dial_env =
  de_newPC :: "string list list \<Rightarrow> bool"
  de_createDC :: bool
  de_offer :: "string option"            \<comment> \<open>\<^verbatim>\<open>CreateOffer\<close> or \<^verbatim>\<open>CreateAnswer\<close>\<close>
  de_setLocal :: bool
  de_localSDP :: string
  de_post :: "string \<Rightarrow> string \<Rightarrow> (nat \<times> string option) option"   \<comment> \<open>POST of an SDP: status, decoded answer\<close>
  de_setRemote :: "string \<Rightarrow> bool"
  de_open :: open_outcome

datatype dial_error =
    NewPCFailed | DataChannelFailed | OfferFailed | LocalFailed | PostFailed | HTTPStatus nat | DecodeFailed
  | RemoteFailed | NotOpened

text \<open>The result of \<^verbatim>\<open>ClientDial\<close> and whether it closed the peer connection.\<close>

definition ClientDial :: "dial_env \<Rightarrow> string \<Rightarrow> string list \<Rightarrow> (dial_error + Conn) \<times> bool" where
  "ClientDial env brokerURL stun =
     (if \<not> de_newPC env (iceConfig stun) then (Inl NewPCFailed, False)
      else if \<not> de_createDC env then (Inl DataChannelFailed, True)
      else (case de_offer env of
              None \<Rightarrow> (Inl OfferFailed, True)
            | Some offer \<Rightarrow>
                if \<not> de_setLocal env then (Inl LocalFailed, True)
                else (case de_post env (brokerURL @ ''/kind/connect'') (de_localSDP env) of
                        None \<Rightarrow> (Inl PostFailed, True)
                      | Some (status, ans) \<Rightarrow>
                          if status \<noteq> 200 then (Inl (HTTPStatus status), True)
                          else (case ans of
                                  None \<Rightarrow> (Inl DecodeFailed, True)
                                | Some sdp \<Rightarrow>
                                    if \<not> de_setRemote env sdp then (Inl RemoteFailed, True)
                                    else (case de_open env of
                                            Opens dc \<Rightarrow> (Inr (newConn dc), False)
                                          | _ \<Rightarrow> (Inl NotOpened, True))))))"

text \<open>
  \<^verbatim>\<open>VolunteerAnswer\<close> up to its return: the answer SDP, or an error. What happens afterwards
  is concurrent: the datachannel may open, the timer fires, and \<^verbatim>\<open>serve\<close> receives once from the
  result channel of capacity one.
\<close>

definition VolunteerAnswer :: "dial_env \<Rightarrow> string \<Rightarrow> string list \<Rightarrow> (dial_error + string) \<times> bool" where
  "VolunteerAnswer env offerSDP stun =
     (if \<not> de_newPC env (iceConfig stun) then (Inl NewPCFailed, False)
      else if \<not> de_setRemote env offerSDP then (Inl RemoteFailed, True)
      else (case de_offer env of
              None \<Rightarrow> (Inl OfferFailed, True)
            | Some answer \<Rightarrow>
                if \<not> de_setLocal env then (Inl LocalFailed, True)
                else (Inr (de_localSDP env), False)))"

datatype VolunteerResult = VConn Conn | VErr

record volunteer =
  vo_pcOpen :: bool
  vo_opened :: bool                      \<comment> \<open>the \<^verbatim>\<open>OnOpen\<close> callback has run\<close>
  vo_fired :: bool                       \<comment> \<open>the timer goroutine has run\<close>
  vo_resCh :: "VolunteerResult list"     \<comment> \<open>capacity one\<close>
  vo_got :: "VolunteerResult option"     \<comment> \<open>what \<^verbatim>\<open>serve\<close> received\<close>

definition volunteer_start :: volunteer where
  "volunteer_start = \<lparr>vo_pcOpen = True, vo_opened = False, vo_fired = False, vo_resCh = [], vo_got = None\<rparr>"

inductive volunteer_step :: "volunteer \<Rightarrow> volunteer \<Rightarrow> bool" where
  opens: "\<not> vo_opened v \<Longrightarrow> vo_pcOpen v \<Longrightarrow> vo_resCh v = [] \<Longrightarrow>
     volunteer_step v (v\<lparr>vo_opened := True, vo_resCh := [VConn (newConn dc)]\<rparr>)"
| detach_fails: "\<not> vo_opened v \<Longrightarrow> vo_pcOpen v \<Longrightarrow> vo_resCh v = [] \<Longrightarrow>
     volunteer_step v (v\<lparr>vo_opened := True, vo_resCh := [VErr], vo_pcOpen := False\<rparr>)"
| timer_sends: "\<not> vo_fired v \<Longrightarrow> vo_resCh v = [] \<Longrightarrow>
     volunteer_step v (v\<lparr>vo_fired := True, vo_resCh := [VErr], vo_pcOpen := False\<rparr>)"
| timer_full: "\<not> vo_fired v \<Longrightarrow> vo_resCh v \<noteq> [] \<Longrightarrow> volunteer_step v (v\<lparr>vo_fired := True\<rparr>)"
| receives: "vo_got v = None \<Longrightarrow> vo_resCh v = r # rs \<Longrightarrow>
     volunteer_step v (v\<lparr>vo_got := Some r, vo_resCh := rs\<rparr>)"

definition volunteer_reachable :: "volunteer \<Rightarrow> bool" where
  "volunteer_reachable v \<longleftrightarrow> volunteer_step\<^sup>*\<^sup>* volunteer_start v"

section \<open>Properties of the signalling\<close>

lemma ClientDial_closes:
  "ClientDial env url stun = (Inl e, cl) \<Longrightarrow> cl \<longleftrightarrow> e \<noteq> NewPCFailed"
  by (auto simp: ClientDial_def split: if_splits option.splits prod.splits open_outcome.splits)

definition volunteer_inv :: "volunteer \<Rightarrow> bool" where
  "volunteer_inv v \<longleftrightarrow> length (vo_resCh v) \<le> 1 \<and>
     (\<forall>c. vo_got v = Some (VConn c) \<or> VConn c \<in> set (vo_resCh v) \<longrightarrow> vo_opened v) \<and>
     (\<forall>c. vo_got v = Some (VConn c) \<longrightarrow> (\<forall>c'. VConn c' \<notin> set (vo_resCh v)) \<and> (\<not> vo_fired v \<longrightarrow> vo_resCh v = []))"

lemma volunteer_inv_step: "volunteer_step v w \<Longrightarrow> volunteer_inv v \<Longrightarrow> volunteer_inv w"
  by (induction rule: volunteer_step.induct) (auto simp: volunteer_inv_def)

lemma volunteer_inv_reachable:
  assumes "volunteer_reachable v"
  shows "volunteer_inv v"
  using assms unfolding volunteer_reachable_def
proof (induction rule: rtranclp_induct)
  case base
  show ?case by (simp add: volunteer_inv_def volunteer_start_def)
qed (rule volunteer_inv_step)

lemma taken_before_timer:
  assumes "volunteer_step\<^sup>*\<^sup>* v w" "vo_got v = Some (VConn c)" "\<not> vo_fired v" "vo_resCh v = []" "vo_opened v"
  shows "vo_got w = Some (VConn c) \<and> vo_opened w \<and> (if vo_fired w then \<not> vo_pcOpen w else vo_resCh w = [])"
  using assms(1)
proof (induction rule: rtranclp_induct)
  case base
  show ?case using assms by simp
next
  case (step w w')
  from step(2) step(3) show ?case by cases (auto split: if_splits)
qed

text \<open>
  C38: The open timeout closes live tunnels. If serve has received the connection before the timer of
  VolunteerAnswer fires, then in every continuation the peer connection is closed as soon as the
  timer has fired, because the emptied result channel accepts its timeout error; the
  connection serve is piping dies then, 30 seconds after the answer.
\<close>

theorem volunteer_timeout_closes_tunnel:
  assumes "volunteer_reachable v" "vo_got v = Some (VConn c)" "\<not> vo_fired v" "volunteer_step\<^sup>*\<^sup>* v w" "vo_fired w"
  shows "vo_got w = Some (VConn c) \<and> \<not> vo_pcOpen w"
proof -
  have "vo_resCh v = []" "vo_opened v"
    using volunteer_inv_reachable [OF assms(1)] assms(2,3) by (auto simp: volunteer_inv_def)
  from taken_before_timer [OF assms(4,2,3) this] assms(5) show ?thesis by simp
qed

theorem volunteer_timeout_closes_tunnel_witness:
  "\<exists>v w. volunteer_reachable v \<and> vo_pcOpen v \<and> vo_got v = Some (VConn (newConn [[1]])) \<and> volunteer_step\<^sup>*\<^sup>* v w \<and>
     vo_fired w \<and> \<not> vo_pcOpen w"
proof -
  let ?v1 = "volunteer_start\<lparr>vo_opened := True, vo_resCh := [VConn (newConn [[1]])]\<rparr>"
  let ?v = "?v1\<lparr>vo_got := Some (VConn (newConn [[1]])), vo_resCh := []\<rparr>"
  let ?w = "?v\<lparr>vo_fired := True, vo_resCh := [VErr], vo_pcOpen := False\<rparr>"
  have 1: "volunteer_step volunteer_start ?v1" by (rule volunteer_step.opens) (simp_all add: volunteer_start_def)
  have 2: "volunteer_step ?v1 ?v" by (rule volunteer_step.receives) (simp_all add: volunteer_start_def)
  have 3: "volunteer_step ?v ?w" by (rule volunteer_step.timer_sends) (simp_all add: volunteer_start_def)
  have r: "volunteer_reachable ?v" unfolding volunteer_reachable_def using 1 2 by (meson rtranclp.rtrancl_into_rtrancl rtranclp.rtrancl_refl)
  have "volunteer_step\<^sup>*\<^sup>* ?v ?w" using 3 by blast
  moreover from volunteer_timeout_closes_tunnel [OF r _ _ this, of "newConn [[1]]"]
  have "\<not> vo_pcOpen ?w" by (simp add: volunteer_start_def)
  ultimately show ?thesis using r by (intro exI [of _ ?v] exI [of _ ?w]) (simp add: volunteer_start_def)
qed

end
