(* ===== verification/Kind.thy ===== *)
theory Kind
  imports WebRTC Consensus "HOL-Library.Sublist"
begin

text \<open>
  The volunteer proxy, \<^verbatim>\<open>src/kind/main.go\<close>: it keeps the entry relays of the last verified consensus,
  polls the broker for a client, answers its WebRTC offer, dials an entry relay and copies bytes both ways.
  What a worker does to the outside is a list of events; HTTP calls, the dialer and the outcome of
  the WebRTC handshake are arguments. The byte pipe is a step relation, because its two
  directions run concurrently.
\<close>

section \<open>State and operations\<close>

record kindProxy =
  kx_cfg :: KindConfig
  kx_stun :: "string list"
  kx_entries :: "RelayDescriptor list"

definition newKindProxy :: "(string \<Rightarrow> string list option option) \<Rightarrow> KindConfig \<Rightarrow> kindProxy" where
  \<comment> \<open>the start of \<^verbatim>\<open>main\<close>: the STUN servers of the broker, else the configured ones\<close>
  "newKindProxy get cfg =
     (let stun = FetchSTUN get (kc_BrokerURL cfg) in
      \<lparr>kx_cfg = cfg, kx_stun = (if length stun = 0 then kc_STUNServers cfg else stun), kx_entries = []\<rparr>)"

definition refreshConsensus ::
  "(string \<Rightarrow> string \<Rightarrow> consensus_error + SignedConsensus) \<Rightarrow> kindProxy \<Rightarrow> kindProxy" where
  \<comment> \<open>one call of \<^verbatim>\<open>load\<close>\<close>
  "refreshConsensus fetch k =
     (case fetch (kc_DirURL (kx_cfg k)) (kc_DirTLSCA (kx_cfg k)) of
        Inl e \<Rightarrow> k
      | Inr consensus \<Rightarrow> k\<lparr>kx_entries := filter (\<lambda>r. rd_Role r = ''entry'') (sc_Relays consensus)\<rparr>)"

definition pickEntry :: "uint32 \<Rightarrow> kindProxy \<Rightarrow> RelayDescriptor option" where
  "pickEntry w k =
     (if length (kx_entries k) = 0 then None else Some (kx_entries k ! (unat w mod length (kx_entries k))))"

definition kind_poll ::
  "(string \<Rightarrow> (nat \<times> KindPollResponse option) option) \<Rightarrow> kindProxy \<Rightarrow> unit + KindPollResponse option" where
  \<comment> \<open>\<open>Inl\<close> is an error, \<open>Inr None\<close> the nil result without error\<close>
  "kind_poll post k =
     (case post (kc_BrokerURL (kx_cfg k) @ ''/kind/poll'') of
        None \<Rightarrow> Inl ()
      | Some (status, body) \<Rightarrow>
          if status = 204 then Inr None
          else if status \<noteq> 200 then Inr None
          else (case body of None \<Rightarrow> Inl () | Some pr \<Rightarrow> Inr (Some pr)))"

datatype kind_event = Submitted string KindAnswerRequest | Dialed string | Tunnel Conn string

record serve_env =
  se_rtc :: dial_env
  se_submit :: "string \<Rightarrow> KindAnswerRequest \<Rightarrow> bool"   \<comment> \<open>the POST got a response\<close>
  se_result :: VolunteerResult                        \<comment> \<open>received from the result channel\<close>
  se_entry :: uint32
  se_relay :: "string \<Rightarrow> bool"                        \<comment> \<open>the dial succeeds\<close>

definition serve :: "serve_env \<Rightarrow> KindPollResponse \<Rightarrow> kindProxy \<Rightarrow> kind_event list" where
  "serve env pr k =
     (case fst (VolunteerAnswer (se_rtc env) (kp_Offer pr) (kx_stun k)) of
        Inl e \<Rightarrow> []
      | Inr answer \<Rightarrow>
          let url = kc_BrokerURL (kx_cfg k) @ ''/kind/answer'';
              q = \<lparr>ka_SessionID = kp_SessionID pr, ka_Answer = answer\<rparr>
          in if \<not> se_submit env url q then [Submitted url q]
             else (case se_result env of
                     VErr \<Rightarrow> [Submitted url q]
                   | VConn conn \<Rightarrow>
                       (case pickEntry (se_entry env) k of
                          None \<Rightarrow> [Submitted url q]
                        | Some entry \<Rightarrow>
                            let address = JoinHostPort (rd_IP entry) (dec_int (rd_Port entry)) in
                            if \<not> se_relay env address then [Submitted url q, Dialed address]
                            else [Submitted url q, Dialed address, Tunnel conn address])))"

definition worker_round ::
  "(string \<Rightarrow> (nat \<times> KindPollResponse option) option) \<Rightarrow> serve_env \<Rightarrow> kindProxy \<Rightarrow> kind_event list" where
  \<comment> \<open>one round of the loop of \<^verbatim>\<open>worker\<close>\<close>
  "worker_round post env k =
     (case kind_poll post k of
        Inl _ \<Rightarrow> []
      | Inr None \<Rightarrow> []
      | Inr (Some pr) \<Rightarrow> serve env pr k)"

definition kind_loadConfig :: "KindConfig option \<Rightarrow> KindConfig \<Rightarrow> (string \<Rightarrow> string) \<Rightarrow> KindConfig" where
  "kind_loadConfig file zero env =
     (let cfg = KindConfig_ApplyDefaults (case file of None \<Rightarrow> zero | Some c \<Rightarrow> c);
          cfg1 = (if env ''SBNET_BROKER'' \<noteq> '''' then cfg\<lparr>kc_BrokerURL := env ''SBNET_BROKER''\<rparr> else cfg)
      in if env ''SBNET_DIR'' \<noteq> '''' then cfg1\<lparr>kc_DirURL := env ''SBNET_DIR''\<rparr> else cfg1)"

section \<open>The byte pipe\<close>

record pipe_state =
  pi_aIn :: bytes      \<comment> \<open>what is still to be read from \<^verbatim>\<open>a\<close>\<close>
  pi_aOut :: bytes     \<comment> \<open>what was written to \<^verbatim>\<open>a\<close>\<close>
  pi_bIn :: bytes
  pi_bOut :: bytes
  pi_aOpen :: bool
  pi_bOpen :: bool

definition pipe_start :: "bytes \<Rightarrow> bytes \<Rightarrow> pipe_state" where
  "pipe_start A B = \<lparr>pi_aIn = A, pi_aOut = [], pi_bIn = B, pi_bOut = [], pi_aOpen = True, pi_bOpen = True\<rparr>"

text \<open>
  A copy step reads a chunk on one side and writes it to the other; if the other side is closed by
  then, the chunk is lost and the write fails, which ends the direction. When a direction ends it
  closes its destination; when one of them has ended, \<^verbatim>\<open>pipe\<close> returns and the deferred calls close both.
\<close>

inductive pipe_step :: "pipe_state \<Rightarrow> pipe_state \<Rightarrow> bool" where
  copy_ab: "pi_aOpen p \<Longrightarrow> pi_bOpen p \<Longrightarrow> pi_aIn p = chunk @ rest \<Longrightarrow> chunk \<noteq> [] \<Longrightarrow>
     pipe_step p (p\<lparr>pi_aIn := rest, pi_bOut := pi_bOut p @ chunk\<rparr>)"
| lose_ab: "pi_aOpen p \<Longrightarrow> \<not> pi_bOpen p \<Longrightarrow> pi_aIn p = chunk @ rest \<Longrightarrow> pipe_step p (p\<lparr>pi_aIn := rest\<rparr>)"
| end_ab: "pipe_step p (p\<lparr>pi_bOpen := False\<rparr>)"
| copy_ba: "pi_aOpen p \<Longrightarrow> pi_bOpen p \<Longrightarrow> pi_bIn p = chunk @ rest \<Longrightarrow> chunk \<noteq> [] \<Longrightarrow>
     pipe_step p (p\<lparr>pi_bIn := rest, pi_aOut := pi_aOut p @ chunk\<rparr>)"
| lose_ba: "pi_bOpen p \<Longrightarrow> \<not> pi_aOpen p \<Longrightarrow> pi_bIn p = chunk @ rest \<Longrightarrow> pipe_step p (p\<lparr>pi_bIn := rest\<rparr>)"
| end_ba: "pipe_step p (p\<lparr>pi_aOpen := False\<rparr>)"
| returned: "\<not> pi_aOpen p \<or> \<not> pi_bOpen p \<Longrightarrow> pipe_step p (p\<lparr>pi_aOpen := False, pi_bOpen := False\<rparr>)"

lemma pipe_inv:
  assumes "pipe_step\<^sup>*\<^sup>* (pipe_start A B) p"
  shows "(\<exists>l. pi_bOut p @ l @ pi_aIn p = A \<and> (pi_aOpen p \<and> pi_bOpen p \<longrightarrow> l = [])) \<and>
     (\<exists>l. pi_aOut p @ l @ pi_bIn p = B \<and> (pi_aOpen p \<and> pi_bOpen p \<longrightarrow> l = []))"
  using assms
proof (induction rule: rtranclp_induct)
  case base
  show ?case by (simp add: pipe_start_def)
next
  case (step p q)
  then obtain l m where l: "pi_bOut p @ l @ pi_aIn p = A" "pi_aOpen p \<and> pi_bOpen p \<longrightarrow> l = []"
    and m: "pi_aOut p @ m @ pi_bIn p = B" "pi_aOpen p \<and> pi_bOpen p \<longrightarrow> m = []" by blast
  from step(2) show ?case
  proof cases
    case (lose_ab chunk rest)
    then show ?thesis using l m by (intro conjI exI [of _ "l @ chunk"] exI [of _ m]) auto
  next
    case (lose_ba chunk rest)
    then show ?thesis using l m by (intro conjI exI [of _ l] exI [of _ "m @ chunk"]) auto
  qed (rule conjI, rule exI [of _ l], use l m in force, rule exI [of _ m], use l m in force)+
qed

text \<open>
  The volunteer is a transparent pipe. At every moment the bytes written to the relay are a prefix of what
  the client sends and the bytes written to the client a prefix of what the relay sends, in order and
  without additions; while both connections are open nothing that was read is missing.
\<close>

theorem kind_pipe_transparent:
  assumes "pipe_step\<^sup>*\<^sup>* (pipe_start A B) p"
  shows "prefix (pi_bOut p) A \<and> prefix (pi_aOut p) B \<and>
     (pi_aOpen p \<and> pi_bOpen p \<longrightarrow> pi_bOut p @ pi_aIn p = A \<and> pi_aOut p @ pi_bIn p = B)"
  using pipe_inv [OF assms] by (auto simp: prefix_def)

theorem kind_pipe_transparent_witness:
  "\<exists>p. pipe_step\<^sup>*\<^sup>* (pipe_start [1, 2, 3] [9]) p \<and> pi_bOut p = [1, 2] \<and> prefix (pi_bOut p) [1, 2, 3]"
proof -
  let ?p = "(pipe_start [1, 2, 3] [9])\<lparr>pi_aIn := [3], pi_bOut := pi_bOut (pipe_start [1, 2, 3] [9]) @ [1, 2]\<rparr>"
  have "pipe_step (pipe_start [1, 2, 3] [9]) ?p" by (rule pipe_step.copy_ab) (simp_all add: pipe_start_def)
  then have r: "pipe_step\<^sup>*\<^sup>* (pipe_start [1, 2, 3] [9]) ?p" by blast
  from kind_pipe_transparent [OF r] have "prefix (pi_bOut ?p) [1, 2, 3]" by blast
  with r show ?thesis by (intro exI [of _ ?p]) (simp add: pipe_start_def)
qed

section \<open>Workers\<close>

lemma refresh_cfg: "kx_cfg (refreshConsensus fetch k) = kx_cfg k"
  by (simp add: refreshConsensus_def split: sum.splits)

lemma refresh_entries:
  assumes "\<forall>r \<in> set (kx_entries k). rd_Role r = ''entry''"
  shows "\<forall>r \<in> set (kx_entries (refreshConsensus fetch k)). rd_Role r = ''entry''"
  using assms by (auto simp: refreshConsensus_def split: sum.splits)

lemma run_entries: "\<forall>r \<in> set (kx_entries (fold refreshConsensus fetches (newKindProxy get cfg))). rd_Role r = ''entry''"
proof (induction fetches rule: rev_induct)
  case Nil
  show ?case by (simp add: newKindProxy_def Let_def)
next
  case (snoc f fs)
  then show ?case using refresh_entries [of "fold refreshConsensus fs (newKindProxy get cfg)"] by simp
qed

lemma run_listed:
  assumes "r \<in> set (kx_entries (fold refreshConsensus fetches (newKindProxy get cfg)))"
  shows "\<exists>fetch \<in> set fetches. \<exists>c. fetch (kc_DirURL cfg) (kc_DirTLSCA cfg) = Inr c \<and> r \<in> set (sc_Relays c)"
proof -
  let ?run = "\<lambda>fs. fold refreshConsensus fs (newKindProxy get cfg)"
  have cfg: "kx_cfg (?run fs) = cfg" for fs
    by (induction fs rule: rev_induct) (simp_all add: refresh_cfg, simp add: newKindProxy_def Let_def)
  show ?thesis using assms
  proof (induction fetches rule: rev_induct)
    case Nil
    then show ?case by (simp add: newKindProxy_def Let_def)
  next
    case (snoc f fs)
    then show ?case using cfg [of fs] by (cases "f (kc_DirURL cfg) (kc_DirTLSCA cfg)") (auto simp: refreshConsensus_def [of f "?run fs"])
  qed
qed

lemma serve_dials:
  assumes "Dialed address \<in> set (serve env pr k)"
  shows "\<exists>entry answer. entry \<in> set (kx_entries k) \<and> address = JoinHostPort (rd_IP entry) (dec_int (rd_Port entry)) \<and>
     hd (serve env pr k) = Submitted (kc_BrokerURL (kx_cfg k) @ ''/kind/answer'')
        \<lparr>ka_SessionID = kp_SessionID pr, ka_Answer = answer\<rparr> \<and>
     (\<exists>conn. se_result env = VConn conn \<and> (\<forall>c a. Tunnel c a \<in> set (serve env pr k) \<longrightarrow> c = conn \<and> a = address))"
proof -
  let ?url = "kc_BrokerURL (kx_cfg k) @ ''/kind/answer''"
  obtain answer where a: "fst (VolunteerAnswer (se_rtc env) (kp_Offer pr) (kx_stun k)) = Inr answer"
    using assms by (cases "fst (VolunteerAnswer (se_rtc env) (kp_Offer pr) (kx_stun k))") (auto simp: serve_def)
  let ?q = "\<lparr>ka_SessionID = kp_SessionID pr, ka_Answer = answer\<rparr>"
  have s: "se_submit env ?url ?q" using assms a by (auto simp: serve_def Let_def split: if_splits)
  obtain conn where c: "se_result env = VConn conn"
    using assms a s by (cases "se_result env") (auto simp: serve_def Let_def)
  obtain entry where e: "pickEntry (se_entry env) k = Some entry"
    using assms a s c by (cases "pickEntry (se_entry env) k") (auto simp: serve_def Let_def)
  let ?ad = "JoinHostPort (rd_IP entry) (dec_int (rd_Port entry))"
  have ev: "serve env pr k = Submitted ?url ?q # Dialed ?ad # (if se_relay env ?ad then [Tunnel conn ?ad] else [])"
    using a s c e by (simp add: serve_def Let_def)
  have "entry \<in> set (kx_entries k)" using e by (auto simp: pickEntry_def split: if_splits)
  then show ?thesis using assms c unfolding ev by (intro exI [of _ entry] exI [of _ answer]) auto
qed

text \<open>
  A worker only connects clients to entry relays of a verified consensus. Whenever a worker dials, the
  address is that of a relay with role entry listed in a consensus that one of the proxy's verified fetches
  returned, the answer was first submitted to the broker for the session the poll returned, and a
  tunnel, if one is opened, joins exactly the client's datachannel and that address.
\<close>

theorem kind_worker_contract:
  assumes k: "k = fold refreshConsensus fetches (newKindProxy get cfg)"
    and "Dialed address \<in> set (worker_round post env k)"
  shows "\<exists>pr entry answer conn fetch c. kind_poll post k = Inr (Some pr) \<and>
     fetch \<in> set fetches \<and> fetch (kc_DirURL cfg) (kc_DirTLSCA cfg) = Inr c \<and> entry \<in> set (sc_Relays c) \<and>
     rd_Role entry = ''entry'' \<and> address = JoinHostPort (rd_IP entry) (dec_int (rd_Port entry)) \<and>
     hd (worker_round post env k) = Submitted (kc_BrokerURL (kx_cfg k) @ ''/kind/answer'')
        \<lparr>ka_SessionID = kp_SessionID pr, ka_Answer = answer\<rparr> \<and>
     se_result env = VConn conn \<and> (\<forall>c a. Tunnel c a \<in> set (worker_round post env k) \<longrightarrow> c = conn \<and> a = address)"
proof -
  obtain pr where pr: "kind_poll post k = Inr (Some pr)"
    using assms(2) by (cases "kind_poll post k") (auto simp: worker_round_def split: option.splits)
  then have w: "worker_round post env k = serve env pr k" by (simp add: worker_round_def)
  obtain entry answer conn where e: "entry \<in> set (kx_entries k)" "address = JoinHostPort (rd_IP entry) (dec_int (rd_Port entry))"
    "hd (serve env pr k) = Submitted (kc_BrokerURL (kx_cfg k) @ ''/kind/answer'')
        \<lparr>ka_SessionID = kp_SessionID pr, ka_Answer = answer\<rparr>"
    "se_result env = VConn conn" "\<forall>c a. Tunnel c a \<in> set (serve env pr k) \<longrightarrow> c = conn \<and> a = address"
    using serve_dials [of address env pr k] assms(2) unfolding w by blast
  have "rd_Role entry = ''entry''" using run_entries [of fetches get cfg] e(1) unfolding k by blast
  moreover obtain fetch c where "fetch \<in> set fetches" "fetch (kc_DirURL cfg) (kc_DirTLSCA cfg) = Inr c" "entry \<in> set (sc_Relays c)"
    using run_listed e(1) unfolding k by blast
  ultimately show ?thesis using pr e unfolding w by blast
qed

definition sample_kind_env :: serve_env where
  "sample_kind_env = \<lparr>se_rtc = \<lparr>de_newPC = (\<lambda>_. True), de_createDC = True, de_offer = Some ''a'', de_setLocal = True,
      de_localSDP = ''sdp'', de_post = (\<lambda>_ _. None), de_setRemote = (\<lambda>_. True), de_open = NeverOpens\<rparr>,
     se_submit = (\<lambda>_ _. True), se_result = VConn (newConn []), se_entry = 0, se_relay = (\<lambda>_. True)\<rparr>"

theorem kind_worker_contract_witness:
  "\<exists>cfg c entry fetch post. Dialed (JoinHostPort ''10.0.0.1'' (dec_int 9001)) \<in> set (worker_round post sample_kind_env
        (fold refreshConsensus [fetch] (newKindProxy (\<lambda>_. None) cfg))) \<and>
     fetch (kc_DirURL cfg) (kc_DirTLSCA cfg) = Inr c \<and> entry \<in> set (sc_Relays c) \<and> rd_Role entry = ''entry'' \<and>
     JoinHostPort ''10.0.0.1'' (dec_int 9001) = JoinHostPort (rd_IP entry) (dec_int (rd_Port entry))"
proof -
  let ?cfg = "\<lparr>kc_BrokerURL = ''b'', kc_DirURL = ''d'', kc_DirTLSCA = '''', kc_STUNServers = [], kc_Capacity = 1, kc_LogLevel = ''''\<rparr>"
  let ?r = "\<lparr>rd_ID = ''r1'', rd_IP = ''10.0.0.1'', rd_Port = 9001, rd_Role = ''entry'', rd_PublicKey = '''', rd_Country = '''',
     rd_Region = '''', rd_OperMode = '''', rd_Bandwidth = 0, rd_Version = '''', rd_LastSeen = 0\<rparr>"
  let ?c = "\<lparr>sc_Relays = [?r], sc_Brokers = [], sc_Timestamp = 0, sc_Signature = '''', sc_RelaysJSON = '''', sc_BrokersJSON = ''''\<rparr>"
  let ?fetch = "\<lambda>_ _. Inr ?c :: consensus_error + SignedConsensus"
  let ?post = "\<lambda>_ :: string. Some (200 :: nat, Some \<lparr>kp_SessionID = ''s'', kp_Offer = ''o''\<rparr>)"
  have d: "Dialed (JoinHostPort ''10.0.0.1'' (dec_int 9001)) \<in> set (worker_round ?post sample_kind_env
        (fold refreshConsensus [?fetch] (newKindProxy (\<lambda>_. None) ?cfg)))"
    by (simp add: worker_round_def kind_poll_def serve_def VolunteerAnswer_def sample_kind_env_def refreshConsensus_def
        newKindProxy_def FetchSTUN_def pickEntry_def Let_def)
  from kind_worker_contract [OF refl d] obtain entry c where
    "?fetch (kc_DirURL ?cfg) (kc_DirTLSCA ?cfg) = Inr c" "entry \<in> set (sc_Relays c)" "rd_Role entry = ''entry''"
    "JoinHostPort ''10.0.0.1'' (dec_int 9001) = JoinHostPort (rd_IP entry) (dec_int (rd_Port entry))" by auto
  with d show ?thesis by blast
qed

end
