(* ===== verification/Kind_Session.thy ===== *)
theory Kind_Session
  imports Broker_Kind Kind
begin

text \<open>
  The three parties of kind mode together: the client's dialer (\<^verbatim>\<open>src/webrtcx/conn.go\<close>), the broker's rendezvous
  (\<^verbatim>\<open>src/broker/kind.go\<close>) and the volunteer's worker (\<^verbatim>\<open>src/kind/main.go\<close>). The HTTP exchange between them is
  the function \<open>kind_http\<close>: the status and decoded body that a handler's response is for the peer.
\<close>

section \<open>The HTTP exchange\<close>

definition kindConnectWait :: int where
  \<comment> \<open>durations are in nanoseconds\<close>
  "kindConnectWait = 20 * 1000000000"

definition kindPollWait :: int where
  "kindPollWait = 25 * 1000000000"

definition extendDeadlines :: "int \<Rightarrow> int \<times> int" where
  \<comment> \<open>read and write deadline of a long-poll handler that starts at \<open>now\<close>\<close>
  "extendDeadlines now = (now + (kindPollWait + 10 * 1000000000), now + (kindPollWait + 10 * 1000000000))"

fun kind_http :: "kind_resp \<Rightarrow> (nat \<times> string option) option" where
  \<comment> \<open>the answer to \<^verbatim>\<open>/kind/connect\<close>: status and SDP; \<open>None\<close> if nothing is written\<close>
  "kind_http KBad = Some (400, None)"
| "kind_http KBusy = Some (503, None)"
| "kind_http (KAnswer sdp) = Some (200, Some sdp)"
| "kind_http KNoVolunteer = Some (504, None)"
| "kind_http KCanceled = None"
| "kind_http (KOffer pr) = Some (200, None)"
| "kind_http KNoContent = Some (204, None)"
| "kind_http KGone = Some (410, None)"
| "kind_http KOK = Some (200, None)"

fun kind_http_poll :: "kind_resp \<Rightarrow> (nat \<times> KindPollResponse option) option" where
  \<comment> \<open>the answer to \<^verbatim>\<open>/kind/poll\<close>\<close>
  "kind_http_poll (KOffer pr) = Some (200, Some pr)"
| "kind_http_poll resp = (case kind_http resp of None \<Rightarrow> None | Some (status, _) \<Rightarrow> Some (status, None))"

text \<open>
  A response of the rendezvous is ready before the server's deadline cuts the connection: both waits end
  earlier, for every starting time.
\<close>

lemma long_poll_within_deadline:
  "now + kindConnectWait < fst (extendDeadlines now)" "now + kindPollWait < snd (extendDeadlines now)"
  by (simp_all add: extendDeadlines_def kindConnectWait_def kindPollWait_def)

section \<open>A client gets an answer to its own offer\<close>

definition volunteer_submission :: "(serve_env \<times> kindProxy) set \<Rightarrow> kind_state \<Rightarrow> KindAnswerRequest \<Rightarrow> bool" where
  \<comment> \<open>one of the sessions \<open>V\<close> of volunteers that the broker gave an offer to submits this request while serving it\<close>
  "volunteer_submission V s q \<longleftrightarrow> (\<exists>g r pr env k url. (env, k) \<in> V \<and> kn_hs s g = Some (PDone r (KOffer pr)) \<and>
     Submitted url q \<in> set (serve env pr k))"

definition unique_ids :: "kind_state \<Rightarrow> bool" where
  \<comment> \<open>the random session ids do not collide\<close>
  "unique_ids s \<longleftrightarrow> (\<forall>r r' sess sess'. kn_heap s r = Some sess \<longrightarrow> kn_heap s r' = Some sess' \<longrightarrow>
     ks_id sess = ks_id sess' \<longrightarrow> r = r')"

lemma serve_submits:
  assumes "Submitted url q \<in> set (serve env pr k)"
  shows "ka_SessionID q = kp_SessionID pr \<and> fst (VolunteerAnswer (se_rtc env) (kp_Offer pr) (kx_stun k)) = Inr (ka_Answer q)"
  using assms by (auto simp: serve_def Let_def split: sum.splits if_splits VolunteerResult.splits option.splits)

lemma serve_success:
  assumes "fst (VolunteerAnswer (se_rtc env) (kp_Offer pr) (kx_stun k)) = Inr a" "\<forall>u q. se_submit env u q"
    "se_result env = VConn conn" "pickEntry (se_entry env) k = Some entry" "\<forall>addr. se_relay env addr"
  shows "serve env pr k =
     [Submitted (kc_BrokerURL (kx_cfg k) @ ''/kind/answer'') \<lparr>ka_SessionID = kp_SessionID pr, ka_Answer = a\<rparr>,
      Dialed (JoinHostPort (rd_IP entry) (dec_int (rd_Port entry))),
      Tunnel conn (JoinHostPort (rd_IP entry) (dec_int (rd_Port entry)))]"
  using assms by (simp add: serve_def Let_def)

text \<open>
  C15: Under every interleaving of clients, volunteers and broker handlers, with session ids that do not
  collide and answers that only volunteers submit while serving: if a client's connect request is
  answered, then exactly one volunteer received that client's offer, and the SDP the client gets
  is the answer VolunteerAnswer computed from that very offer.
\<close>

theorem kind_session_authentic:
  assumes "kind_reachable capacity s" "unique_ids s"
    and "\<forall>g q k. kn_hs s g = Some (ADone q k) \<longrightarrow> volunteer_submission V s q"
    and "kn_hs s g = Some (CDone r (KAnswer a))"
  shows "\<exists>sess. \<exists>(env, k) \<in> V. kn_heap s r = Some sess \<and>
     (\<exists>!g'. kn_hs s g' = Some (PDone r (KOffer \<lparr>kp_SessionID = ks_id sess, kp_Offer = ks_offer sess\<rparr>))) \<and>
     fst (VolunteerAnswer (se_rtc env) (ks_offer sess) (kx_stun k)) = Inr a"
proof -
  have inv: "queue_ok s" "answers_ok s" using reachable_inv [OF assms(1)] by auto
  obtain sess where sess: "kn_heap s r = Some sess" "posted s (ks_id sess) a"
    using inv(2) assms(4) unfolding answers_ok_def session_def by metis
  let ?q = "\<lparr>ka_SessionID = ks_id sess, ka_Answer = a\<rparr>"
  have "volunteer_submission V s ?q" using sess(2) assms(3) unfolding posted_def by blast
  then obtain g1 r1 pr env k url where v: "(env, k) \<in> V" "kn_hs s g1 = Some (PDone r1 (KOffer pr))" "Submitted url ?q \<in> set (serve env pr k)"
    unfolding volunteer_submission_def by blast
  have ans: "kp_SessionID pr = ks_id sess" "fst (VolunteerAnswer (se_rtc env) (kp_Offer pr) (kx_stun k)) = Inr a"
    using serve_submits [OF v(3)] by simp_all
  obtain sess1 where s1: "kn_heap s r1 = Some sess1" "kp_SessionID pr = ks_id sess1" "kp_Offer pr = ks_offer sess1"
    using inv(2) v(2) unfolding answers_ok_def by blast
  then have "r1 = r" using assms(2) sess(1) ans(1) unfolding unique_ids_def by metis
  with s1 sess(1) have pr: "pr = \<lparr>kp_SessionID = ks_id sess, kp_Offer = ks_offer sess\<rparr>" by simp
  have "g' = g1" if "kn_hs s g' = Some (PDone r (KOffer pr))" for g'
    using inv(1) that v(2) \<open>r1 = r\<close> taken.simps(2) unfolding queue_ok_def by metis
  then have "\<exists>!g'. kn_hs s g' = Some (PDone r (KOffer pr))" using v(2) \<open>r1 = r\<close> by blast
  then show ?thesis using sess(1) v(1) ans(2) unfolding pr by (intro exI [of _ sess] bexI [of _ "(env, k)"]) simp_all
qed

section \<open>A session is established\<close>

text \<open>
  C14: Kind mode connects: a client whose offer is queued and a volunteer that has a verified entry relay reach a tunnel.
  From every such reachable state of the rendezvous there is a continuation in which a poll returns
  the client's offer; the worker that got it submits its answer, dials the entry relay and opens the
  tunnel; the broker accepts the answer, and the client's dial, given the broker's response,
  returns the datachannel connection.
\<close>

theorem kind_session_established:
  assumes "kind_reachable capacity s" "kn_hs s g = Some (CWaiting r)" "kn_heap s r = Some sess" "ks_answerCh sess = []"
    and "kr_pending (kn_rv s) (ks_id sess) = Some r" "r \<in> set (kr_offers (kn_rv s))" "ks_offer sess = de_localSDP cenv"
    and vol: "fst (VolunteerAnswer (se_rtc env) (ks_offer sess) (kx_stun k)) = Inr a" "a \<noteq> ''''" "\<forall>u q. se_submit env u q"
      "se_result env = VConn conn" "pickEntry (se_entry env) k = Some entry" "\<forall>addr. se_relay env addr"
    and cli: "de_newPC cenv (iceConfig stun)" "de_createDC cenv" "de_offer cenv \<noteq> None" "de_setLocal cenv"
      "de_setRemote cenv a" "de_open cenv = Opens dc"
  shows "\<exists>s' g1 g2 presp cresp. kind_step\<^sup>*\<^sup>* s s' \<and>
     kn_hs s' g1 = Some (PDone r presp) \<and>
     worker_round (\<lambda>_. kind_http_poll presp) env k =
       [Submitted (kc_BrokerURL (kx_cfg k) @ ''/kind/answer'') \<lparr>ka_SessionID = ks_id sess, ka_Answer = a\<rparr>,
        Dialed (JoinHostPort (rd_IP entry) (dec_int (rd_Port entry))),
        Tunnel conn (JoinHostPort (rd_IP entry) (dec_int (rd_Port entry)))] \<and>
     kn_hs s' g2 = Some (ADone \<lparr>ka_SessionID = ks_id sess, ka_Answer = a\<rparr> KOK) \<and>
     kn_hs s' g = Some (CDone r cresp) \<and>
     ClientDial (cenv\<lparr>de_post := \<lambda>url sdp. if sdp = ks_offer sess then kind_http cresp else None\<rparr>) url stun =
       (Inr (newConn dc), False)"
proof -
  let ?pr = "\<lparr>kp_SessionID = ks_id sess, kp_Offer = ks_offer sess\<rparr>"
  obtain s' g1 g2 where s': "kind_step\<^sup>*\<^sup>* s s'" "kn_hs s' g1 = Some (PDone r (KOffer ?pr))"
    "kn_hs s' g2 = Some (ADone \<lparr>ka_SessionID = ks_id sess, ka_Answer = a\<rparr> KOK)" "kn_hs s' g = Some (CDone r (KAnswer a))"
    using rendezvous_run [OF assms(1-6) vol(2)] by blast
  have "worker_round (\<lambda>_. kind_http_poll (KOffer ?pr)) env k = serve env ?pr k"
    by (simp add: worker_round_def kind_poll_def)
  moreover have "ClientDial (cenv\<lparr>de_post := \<lambda>url sdp. if sdp = ks_offer sess then kind_http (KAnswer a) else None\<rparr>) url stun =
      (Inr (newConn dc), False)"
    using cli assms(7) by (auto simp: ClientDial_def)
  ultimately show ?thesis
    using s' serve_success [of env ?pr k a conn entry] vol
    by (intro exI [of _ s'] exI [of _ g1] exI [of _ g2] exI [of _ "KOffer ?pr"] exI [of _ "KAnswer a"]) simp
qed

section \<open>Witnesses\<close>

definition sample_volunteer :: kindProxy where
  "sample_volunteer =
     \<lparr>kx_cfg = \<lparr>kc_BrokerURL = ''b'', kc_DirURL = ''d'', kc_DirTLSCA = '''', kc_STUNServers = [], kc_Capacity = 1, kc_LogLevel = ''''\<rparr>,
      kx_stun = [],
      kx_entries = [\<lparr>rd_ID = ''r1'', rd_IP = ''10.0.0.1'', rd_Port = 9001, rd_Role = ''entry'', rd_PublicKey = '''', rd_Country = '''',
        rd_Region = '''', rd_OperMode = '''', rd_Bandwidth = 0, rd_Version = '''', rd_LastSeen = 0\<rparr>]\<rparr>"

lemma sample_volunteer_answers: "fst (VolunteerAnswer (se_rtc sample_kind_env) offer (kx_stun sample_volunteer)) = Inr ''sdp''"
  by (simp add: VolunteerAnswer_def sample_kind_env_def)

theorem kind_session_established_witness:
  "\<exists>s s' presp. kind_reachable 64 s \<and> kind_step\<^sup>*\<^sup>* s s' \<and> kn_hs s' 0 = Some (CDone 0 (KAnswer ''sdp'')) \<and>
     Tunnel (newConn []) (JoinHostPort ''10.0.0.1'' (dec_int 9001)) \<in>
       set (worker_round (\<lambda>_. kind_http_poll presp) sample_kind_env sample_volunteer)"
proof -
  obtain s where s: "kind_reachable 64 s" "kn_hs s 0 = Some (CWaiting 0)" "kr_offers (kn_rv s) = [0]"
    "kn_heap s 0 = Some \<lparr>ks_id = randSessionID (\<lambda>_. 7), ks_offer = ''offer'', ks_answerCh = []\<rparr>"
    "kr_pending (kn_rv s) (randSessionID (\<lambda>_. 7)) = Some 0"
    using waiting_client_reachable by blast
  let ?cenv = "\<lparr>de_newPC = (\<lambda>_. True), de_createDC = True, de_offer = Some ''o'', de_setLocal = True,
      de_localSDP = ''offer'', de_post = (\<lambda>_ _. None), de_setRemote = (\<lambda>sdp. sdp = ''sdp''), de_open = Opens [[1]]\<rparr>"
  obtain s' presp cresp where s': "kind_step\<^sup>*\<^sup>* s s'"
    "worker_round (\<lambda>_. kind_http_poll presp) sample_kind_env sample_volunteer =
       [Submitted (kc_BrokerURL (kx_cfg sample_volunteer) @ ''/kind/answer'') \<lparr>ka_SessionID = randSessionID (\<lambda>_. 7), ka_Answer = ''sdp''\<rparr>,
        Dialed (JoinHostPort (rd_IP (hd (kx_entries sample_volunteer))) (dec_int (rd_Port (hd (kx_entries sample_volunteer))))),
        Tunnel (newConn []) (JoinHostPort (rd_IP (hd (kx_entries sample_volunteer))) (dec_int (rd_Port (hd (kx_entries sample_volunteer)))))]"
    "kn_hs s' 0 = Some (CDone 0 cresp)"
    "ClientDial (?cenv\<lparr>de_post := \<lambda>url sdp. if sdp = ''offer'' then kind_http cresp else None\<rparr>) ''u'' [] = (Inr (newConn [[1]]), False)"
    using kind_session_established [OF s(1,2,4), of ?cenv sample_kind_env sample_volunteer "''sdp''" "newConn []"
        "hd (kx_entries sample_volunteer)" "[]" "[[1]]" "''u''"] s(3,5) sample_volunteer_answers
    by (auto simp: sample_kind_env_def pickEntry_def sample_volunteer_def)
  have "cresp = KAnswer ''sdp''"
    using s'(4) by (cases cresp) (auto simp: ClientDial_def split: if_splits)
  moreover have "Tunnel (newConn []) (JoinHostPort ''10.0.0.1'' (dec_int 9001)) \<in>
      set (worker_round (\<lambda>_. kind_http_poll presp) sample_kind_env sample_volunteer)"
    unfolding s'(2) by (simp add: sample_volunteer_def)
  ultimately show ?thesis using s(1) s'(1,3) by blast
qed

theorem kind_session_authentic_witness:
  "\<exists>s g'. kind_reachable 64 s \<and> kn_hs s 0 = Some (CDone 0 (KAnswer ''sdp'')) \<and>
     kn_hs s g' = Some (PDone 0 (KOffer \<lparr>kp_SessionID = randSessionID (\<lambda>_. 7), kp_Offer = ''offer''\<rparr>))"
proof -
  let ?sid = "randSessionID (\<lambda>_. 7)"
  let ?sess = "\<lparr>ks_id = ?sid, ks_offer = ''offer'', ks_answerCh = []\<rparr>"
  let ?off = "KOffer \<lparr>kp_SessionID = ?sid, kp_Offer = ''offer''\<rparr>" and ?q = "\<lparr>ka_SessionID = ?sid, ka_Answer = ''sdp''\<rparr>"
  obtain s where s: "kind_reachable 64 s" "kn_hs s 0 = Some (CWaiting 0)" "kr_offers (kn_rv s) = [0]"
    "kn_heap s 0 = Some ?sess" "kr_pending (kn_rv s) ?sid = Some 0" "dom (kn_hs s) = {0}" "dom (kn_heap s) = {0}"
    using waiting_client_reachable by blast
  have hs: "kn_hs s = [0 \<mapsto> CWaiting 0]" using s(2,6) by (intro ext) (metis domIff fun_upd_apply singletonD)
  let ?s1 = "s\<lparr>kn_rv := (kn_rv s)\<lparr>kr_offers := []\<rparr>, kn_hs := (kn_hs s)(2 \<mapsto> PDone 0 ?off)\<rparr>"
  have 1: "kind_step\<^sup>*\<^sup>* s ?s1" using poll_steps [OF _ s(3,4), of 2] s(5) hs by simp
  let ?s2 = "?s1\<lparr>kn_rv := (kn_rv ?s1)\<lparr>kr_pending := (kr_pending (kn_rv ?s1))(?sid := None)\<rparr>,
        kn_hs := (kn_hs ?s1)(3 \<mapsto> ADone ?q KOK, 0 \<mapsto> CDone 0 (KAnswer ''sdp''))\<rparr>"
  have 2: "kind_step\<^sup>*\<^sup>* ?s1 ?s2" using answer_steps [of ?s1 0 0 ?sess 3 "''sdp''"] s hs by simp
  have r: "kind_reachable 64 ?s2" using 1 2 reachable_steps s(1) by blast
  have u: "unique_ids ?s2" using s(7) unfolding unique_ids_def by simp (metis domI singletonD)
  have sub: "\<forall>g q k. kn_hs ?s2 g = Some (ADone q k) \<longrightarrow> volunteer_submission {(sample_kind_env, sample_volunteer)} ?s2 q"
  proof (intro allI impI)
    fix g q k assume "kn_hs ?s2 g = Some (ADone q k)"
    then have "q = ?q" using hs by (auto split: if_splits)
    moreover have "Submitted ''b/kind/answer'' ?q \<in> set (serve sample_kind_env \<lparr>kp_SessionID = ?sid, kp_Offer = ''offer''\<rparr> sample_volunteer)"
      by (simp add: serve_def VolunteerAnswer_def sample_kind_env_def sample_volunteer_def pickEntry_def Let_def)
    moreover have "kn_hs ?s2 2 = Some (PDone 0 ?off)" by simp
    ultimately show "volunteer_submission {(sample_kind_env, sample_volunteer)} ?s2 q" unfolding volunteer_submission_def by blast
  qed
  have c: "kn_hs ?s2 0 = Some (CDone 0 (KAnswer ''sdp''))" by simp
  obtain sess g' where sess: "kn_heap ?s2 0 = Some sess"
    "kn_hs ?s2 g' = Some (PDone 0 (KOffer \<lparr>kp_SessionID = ks_id sess, kp_Offer = ks_offer sess\<rparr>))"
    using kind_session_authentic [OF r u sub c] by blast
  have "sess = ?sess" using sess(1) s(4) by simp
  then have "kn_hs ?s2 g' = Some (PDone 0 ?off)" using sess(2) by (simp only: kindSession.simps)
  with r c show ?thesis by blast
qed

end
