(* ===== verification/Client_Proxy.thy ===== *)
theory Client_Proxy
  imports Bridge
begin

text \<open>
  The local side of the client, \<^verbatim>\<open>src/client/main.go\<close>: the SOCKS5 and HTTP proxies in front of the circuit
  pool and the background work of \<^verbatim>\<open>main\<close>. A local connection is the bytes it delivers before the request and
  the list of the chunks the data loop reads afterwards; writes that the code checks may fail. The
  pool is reached through \<open>send\<close>, which the handlers call with host, port and bytes.
\<close>

section \<open>Textual IP addresses (net)\<close>

fun hex_nat :: "nat \<Rightarrow> string" where
  "hex_nat n = (if n < 16 then [hex_digit n] else hex_nat (n div 16) @ [hex_digit (n mod 16)])"

declare hex_nat.simps [simp del]

fun v6_groups :: "bytes \<Rightarrow> nat list" where
  "v6_groups (a # b # r) = (256 * unat a + unat b) # v6_groups r"
| "v6_groups _ = []"

definition zero_run :: "nat list \<Rightarrow> nat \<times> nat" where
  \<comment> \<open>the first longest run of at least two zero groups, (255, 255) if there is none\<close>
  "zero_run gs =
     fold (\<lambda>i (s, e). let l = length (takeWhile (\<lambda>g. g = 0) (drop i gs)) in
             if l \<ge> 2 \<and> l > e - s then (i, i + l) else (s, e)) [0..<8] (255, 255)"

fun v6_loop :: "nat \<Rightarrow> nat list \<Rightarrow> nat \<times> nat \<Rightarrow> nat \<Rightarrow> string" where
  "v6_loop 0 gs z i = []"
| "v6_loop (Suc k) gs z i =
     (if i \<ge> 8 then []
      else if i = fst z then
        ''::'' @ (if snd z \<ge> 8 then [] else hex_nat (gs ! snd z) @ v6_loop k gs z (Suc (snd z)))
      else (if i > 0 then '':'' else '''') @ hex_nat (gs ! i) @ v6_loop k gs z (Suc i))"

definition dotted :: "bytes \<Rightarrow> string" where
  "dotted a = dec_nat (unat (a ! 0)) @ ''.'' @ dec_nat (unat (a ! 1)) @ ''.'' @ dec_nat (unat (a ! 2)) @ ''.'' @
     dec_nat (unat (a ! 3))"

definition IP_String :: "bytes \<Rightarrow> string" where
  \<comment> \<open>\<^verbatim>\<open>net.IP.String\<close> on 4 and 16 bytes\<close>
  "IP_String a =
     (if length a = 4 then dotted a
      else if take 12 a = replicate 10 0 @ [255, 255] then dotted (drop 12 a)
      else let gs = v6_groups a in v6_loop 8 gs (zero_run gs) 0)"

section \<open>SOCKS5 handshake\<close>

definition read_ignoring :: "nat \<Rightarrow> bytes \<Rightarrow> bytes \<times> bytes" where
  \<comment> \<open>\<^verbatim>\<open>io.ReadFull\<close> into a zeroed buffer with the error ignored\<close>
  "read_ignoring n bs = (take n bs @ replicate (n - length bs) 0, drop n bs)"

datatype socks_result =
    SocksClose bytes                       \<comment> \<open>the replies written before the connection is closed\<close>
  | SocksConnect bytes string uint16 bytes \<comment> \<open>replies, target, and the bytes not yet read\<close>

definition socks_reply :: "byte \<Rightarrow> bytes" where
  "socks_reply code = [5, code, 0, 1, 0, 0, 0, 0, 0, 0]"

definition socks_address :: "byte \<Rightarrow> bytes \<Rightarrow> (string \<times> bytes) option" where
  \<comment> \<open>the switch on the address type\<close>
  "socks_address atyp bs =
     (if atyp = 1 then (case read_ignoring 4 bs of (a, r) \<Rightarrow> Some (IP_String a, r))
      else if atyp = 4 then (case read_ignoring 16 bs of (a, r) \<Rightarrow> Some (''['' @ IP_String a @ '']'', r))
      else if atyp = 3 then
        (case read_ignoring 1 bs of
           (lenB, r) \<Rightarrow> (case read_ignoring (unat (lenB ! 0)) r of (domain, r') \<Rightarrow> Some (string_of domain, r')))
      else None)"

definition socks_handshake :: "bytes \<Rightarrow> socks_result" where
  \<comment> \<open>\<^verbatim>\<open>handleSOCKS5Conn\<close> up to the success reply\<close>
  "socks_handshake bs =
     (case tcp_readFull 2 bs of
        (Inl e, _) \<Rightarrow> SocksClose []
      | (Inr hdr, r1) \<Rightarrow>
          if hdr ! 0 \<noteq> 5 then SocksClose []
          else let r2 = snd (read_ignoring (unat (hdr ! 1)) r1) in
            (case tcp_readFull 4 r2 of
               (Inl e, _) \<Rightarrow> SocksClose [5, 0]
             | (Inr req, r3) \<Rightarrow>
                 if req ! 0 \<noteq> 5 then SocksClose [5, 0]
                 else if req ! 1 \<noteq> 1 then SocksClose ([5, 0] @ socks_reply 7)
                 else (case socks_address (req ! 3) r3 of
                         None \<Rightarrow> SocksClose ([5, 0] @ socks_reply 8)
                       | Some (host, r4) \<Rightarrow>
                           (case read_ignoring 2 r4 of
                              (portBuf, r5) \<Rightarrow> SocksConnect ([5, 0] @ socks_reply 0) host (get16 portBuf) r5))))"

section \<open>Data loops\<close>

type_synonym 'p proxy_send = "nat \<Rightarrow> bytes \<Rightarrow> 'p \<Rightarrow> (go_panic + (bytes \<times> client_error option)) \<times> 'p"

fun proxy_loop :: "'p proxy_send \<Rightarrow> (nat \<Rightarrow> bool) \<Rightarrow> bytes list \<Rightarrow> 'p \<Rightarrow> (go_panic option \<times> bytes list) \<times> 'p" where
  \<comment> \<open>the loop at the end of \<^verbatim>\<open>handleSOCKS5Conn\<close> and \<^verbatim>\<open>handleCONNECT\<close>: one send per chunk read; the result is what
      is written to the local connection. \<open>send i\<close> and \<open>wr i\<close> are the \<open>i\<close>-th calls\<close>
  "proxy_loop send wr [] p = ((None, []), p)"
| "proxy_loop send wr (chunk # chunks) p =
     (if length chunk = 0 then proxy_loop send wr chunks p
      else (case send 0 chunk p of
              (Inl pn, p') \<Rightarrow> ((Some pn, []), p')
            | (Inr (resp, Some e), p') \<Rightarrow> ((None, []), p')
            | (Inr (resp, None), p') \<Rightarrow>
                if \<not> wr 0 then ((None, []), p')
                else (case proxy_loop (\<lambda>i. send (Suc i)) (\<lambda>i. wr (Suc i)) chunks p' of
                        ((pn, outs), p'') \<Rightarrow> ((pn, resp # outs), p''))))"

definition handleSOCKS5Conn ::
  "bool \<Rightarrow> (string \<Rightarrow> uint16 \<Rightarrow> 'p proxy_send) \<Rightarrow> (nat \<Rightarrow> bool) \<Rightarrow> (bytes \<Rightarrow> bytes list) \<Rightarrow> bytes \<Rightarrow> 'p \<Rightarrow>
   (go_panic option \<times> bytes \<times> bytes list) \<times> 'p" where
  \<comment> \<open>\<open>ready\<close>: the pool became ready within 30 seconds; \<open>chunks\<close> cuts the rest of the input into reads\<close>
  "handleSOCKS5Conn ready send wr chunks bs p =
     (case socks_handshake bs of
        SocksClose out \<Rightarrow> ((None, out, []), p)
      | SocksConnect out host port rest \<Rightarrow>
          if \<not> ready then ((None, out, []), p)
          else (case proxy_loop (send host port) wr (chunks rest) p of ((pn, outs), p') \<Rightarrow> ((pn, out, outs), p')))"

section \<open>HTTP proxy\<close>

record http_request =
  hq_Method :: string
  hq_RequestURI :: string
  hq_Host :: string
  hq_Header :: "(string \<times> string) list"   \<comment> \<open>in the order in which \<^verbatim>\<open>Header.Write\<close> writes the fields\<close>
  hq_Body :: "bytes option"

datatype http_result = HTTPError nat | HTTPRaw bytes | Hijacked "bytes list"

definition crlf :: string where
  "crlf = [CHR 0x0D, CHR 0x0A]"

definition header_write :: "(string \<times> string) list \<Rightarrow> string" where
  "header_write hs = concat (map (\<lambda>(k, v). k @ '': '' @ v @ crlf) hs)"

definition http_raw :: "http_request \<Rightarrow> bytes" where
  "http_raw r =
     bytes_of (hq_Method r @ '' '' @ hq_RequestURI r @ '' HTTP/1.0'' @ crlf @ ''Host: '' @ hq_Host r @ crlf @
       ''Connection: close'' @ crlf @ header_write (hq_Header r) @ crlf) @
     (case hq_Body r of None \<Rightarrow> [] | Some body \<Rightarrow> take (2 ^ 20) body)"

definition handleHTTP ::
  "(string \<Rightarrow> uint16 \<Rightarrow> 'p proxy_send) \<Rightarrow> http_request \<Rightarrow> 'p \<Rightarrow> (go_panic + http_result) \<times> 'p" where
  "handleHTTP send r p =
     (case send (hq_Host r) 80 0 (http_raw r) p of
        (Inl pn, p') \<Rightarrow> (Inl pn, p')
      | (Inr (resp, Some e), p') \<Rightarrow> (Inr (HTTPError 502), p')
      | (Inr (resp, None), p') \<Rightarrow> (Inr (HTTPRaw resp), p'))"

definition sscanf_u16 :: "string \<Rightarrow> uint16 \<Rightarrow> uint16" where
  \<comment> \<open>\<^verbatim>\<open>fmt.Sscanf(s, "%d", &port)\<close>: the variable keeps its value when no number fits\<close>
  "sscanf_u16 s old =
     (let ds = takeWhile (\<lambda>c. 48 \<le> (of_char c :: nat) \<and> (of_char c :: nat) \<le> 57) (dropWhile (\<lambda>c. c = CHR '' '') s)
      in if ds = [] \<or> dec_value ds \<ge> 65536 then old else of_nat (dec_value ds))"

definition connect_target :: "string \<Rightarrow> string \<times> uint16" where
  "connect_target rhost =
     (let host = (if CHR '':'' \<in> set rhost then rhost else rhost @ '':443'');
          (hostname, rest) = str_cut (CHR '':'') host
      in (hostname, sscanf_u16 rest 443))"

definition handleCONNECT ::
  "bool \<Rightarrow> bool \<Rightarrow> (string \<Rightarrow> uint16 \<Rightarrow> 'p proxy_send) \<Rightarrow> (nat \<Rightarrow> bool) \<Rightarrow> bytes list \<Rightarrow> http_request \<Rightarrow> 'p \<Rightarrow>
   (go_panic option \<times> http_result) \<times> 'p" where
  \<comment> \<open>whether the writer can be hijacked and whether hijacking succeeds\<close>
  "handleCONNECT canHijack hijackOK send wr chunks r p =
     (if \<not> canHijack then ((None, HTTPError 500), p)
      else (case connect_target (hq_Host r) of
              (hostname, port) \<Rightarrow>
                if \<not> hijackOK then ((None, HTTPError 500), p)
                else (case proxy_loop (send hostname port) wr chunks p of
                        ((pn, outs), p') \<Rightarrow>
                          ((pn, Hijacked (bytes_of (''HTTP/1.0 200 Connection Established'' @ crlf @ crlf) # outs)), p'))))"

definition buildHTTPProxy ::
  "bool \<Rightarrow> (http_request \<Rightarrow> 'p \<Rightarrow> 'r \<times> 'p) \<Rightarrow> (http_request \<Rightarrow> 'p \<Rightarrow> 'r \<times> 'p) \<Rightarrow> (nat \<Rightarrow> 'r) \<Rightarrow> http_request \<Rightarrow> 'p \<Rightarrow> 'r \<times> 'p" where
  \<comment> \<open>\<open>ready\<close> is \<^verbatim>\<open>pool.isReady()\<close>; the two handlers and the error response are arguments\<close>
  "buildHTTPProxy ready connect plain err r p =
     (if \<not> ready then (err 503, p)
      else if hq_Method r = ''CONNECT'' then connect r p
      else plain r p)"

section \<open>The pool behind the proxies\<close>

definition via_pool ::
  "(nat \<Rightarrow> 'n send_env) \<Rightarrow> string \<Rightarrow> uint16 \<Rightarrow> ('n CircuitPool \<times> filesystem) proxy_send" where
  \<comment> \<open>the calls \<^verbatim>\<open>pool.send(ctx, host, port, buf[:n])\<close>\<close>
  "via_pool envs host port i req pf =
     (case pool_send (envs i) host port req (fst pf) (snd pf) of (r, p', fs') \<Rightarrow> (r, (p', fs')))"

section \<open>Background work of main\<close>

fun bridge_loop ::
  "(nat \<Rightarrow> BridgeConfig \<Rightarrow> client_error + 'n ClientCircuit) \<Rightarrow> BridgeConfig \<Rightarrow> nat \<Rightarrow> 'n ClientCircuit list" where
  "bridge_loop build bcfg 0 = []"
| "bridge_loop build bcfg (Suc k) =
     (case build 0 bcfg of
        Inl e \<Rightarrow> bridge_loop (\<lambda>i. build (Suc i)) bcfg k
      | Inr c \<Rightarrow> c # bridge_loop (\<lambda>i. build (Suc i)) bcfg k)"

definition bridge_startup ::
  "(nat \<Rightarrow> BridgeConfig \<Rightarrow> client_error + 'n ClientCircuit) \<Rightarrow> ClientConfig \<Rightarrow> 'n CircuitPool \<Rightarrow> 'n CircuitPool" where
  \<comment> \<open>\<open>build i\<close> is the \<open>i\<close>-th call of \<^verbatim>\<open>buildCircuitViaBridge\<close>\<close>
  "bridge_startup build cfg p =
     (case client_parseBridgeURI (cc_BridgeURI cfg) of
        Inl e \<Rightarrow> p
      | Inr bridgeCfg \<Rightarrow>
          let circuits = bridge_loop build bridgeCfg (nat (cc_CircuitCount cfg)) in
          if length circuits = 0 then p else p\<lparr>cp_circuits := circuits, cp_ready := True\<rparr>)"

definition refresh_circuits ::
  "(string \<Rightarrow> string \<Rightarrow> consensus_error + SignedConsensus) \<Rightarrow> 'n transport \<Rightarrow> (nat \<Rightarrow> 'n build_env) \<Rightarrow> ClientConfig \<Rightarrow>
   'n CircuitPool \<Rightarrow> filesystem \<Rightarrow> 'n CircuitPool \<times> filesystem" where
  \<comment> \<open>fetch, setRelays and buildAll, at the start and in every round of the rotation\<close>
  "refresh_circuits fetch tr envs cfg p fs =
     (case fetch (cc_DirURL cfg) (cc_DirTLSCA cfg) of
        Inl e \<Rightarrow> (p, fs)
      | Inr c \<Rightarrow> snd (buildAll tr envs (setRelays (sc_Relays c) (sc_Brokers c) p) fs))"

definition client_startup ::
  "(nat \<Rightarrow> BridgeConfig \<Rightarrow> client_error + 'n ClientCircuit) \<Rightarrow>
   (string \<Rightarrow> string \<Rightarrow> consensus_error + SignedConsensus) \<Rightarrow> 'n transport \<Rightarrow> (nat \<Rightarrow> 'n build_env) \<Rightarrow> ClientConfig \<Rightarrow>
   filesystem \<Rightarrow> 'n CircuitPool \<times> filesystem" where
  "client_startup build fetch tr envs cfg fs =
     (let p = newCircuitPool cfg in
      if cc_BridgeURI cfg \<noteq> '''' then (bridge_startup build cfg p, fs)
      else refresh_circuits fetch tr envs cfg p fs)"

section \<open>Understanding requests\<close>

datatype socks_target = V4 bytes | V6 bytes | Domain string

fun target_ok :: "socks_target \<Rightarrow> bool" where
  "target_ok (V4 a) = (length a = 4)"
| "target_ok (V6 a) = (length a = 16)"
| "target_ok (Domain d) = (length d < 256)"

fun target_host :: "socks_target \<Rightarrow> string" where
  "target_host (V4 a) = IP_String a"
| "target_host (V6 a) = ''['' @ IP_String a @ '']''"
| "target_host (Domain d) = d"

fun target_encode :: "socks_target \<Rightarrow> bytes" where
  \<comment> \<open>address type and address, RFC 1928\<close>
  "target_encode (V4 a) = 1 # a"
| "target_encode (V6 a) = 4 # a"
| "target_encode (Domain d) = 3 # of_nat (length d) # bytes_of d"

definition socks_request :: "bytes \<Rightarrow> socks_target \<Rightarrow> uint16 \<Rightarrow> bytes" where
  "socks_request methods t port = [5, of_nat (length methods)] @ methods @ [5, 1, 0] @ target_encode t @ put16 port"

lemma read_ignoring_exact: "length xs = n \<Longrightarrow> read_ignoring n (xs @ ys) = (xs, ys)"
  by (simp add: read_ignoring_def)

lemma socks_address_encode:
  assumes "target_ok t"
  shows "\<exists>atyp a. target_encode t = atyp # a \<and> socks_address atyp (a @ rest) = Some (target_host t, rest)"
proof (cases t)
  case (Domain d)
  have u: "unat (of_nat (length d) :: byte) = length d" using assms Domain by (simp add: unat_of_nat8)
  have "read_ignoring 1 ((of_nat (length d) # bytes_of d) @ rest) = ([of_nat (length d)], bytes_of d @ rest)"
    using read_ignoring_exact [of "[of_nat (length d)]" 1 "bytes_of d @ rest"] by simp
  moreover have "read_ignoring (length d) (bytes_of d @ rest) = (bytes_of d, rest)" by (rule read_ignoring_exact) simp
  ultimately show ?thesis using Domain u by (simp add: socks_address_def)
qed (use assms in \<open>simp_all add: socks_address_def read_ignoring_exact\<close>)

lemma socks_handshake_request:
  assumes "length methods < 256" "target_ok t"
  shows "socks_handshake (socks_request methods t port @ rest) = SocksConnect ([5, 0] @ socks_reply 0) (target_host t) port rest"
proof -
  obtain atyp a where a: "target_encode t = atyp # a" using socks_address_encode [OF assms(2)] by blast
  then have addr: "socks_address atyp (a @ r) = Some (target_host t, r)" for r
    using socks_address_encode [OF assms(2), of r] by auto
  let ?m = "methods @ [5, 1, 0, atyp] @ a @ put16 port @ rest"
  have u: "unat (of_nat (length methods) :: byte) = length methods" using assms(1) by (simp add: unat_of_nat8)
  have 1: "tcp_readFull 2 (socks_request methods t port @ rest) = (Inr [5, of_nat (length methods)], ?m)"
    by (simp add: socks_request_def a tcp_readFull_def)
  have 2: "snd (read_ignoring (unat ([5, of_nat (length methods) :: byte] ! 1)) ?m) = [5, 1, 0, atyp] @ a @ put16 port @ rest"
    using read_ignoring_exact [of methods "length methods" "[5, 1, 0, atyp] @ a @ put16 port @ rest"] u by simp
  have 3: "tcp_readFull 4 ([5, 1, 0, atyp] @ a @ put16 port @ rest) = (Inr [5, 1, 0, atyp], a @ put16 port @ rest)"
    by (simp add: tcp_readFull_def)
  have 4: "read_ignoring 2 (put16 port @ rest) = (put16 port, rest)" by (rule read_ignoring_exact) simp
  have 5: "get16 (put16 port) = port" using get16_put16 [of port "[]"] by simp
  have 6: "[5, of_nat (length methods) :: byte] ! 0 = 5" "[5, 1, 0, atyp] ! 0 = 5" "[5, 1, 0, atyp] ! 1 = 1" "[5, 1, 0, atyp] ! 3 = atyp"
    by simp_all
  show ?thesis
    unfolding socks_handshake_def 1 prod.case sum.case Let_def 2 3 6 addr option.case 4 5 by simp
qed


text \<open>
  An HTTP CONNECT target written as name, colon and decimal port is split into that name and port, and
  a name alone gets port 443; the name must not contain a colon, and a bracketed IPv6 target is
  cut at its first colon: its hostname is then the opening bracket and the first group.
\<close>

theorem connect_target_roundtrip:
  assumes "CHR '':'' \<notin> set h" "n < 65536"
  shows "connect_target (h @ '':'' @ dec_nat n) = (h, of_nat n) \<and> connect_target h = (h, 443) \<and>
     fst (connect_target (''['' @ h @ '':'' @ x)) = ''['' @ h"
proof -
  have cut: "str_cut (CHR '':'') (h' @ CHR '':'' # y) = (h', y)" if "CHR '':'' \<notin> set h'" for h' y
    using that by (induction h') auto
  have digits: "takeWhile (\<lambda>c. 48 \<le> (of_char c :: nat) \<and> (of_char c :: nat) \<le> 57) (dropWhile (\<lambda>c. c = CHR '' '') (dec_nat m)) = dec_nat m"
    for m
  proof -
    have d: "\<forall>c \<in> set (dec_nat m). 48 \<le> (of_char c :: nat) \<and> (of_char c :: nat) \<le> 57" using dec_nat_digits by blast
    then have "dropWhile (\<lambda>c. c = CHR '' '') (dec_nat m) = dec_nat m" by (cases "dec_nat m") auto
    then show ?thesis using d by simp
  qed
  have ne: "dec_nat m \<noteq> []" for m by (subst dec_nat.simps) simp
  have scan: "sscanf_u16 (dec_nat m) old = of_nat m" if "m < 65536" for m old
    using that ne [of m] by (simp add: sscanf_u16_def digits)
  have d443: "''443'' = dec_nat 443" by code_simp
  show ?thesis
    using assms cut [of h "dec_nat n"] cut [of h "''443''"] cut [of "''['' @ h" x] scan [of n 443] scan [of 443 443]
    by (simp add: connect_target_def Let_def d443)
qed

theorem connect_target_roundtrip_witness:
  "connect_target (''ab'' @ '':'' @ dec_nat 8443) = (''ab'', 8443) \<and> fst (connect_target ''[2001:db8::1]:443'') = ''[2001''"
  using connect_target_roundtrip [of "''ab''" 8443 "[]"] connect_target_roundtrip [of "''2001''" 0 "''db8::1]:443''"] by simp

section \<open>Bridge mode delivers nothing\<close>

lemma bridge_loop_built: "c \<in> set (bridge_loop build bcfg k) \<Longrightarrow> \<exists>i. build i bcfg = Inr c"
proof (induction k arbitrary: build)
  case (Suc k)
  then show ?case by (auto split: sum.splits)
qed simp

fun send_all ::
  "'n send_env list \<Rightarrow> (string \<times> uint16 \<times> bytes) list \<Rightarrow> 'n CircuitPool \<Rightarrow> filesystem \<Rightarrow>
   (go_panic + (bytes \<times> client_error option)) list" where
  \<comment> \<open>the results of a sequence of sends on one pool\<close>
  "send_all (env # envs) ((host, port, req) # rs) p fs =
     (case pool_send env host port req p fs of (r, p', fs') \<Rightarrow> r # send_all envs rs p' fs')"
| "send_all _ _ p fs = []"

lemma bridge_sends_fail:
  assumes "\<forall>c \<in> set (cp_circuits p). \<exists>rnds now. buildCircuitViaBridge dial obfs tr sm rnds now bcfg = Inr c"
    and "cp_circuits p \<noteq> []" "cp_relays p = []" "cp_brokers p = []" "unat (cp_counter p) + length rs < 2 ^ 63"
  shows "set (send_all envs rs p fs) \<subseteq> {Inr ([], Some AllAttemptsFailed)}"
  using assms
proof (induction envs rs p fs rule: send_all.induct)
  case (1 env envs host port req rs p fs)
  let ?p = "p\<lparr>cp_counter := cp_counter p + 1\<rparr>"
  have s: "pool_send env host port req p fs = (Inr ([], Some AllAttemptsFailed), ?p, fs)"
    using 1(2-6) by (intro bridge_pool_fails) auto
  have "unat (cp_counter p + 1) = unat (cp_counter p) + 1"
    using 1(6) by (simp add: unat_plus_if')
  then have "set (send_all envs rs ?p fs) \<subseteq> {Inr ([], Some AllAttemptsFailed)}"
    using 1(2-6) by (intro 1(1) [OF s [symmetric] refl]) auto
  then show ?case by (simp add: s)
qed simp_all

text \<open>
  C32: Bridge mode delivers no request. If the client starts with a bridge URI, then whatever the bridge and the network do,
  either the pool stays not ready or every request of any sequence is answered with an error after both
  attempts: the circuits of buildCircuitViaBridge have only their first key, and the pool has no
  relays from which the retry could build another one.
\<close>

theorem bridge_mode_never_delivers:
  assumes "cc_BridgeURI cfg \<noteq> ''''" "length rs < 2 ^ 63"
    and "client_startup (\<lambda>i. buildCircuitViaBridge dial obfs tr sm (rnds i) (now i)) fetch tr envs cfg fs = (p, fs')"
  shows "\<not> isReady p \<or> set (send_all senvs rs p fs') \<subseteq> {Inr ([], Some AllAttemptsFailed)}"
proof (cases "isReady p")
  case True
  let ?build = "\<lambda>i. buildCircuitViaBridge dial obfs tr sm (rnds i) (now i)"
  have p: "p = bridge_startup ?build cfg (newCircuitPool cfg)" using assms(1,3) by (simp add: client_startup_def Let_def)
  obtain bcfg where b: "client_parseBridgeURI (cc_BridgeURI cfg) = Inr bcfg"
    using True p by (cases "client_parseBridgeURI (cc_BridgeURI cfg)") (auto simp: bridge_startup_def isReady_def newCircuitPool_def)
  let ?cs = "bridge_loop ?build bcfg (nat (cc_CircuitCount cfg))"
  have cs: "?cs \<noteq> []" "p = (newCircuitPool cfg)\<lparr>cp_circuits := ?cs, cp_ready := True\<rparr>"
    using True p b by (auto simp: bridge_startup_def isReady_def newCircuitPool_def Let_def split: if_splits)
  have "set (send_all senvs rs p fs') \<subseteq> {Inr ([], Some AllAttemptsFailed)}"
    using cs assms(2) bridge_loop_built
    by (intro bridge_sends_fail [where bcfg = bcfg]) (fastforce simp: newCircuitPool_def)+
  then show ?thesis ..
qed simp

definition sample_bridge_client :: ClientConfig where
  "sample_bridge_client = sample_client_cfg\<lparr>cc_BridgeURI := ''sbnet://bridge=h:1&token=tk&obfs=plain'', cc_CircuitCount := 1\<rparr>"

theorem bridge_mode_never_delivers_witness:
  "\<forall>envs e1 e2. \<exists>p. client_startup (\<lambda>_. buildCircuitViaBridge (\<lambda>_ _ _. Some []) (\<lambda>n. (None, n)) log_transport sample_sm (\<lambda>_ _. 3) 0)
        (\<lambda>_ _. Inl FetchPubkey) log_transport envs sample_bridge_client Map.empty = (p, Map.empty) \<and> isReady p \<and>
     set (send_all [e1, e2] [(''example'', 80, [1]), (''example'', 443, [2])] p Map.empty) \<subseteq>
       {Inr ([], Some AllAttemptsFailed)}"
proof (intro allI)
  fix envs :: "nat \<Rightarrow> Cell list build_env" and e1 e2
  let ?build = "\<lambda>_ :: nat. buildCircuitViaBridge (\<lambda>_ _ _. Some []) (\<lambda>n. (None, n)) log_transport sample_sm (\<lambda>_ _. 3) 0"
  have uri: "client_parseBridgeURI (cc_BridgeURI sample_bridge_client) = Inr sample_uri_cfg"
    by (simp add: client_parseBridgeURI_def parse_bridge_def sample_bridge_client_def sample_uri_cfg_def bridge_scheme_def
        HasPrefix_def parse_query.simps url_Get_def)
  obtain c where c: "?build 0 sample_uri_cfg = Inr c"
    by (simp add: buildCircuitViaBridge_def dialBridge_def GenKeyPair_def sample_uri_cfg_def log_transport_def Let_def)
  let ?p = "(newCircuitPool sample_bridge_client)\<lparr>cp_circuits := [c], cp_ready := True\<rparr>"
  have one: "nat (cc_CircuitCount sample_bridge_client) = Suc 0" by (simp add: sample_bridge_client_def)
  have ne: "cc_BridgeURI sample_bridge_client \<noteq> ''''" by (simp add: sample_bridge_client_def)
  have s: "client_startup ?build (\<lambda>_ _. Inl FetchPubkey) log_transport envs sample_bridge_client Map.empty = (?p, Map.empty)"
    using ne c by (simp add: client_startup_def bridge_startup_def uri one Let_def)
  have r: "isReady ?p" by (simp add: isReady_def)
  have "length [(''example'', 80 :: uint16, [1 :: byte]), (''example'', 443, [2])] < 2 ^ 63" by simp
  from bridge_mode_never_delivers [OF ne this s, of "[e1, e2]"] s r
  show "\<exists>p. client_startup ?build (\<lambda>_ _. Inl FetchPubkey) log_transport envs sample_bridge_client Map.empty = (p, Map.empty) \<and> isReady p \<and>
     set (send_all [e1, e2] [(''example'', 80, [1]), (''example'', 443, [2])] p Map.empty) \<subseteq>
       {Inr ([], Some AllAttemptsFailed)}"
    by blast
qed

end
