(* ===== verification/Client_Shared.thy ===== *)
theory Client_Shared
  imports Client_Pool
begin

text \<open>
  Requests that run at the same time, \<^verbatim>\<open>sendRequest\<close>, \<^verbatim>\<open>get\<close>, \<^verbatim>\<open>send\<close> and \<^verbatim>\<open>buildAll\<close> of
  \<^verbatim>\<open>src/client/main.go\<close>. Every proxy connection calls them from its own goroutine. A circuit serialises the
  writes of its requests (\<^verbatim>\<open>writeMu\<close>) but not their reads, so the first part is a step relation over the bytes
  that arrive on one circuit; a step is one \<^verbatim>\<open>io.ReadFull\<close>. The second part interleaves the
  critical sections of the pool; a circuit is a pointer, because the pool, the
  requests and the rotation share it.
\<close>

section \<open>Concurrent requests on one circuit\<close>

datatype request =
    RStart Cell                              \<comment> \<open>before \<^verbatim>\<open>writeCell\<close>\<close>
  | RWaiting bytes                           \<comment> \<open>the response so far; next is the frame length\<close>
  | RFrame bytes nat                         \<comment> \<open>the length is read, next is the frame\<close>
  | RReturned bytes "client_error option"

record shared_circuit =
  sh_keys :: "bytes list"
  sh_in :: bytes
  sh_out :: "Cell list"
  sh_reqs :: "nat \<rightharpoonup> request"

fun take_cell :: "block_cipher \<Rightarrow> bytes list \<Rightarrow> bytes \<Rightarrow> cell_error + Cell \<Rightarrow> request" where
  \<comment> \<open>the rest of an iteration of the response loop, on what \<^verbatim>\<open>ReadCell\<close> returned\<close>
  "take_cell aes keys response (Inl e) = RReturned response None"
| "take_cell aes keys response (Inr c) =
     (if Command c \<noteq> CmdRelay \<and> Command c \<noteq> CmdRelayDone then RWaiting response
      else (case peel_layers (Decrypt aes) keys (cell_data c) of
              Inl e \<Rightarrow> RReturned response (Some (DecryptFailed e))
            | Inr data \<Rightarrow> if Command c = CmdRelayDone then RReturned response None else RWaiting (response @ data)))"

definition req_on :: "nat \<Rightarrow> request \<Rightarrow> shared_circuit \<Rightarrow> shared_circuit" where
  "req_on g r s = s\<lparr>sh_reqs := (sh_reqs s)(g \<mapsto> r)\<rparr>"

inductive shared_step :: "block_cipher \<Rightarrow> shared_circuit \<Rightarrow> shared_circuit \<Rightarrow> bool" for aes where
  call: "sh_reqs s g = None \<Longrightarrow> shared_step aes s (req_on g (RStart c) s)"
| send: "sh_reqs s g = Some (RStart c) \<Longrightarrow> shared_step aes s (req_on g (RWaiting []) (s\<lparr>sh_out := sh_out s @ [c]\<rparr>))"
| read_len: "sh_reqs s g = Some (RWaiting r) \<Longrightarrow> tcp_readFull FrameLenSize (sh_in s) = (Inr lenBuf, rest) \<Longrightarrow>
     n = unat (get16 lenBuf) \<Longrightarrow>
     shared_step aes s (req_on g (if n < CellHdrSize \<or> n > MaxFrameLen then take_cell aes (sh_keys s) r (Inl (InvalidFrameLength n))
        else RFrame r n) (s\<lparr>sh_in := rest\<rparr>))"
| read_frame: "sh_reqs s g = Some (RFrame r n) \<Longrightarrow> tcp_readFull n (sh_in s) = (Inr frame, rest) \<Longrightarrow>
     shared_step aes s (req_on g (take_cell aes (sh_keys s) r (UnmarshalCell frame)) (s\<lparr>sh_in := rest\<rparr>))"
| read_fails: "sh_reqs s g = Some (RWaiting r) \<or> sh_reqs s g = Some (RFrame r n) \<Longrightarrow>
     shared_step aes s (req_on g (take_cell aes (sh_keys s) r (Inl ReadFailed)) s)"
    \<comment> \<open>the deadline or a closed connection\<close>
| canceled: "sh_reqs s g = Some (RWaiting r) \<Longrightarrow> shared_step aes s (req_on g (RReturned r (Some CtxDone)) s)"
| arrive: "shared_step aes s (s\<lparr>sh_in := sh_in s @ bs\<rparr>)"

lemma req_on_simps [simp]:
  "sh_reqs (req_on g r s) = (sh_reqs s)(g \<mapsto> r)" "sh_in (req_on g r s) = sh_in s" "sh_keys (req_on g r s) = sh_keys s"
  "sh_out (req_on g r s) = sh_out s"
  by (simp_all add: req_on_def)

fun response_of :: "block_cipher \<Rightarrow> bytes list \<Rightarrow> Cell list \<Rightarrow> bytes option" where
  \<comment> \<open>the cells of a complete response: data cells and then the end-of-response cell\<close>
  "response_of aes keys [] = None"
| "response_of aes keys (c # cs) =
     (case peel_layers (Decrypt aes) keys (cell_data c) of
        Inl e \<Rightarrow> None
      | Inr data \<Rightarrow>
          if Command c = CmdRelayDone \<and> cs = [] then Some []
          else if Command c = CmdRelay then map_option (\<lambda>r. data @ r) (response_of aes keys cs)
          else None)"

lemma tcp_readFull_append: "length xs = n \<Longrightarrow> tcp_readFull n (xs @ ys) = (Inr xs, ys)"
  by (simp add: tcp_readFull_def)

lemma read_one_cell:
  assumes "sh_reqs s g = Some (RWaiting r)" "wf_cell c" "sh_in s = MarshalCell b rnd c @ rest"
  shows "(shared_step aes)\<^sup>*\<^sup>* s (req_on g (take_cell aes (sh_keys s) r (Inr (canon_cell c))) (s\<lparr>sh_in := rest\<rparr>))"
proof -
  let ?t = "frame_len b c"
  let ?frame = "put32 (CircID c) @ [Command c] @ put16 (of_nat (body_len c)) @
     take (body_len c) (Body c) @ map rnd [0..<?t - (7 + body_len c)]"
  have body: "length (Body c) = 505" using assms(2) by (simp add: wf_cell_def)
  have in_eq: "sh_in s = put16 (of_nat ?t) @ ?frame @ rest" using assms(3) body by (simp add: MarshalCell_layout)
  have len: "length ?frame = ?t" using body frame_len_ge [of c b] body_len_le(1) [of c] by simp
  have t: "7 \<le> ?t" "?t \<le> 4096" using frame_len_ge [of c b] frame_len_le [of b c] by linarith+
  have n: "unat (get16 (put16 (of_nat ?t))) = ?t" using get16_put16 [of "of_nat ?t" "[]"] t by simp
  let ?s1 = "req_on g (RFrame r ?t) (s\<lparr>sh_in := ?frame @ rest\<rparr>)"
  have r1: "tcp_readFull FrameLenSize (sh_in s) = (Inr (put16 (of_nat ?t)), ?frame @ rest)"
    unfolding in_eq by (simp add: tcp_readFull_def)
  have 1: "shared_step aes s ?s1"
    using shared_step.read_len [where g = g, OF assms(1) r1 n [symmetric], of aes] t by simp
  have r2: "tcp_readFull ?t (sh_in ?s1) = (Inr ?frame, rest)"
    using tcp_readFull_append [OF len, of rest] by simp
  have "UnmarshalCell ?frame = Inr (canon_cell c)" using UnmarshalCell_frame [of c] body frame_len_ge by simp
  then have 2: "shared_step aes ?s1 (req_on g (take_cell aes (sh_keys s) r (Inr (canon_cell c))) (?s1\<lparr>sh_in := rest\<rparr>))"
    using shared_step.read_frame [where s = ?s1 and g = g, OF _ r2, of r aes] by simp
  have "req_on g x (?s1\<lparr>sh_in := rest\<rparr>) = req_on g x (s\<lparr>sh_in := rest\<rparr>)" for x by (simp add: req_on_def)
  with 1 2 show ?thesis by (metis (no_types, lifting) converse_rtranclp_into_rtranclp r_into_rtranclp)
qed

lemma cell_data_canon: "wf_cell c \<Longrightarrow> cell_data (canon_cell c) = cell_data c"
  by (auto simp: canon_cell_alt cell_data_def wf_cell_def body_len_def)

lemma read_response:
  assumes "sh_reqs s g = Some (RWaiting r)" "list_all wf_cell cs" "response_of aes (sh_keys s) cs = Some d"
    and "sh_in s = concat (map (MarshalCell b rnd) cs) @ rest"
  shows "(shared_step aes)\<^sup>*\<^sup>* s (req_on g (RReturned (r @ d) None) (s\<lparr>sh_in := rest\<rparr>))"
  using assms
proof (induction cs arbitrary: s r d)
  case (Cons c cs)
  let ?rest = "concat (map (MarshalCell b rnd) cs) @ rest"
  have wf: "wf_cell c" using Cons.prems(2) by simp
  have sel: "Command (canon_cell c) = Command c" "cell_data (canon_cell c) = cell_data c"
    using cell_data_canon [OF wf] by (simp_all add: canon_cell_alt)
  obtain data where peel: "peel_layers (Decrypt aes) (sh_keys s) (cell_data c) = Inr data"
    using Cons.prems(3) by (auto split: sum.splits)
  have 1: "(shared_step aes)\<^sup>*\<^sup>* s (req_on g (take_cell aes (sh_keys s) r (Inr (canon_cell c))) (s\<lparr>sh_in := ?rest\<rparr>))"
    using Cons.prems(4) by (intro read_one_cell [OF Cons.prems(1) wf]) simp
  show ?case
  proof (cases "Command c = CmdRelayDone \<and> cs = []")
    case True
    then show ?thesis using 1 Cons.prems(3) peel sel by (simp add: cmd_defs)
  next
    case False
    then have cmd: "Command c = CmdRelay" and "\<exists>d'. response_of aes (sh_keys s) cs = Some d' \<and> d = data @ d'"
      using Cons.prems(3) peel by (auto split: if_splits)
    then obtain d' where d': "response_of aes (sh_keys s) cs = Some d'" "d = data @ d'" by blast
    let ?s = "req_on g (RWaiting (r @ data)) (s\<lparr>sh_in := ?rest\<rparr>)"
    have "(shared_step aes)\<^sup>*\<^sup>* s ?s" using 1 cmd peel sel by (simp add: cmd_defs)
    moreover have "(shared_step aes)\<^sup>*\<^sup>* ?s (req_on g (RReturned ((r @ data) @ d') None) (?s\<lparr>sh_in := rest\<rparr>))"
      using Cons.prems(2) d' by (intro Cons.IH) simp_all
    moreover have "req_on g x (?s\<lparr>sh_in := rest\<rparr>) = req_on g x (s\<lparr>sh_in := rest\<rparr>)" for x by (simp add: req_on_def)
    ultimately show ?thesis using d' by (metis append.assoc rtranclp_trans)
  qed
qed simp

lemma read_two_responses:
  assumes "sh_reqs s g = Some (RWaiting [])" "sh_reqs s h = Some (RWaiting [])" "g \<noteq> h"
    and "list_all wf_cell cs1" "list_all wf_cell cs2"
    and "response_of aes (sh_keys s) cs1 = Some d1" "response_of aes (sh_keys s) cs2 = Some d2"
    and "sh_in s = concat (map (MarshalCell b rnd) (cs1 @ cs2))"
  shows "\<exists>s'. (shared_step aes)\<^sup>*\<^sup>* s s' \<and> sh_reqs s' g = Some (RReturned d1 None) \<and> sh_reqs s' h = Some (RReturned d2 None)"
proof -
  let ?s1 = "req_on g (RReturned d1 None) (s\<lparr>sh_in := concat (map (MarshalCell b rnd) cs2)\<rparr>)"
  have 1: "(shared_step aes)\<^sup>*\<^sup>* s ?s1"
    using read_response [OF assms(1,4,6), where rest = "concat (map (MarshalCell b rnd) cs2)"] assms(8) by simp
  have "(shared_step aes)\<^sup>*\<^sup>* ?s1 (req_on h (RReturned ([] @ d2) None) (?s1\<lparr>sh_in := []\<rparr>))"
    by (rule read_response [where rest = "[]" and b = b and rnd = rnd]) (use assms in simp_all)
  with 1 have "(shared_step aes)\<^sup>*\<^sup>* s (req_on h (RReturned d2 None) (?s1\<lparr>sh_in := []\<rparr>))" by simp
  then show ?thesis using assms(3) by (intro exI [of _ "req_on h (RReturned d2 None) (?s1\<lparr>sh_in := []\<rparr>)"]) simp
qed

text \<open>
  C34: Requests that share a circuit can get each other's responses. When two requests are waiting on one circuit and their
  complete responses have arrived one after the other, there is a run in which each request
  returns its own response without error, and one in which each returns the response
  of the other, also without error: nothing ties a response to its request.
\<close>

theorem shared_circuit_swaps_responses:
  assumes "sh_reqs s g = Some (RWaiting [])" "sh_reqs s h = Some (RWaiting [])" "g \<noteq> h"
    and "list_all wf_cell cs1" "list_all wf_cell cs2"
    and "response_of aes (sh_keys s) cs1 = Some d1" "response_of aes (sh_keys s) cs2 = Some d2"
    and "sh_in s = concat (map (MarshalCell b rnd) (cs1 @ cs2))"
  shows "(\<exists>s'. (shared_step aes)\<^sup>*\<^sup>* s s' \<and> sh_reqs s' g = Some (RReturned d1 None) \<and> sh_reqs s' h = Some (RReturned d2 None)) \<and>
     (\<exists>s'. (shared_step aes)\<^sup>*\<^sup>* s s' \<and> sh_reqs s' g = Some (RReturned d2 None) \<and> sh_reqs s' h = Some (RReturned d1 None))"
proof
  show "\<exists>s'. (shared_step aes)\<^sup>*\<^sup>* s s' \<and> sh_reqs s' g = Some (RReturned d1 None) \<and> sh_reqs s' h = Some (RReturned d2 None)"
    by (rule read_two_responses [OF assms])
  show "\<exists>s'. (shared_step aes)\<^sup>*\<^sup>* s s' \<and> sh_reqs s' g = Some (RReturned d2 None) \<and> sh_reqs s' h = Some (RReturned d1 None)"
    using read_two_responses [OF assms(2,1) assms(3) [symmetric] assms(4-8)] by blast
qed

lemma layered_cell_exists:
  assumes "length keys = 3" "list_all (\<lambda>k. length k = 32) keys" "length p \<le> 421"
  shows "\<exists>c. wf_cell c \<and> Command c = cmd \<and> peel_layers (Decrypt aes) keys (cell_data c) = Inr p"
proof -
  obtain w where w: "wrap_layers (Encrypt aes) (\<lambda>_ _. 1) keys p = Inr w"
    using gcm.wrap_defined [of keys aes "\<lambda>_ _. 1" p] assms(2) by auto
  have "length w \<le> CellBodyMax" using gcm.wrap_length [OF w] assms by simp
  then show ?thesis using gcm.peel_wrap [OF w]
    by (intro exI [of _ "mkCell 1 cmd (length w) w"]) (simp add: wf_mkCell)
qed

theorem shared_circuit_swaps_responses_witness:
  "\<exists>s s'. sh_reqs s = [0 \<mapsto> RWaiting [], 5 \<mapsto> RWaiting []] \<and> (shared_step (\<lambda>k b. b))\<^sup>*\<^sup>* s s' \<and>
     sh_reqs s' 0 = Some (RReturned [2] None) \<and> sh_reqs s' 5 = Some (RReturned [1] None)"
proof -
  let ?keys = "replicate 3 (replicate 32 (0 :: byte))" and ?aes = "\<lambda>(k :: bytes) (b :: 128 word). b"
  have k: "length ?keys = 3" "list_all (\<lambda>k. length k = 32) ?keys" by (simp_all add: list_all_iff)
  obtain e where e: "wf_cell e" "Command e = CmdRelayDone" "peel_layers (Decrypt ?aes) ?keys (cell_data e) = Inr [0]"
    using layered_cell_exists [OF k, of "[0]" CmdRelayDone ?aes] by auto
  have resp: "\<exists>cs. list_all wf_cell cs \<and> response_of ?aes ?keys cs = Some [d]" for d
  proof -
    obtain c where "wf_cell c" "Command c = CmdRelay" "peel_layers (Decrypt ?aes) ?keys (cell_data c) = Inr [d]"
      using layered_cell_exists [OF k, of "[d]" CmdRelay ?aes] by auto
    with e show ?thesis by (intro exI [of _ "[c, e]"]) (simp add: cmd_defs)
  qed
  obtain cs1 cs2 where cs: "list_all wf_cell cs1" "list_all wf_cell cs2" "response_of ?aes ?keys cs1 = Some [1]"
    "response_of ?aes ?keys cs2 = Some [2]" using resp by blast
  let ?s = "\<lparr>sh_keys = ?keys, sh_in = concat (map (MarshalCell 0 (\<lambda>_. 0)) (cs1 @ cs2)), sh_out = [],
      sh_reqs = [0 \<mapsto> RWaiting [], 5 \<mapsto> RWaiting []]\<rparr>"
  have "\<exists>s'. (shared_step ?aes)\<^sup>*\<^sup>* ?s s' \<and> sh_reqs s' 0 = Some (RReturned [2] None) \<and> sh_reqs s' 5 = Some (RReturned [1] None)"
    using shared_circuit_swaps_responses [of ?s 0 5 cs1 cs2 ?aes "[1]" "[2]" 0 "\<lambda>_. 0"] cs by simp
  moreover have "sh_reqs ?s = [0 \<mapsto> RWaiting [], 5 \<mapsto> RWaiting []]" by simp
  ultimately show ?thesis by blast
qed

section \<open>Concurrent use of the pool\<close>

text \<open>
  A circuit is a pointer. A request is before \<^verbatim>\<open>get\<close>, holds an expired circuit with its index, has a replacement
  that it still has to store, has a circuit to use, has a failed circuit with its rebuilt replacement, or is
  done. The rotation has taken the old circuits and closes them, builds the new ones one by one, or
  is at rest. A failed build leaves the goroutine where the source leaves it.
\<close>

datatype pool_user =
    UGet                       \<comment> \<open>at the start of \<^verbatim>\<open>send\<close>\<close>
  | UExpired nat nat           \<comment> \<open>index and circuit read by \<^verbatim>\<open>get\<close>, which has expired\<close>
  | UStore nat nat             \<comment> \<open>index and new circuit, after \<^verbatim>\<open>circ.close()\<close>\<close>
  | UUse nat                   \<comment> \<open>the first \<^verbatim>\<open>sendRequest\<close>\<close>
  | URetry nat nat             \<comment> \<open>failed circuit (closed) and its replacement\<close>
  | UUse2 nat                  \<comment> \<open>the second \<^verbatim>\<open>sendRequest\<close>\<close>
  | UDone

datatype rotation =
    RotIdle
  | RotClosing "nat list"      \<comment> \<open>old circuits still to close\<close>
  | RotBuilding nat "nat list" \<comment> \<open>builds tried, circuits built so far\<close>

record pool_state =
  ps_circuits :: "nat list"
  ps_ready :: bool
  ps_count :: nat
  ps_rots :: "nat \<Rightarrow> rotation" \<comment> \<open>the goroutines that call \<^verbatim>\<open>buildAll\<close>\<close>
  ps_users :: "nat \<rightharpoonup> pool_user"
  ps_built :: "nat set"        \<comment> \<open>circuits that exist\<close>
  ps_closed :: "nat set"

definition user_on :: "nat \<Rightarrow> pool_user \<Rightarrow> pool_state \<Rightarrow> pool_state" where
  "user_on g u s = s\<lparr>ps_users := (ps_users s)(g \<mapsto> u)\<rparr>"

fun replace_first :: "nat \<Rightarrow> nat \<Rightarrow> nat list \<Rightarrow> nat list" where
  \<comment> \<open>the loop of \<^verbatim>\<open>send\<close> that puts the new circuit in the place of the failed one\<close>
  "replace_first old new [] = []"
| "replace_first old new (c # cs) = (if c = old then new # cs else c # replace_first old new cs)"

inductive pool_get_step :: "pool_state \<Rightarrow> pool_state \<Rightarrow> bool" where
  call: "ps_users s g = None \<Longrightarrow> pool_get_step s (user_on g UGet s)"
| empty: "ps_users s g = Some UGet \<Longrightarrow> ps_circuits s = [] \<Longrightarrow> pool_get_step s (user_on g UDone s)"
| fresh: "ps_users s g = Some UGet \<Longrightarrow> idx < length (ps_circuits s) \<Longrightarrow> pool_get_step s (user_on g (UUse (ps_circuits s ! idx)) s)"
| stale: "ps_users s g = Some UGet \<Longrightarrow> idx < length (ps_circuits s) \<Longrightarrow>
     pool_get_step s (user_on g (UExpired idx (ps_circuits s ! idx)) s)"
| replace_failed: "ps_users s g = Some (UExpired idx c) \<Longrightarrow> pool_get_step s (user_on g (UUse c) s)"
| replaced: "ps_users s g = Some (UExpired idx c) \<Longrightarrow> new \<notin> ps_built s \<Longrightarrow>
     pool_get_step s (user_on g (UStore idx new) (s\<lparr>ps_built := insert new (ps_built s), ps_closed := insert c (ps_closed s)\<rparr>))"
| store: "ps_users s g = Some (UStore idx new) \<Longrightarrow>
     pool_get_step s (user_on g (UUse new)
       (s\<lparr>ps_circuits := (if idx < length (ps_circuits s) then (ps_circuits s)[idx := new] else ps_circuits s)\<rparr>))"

inductive pool_send_step :: "pool_state \<Rightarrow> pool_state \<Rightarrow> bool" where
  success: "ps_users s g = Some (UUse c) \<Longrightarrow> pool_send_step s (user_on g UDone s)"
| rebuild_failed: "ps_users s g = Some (UUse c) \<Longrightarrow> pool_send_step s (user_on g UDone s)"
| rebuilt: "ps_users s g = Some (UUse c) \<Longrightarrow> new \<notin> ps_built s \<Longrightarrow>
     pool_send_step s (user_on g (URetry c new) (s\<lparr>ps_built := insert new (ps_built s), ps_closed := insert c (ps_closed s)\<rparr>))"
| replace: "ps_users s g = Some (URetry c new) \<Longrightarrow>
     pool_send_step s (user_on g (UUse2 new) (s\<lparr>ps_circuits := replace_first c new (ps_circuits s)\<rparr>))"
| retried: "ps_users s g = Some (UUse2 c) \<Longrightarrow> pool_send_step s (user_on g UDone s)"

definition rot_on :: "nat \<Rightarrow> rotation \<Rightarrow> pool_state \<Rightarrow> pool_state" where
  "rot_on r x s = s\<lparr>ps_rots := (ps_rots s)(r := x)\<rparr>"

inductive pool_rotate_step :: "pool_state \<Rightarrow> pool_state \<Rightarrow> bool" where
  begin_rotation: "ps_rots s r = RotIdle \<Longrightarrow>
     pool_rotate_step s (rot_on r (RotClosing (ps_circuits s)) (s\<lparr>ps_circuits := []\<rparr>))"
| close_old: "ps_rots s r = RotClosing (c # cs) \<Longrightarrow>
     pool_rotate_step s (rot_on r (RotClosing cs) (s\<lparr>ps_closed := insert c (ps_closed s)\<rparr>))"
| all_closed: "ps_rots s r = RotClosing [] \<Longrightarrow> pool_rotate_step s (rot_on r (RotBuilding 0 []) s)"
| build_one: "ps_rots s r = RotBuilding i built \<Longrightarrow> i < ps_count s \<Longrightarrow> new \<notin> ps_built s \<Longrightarrow>
     pool_rotate_step s (rot_on r (RotBuilding (Suc i) (built @ [new])) (s\<lparr>ps_built := insert new (ps_built s)\<rparr>))"
| build_failed: "ps_rots s r = RotBuilding i built \<Longrightarrow> i < ps_count s \<Longrightarrow>
     pool_rotate_step s (rot_on r (RotBuilding (Suc i) built) s)"
| finish: "ps_rots s r = RotBuilding i built \<Longrightarrow> i = ps_count s \<Longrightarrow>
     pool_rotate_step s (rot_on r RotIdle (s\<lparr>ps_circuits := built, ps_ready := built \<noteq> []\<rparr>))"

inductive pool_step :: "pool_state \<Rightarrow> pool_state \<Rightarrow> bool" where
  get_step: "pool_get_step s s' \<Longrightarrow> pool_step s s'"
| send_step: "pool_send_step s s' \<Longrightarrow> pool_step s s'"
| rotate: "pool_rotate_step s s' \<Longrightarrow> pool_step s s'"

definition pool_init :: "nat \<Rightarrow> pool_state" where
  "pool_init n = \<lparr>ps_circuits = [], ps_ready = False, ps_count = n, ps_rots = (\<lambda>_. RotIdle), ps_users = Map.empty,
     ps_built = {}, ps_closed = {}\<rparr>"

definition user_active :: "pool_state \<Rightarrow> nat \<Rightarrow> bool" where
  "user_active s g \<longleftrightarrow> ps_users s g \<noteq> None \<and> ps_users s g \<noteq> Some UDone"

definition rot_active :: "pool_state \<Rightarrow> nat \<Rightarrow> bool" where
  "rot_active s r \<longleftrightarrow> ps_rots s r \<noteq> RotIdle"

definition at_rest :: "pool_state \<Rightarrow> bool" where
  \<comment> \<open>no request and no rotation is under way\<close>
  "at_rest s \<longleftrightarrow> (\<forall>g. \<not> user_active s g) \<and> (\<forall>r. \<not> rot_active s r)"

definition exclusive :: "pool_state \<Rightarrow> bool" where
  \<comment> \<open>at most one of them is under way\<close>
  "exclusive s \<longleftrightarrow> (\<forall>g h. user_active s g \<longrightarrow> user_active s h \<longrightarrow> g = h) \<and>
     (\<forall>r q. rot_active s r \<longrightarrow> rot_active s q \<longrightarrow> r = q) \<and> (\<forall>g r. user_active s g \<longrightarrow> \<not> rot_active s r)"

definition pool_shutdown :: "pool_state \<Rightarrow> pool_state" where
  \<comment> \<open>the last part of \<^verbatim>\<open>main\<close>: close every circuit of the pool\<close>
  "pool_shutdown s = s\<lparr>ps_closed := ps_closed s \<union> set (ps_circuits s)\<rparr>"

definition leaked :: "pool_state \<Rightarrow> nat set" where
  \<comment> \<open>circuits that nothing will ever close\<close>
  "leaked s = ps_built s - ps_closed (pool_shutdown s)"

inductive pool_run :: "(pool_state \<Rightarrow> bool) \<Rightarrow> nat \<Rightarrow> pool_state \<Rightarrow> bool" for P n where
  init: "pool_run P n (pool_init n)"
| step: "pool_run P n s \<Longrightarrow> pool_step s s' \<Longrightarrow> P s' \<Longrightarrow> pool_run P n s'"

lemma pool_on_simps [simp]:
  "ps_users (user_on g u s) = (ps_users s)(g \<mapsto> u)" "ps_circuits (user_on g u s) = ps_circuits s"
  "ps_rots (user_on g u s) = ps_rots s" "ps_built (user_on g u s) = ps_built s" "ps_closed (user_on g u s) = ps_closed s"
  "ps_count (user_on g u s) = ps_count s"
  "ps_users (rot_on r x s) = ps_users s" "ps_circuits (rot_on r x s) = ps_circuits s"
  "ps_rots (rot_on r x s) = (ps_rots s)(r := x)" "ps_built (rot_on r x s) = ps_built s" "ps_closed (rot_on r x s) = ps_closed s"
  "ps_count (rot_on r x s) = ps_count s"
  by (simp_all add: user_on_def rot_on_def)

section \<open>Without overlap no circuit is lost\<close>

fun user_inv :: "pool_state \<Rightarrow> pool_user \<Rightarrow> bool" where
  "user_inv s UGet = True"
| "user_inv s (UExpired idx c) = (idx < length (ps_circuits s) \<and> ps_circuits s ! idx = c)"
| "user_inv s (UStore idx new) = (idx < length (ps_circuits s) \<and> ps_circuits s ! idx \<in> ps_closed s)"
| "user_inv s (UUse c) = (c \<in> set (ps_circuits s))"
| "user_inv s (URetry c new) = (c \<in> set (ps_circuits s) \<and> c \<in> ps_closed s)"
| "user_inv s (UUse2 c) = True"
| "user_inv s UDone = True"

fun held :: "pool_user \<Rightarrow> nat set" where
  "held (UStore idx new) = {new}"
| "held (URetry c new) = {new}"
| "held _ = {}"

fun rot_held :: "rotation \<Rightarrow> nat set" where
  "rot_held RotIdle = {}"
| "rot_held (RotClosing cs) = set cs"
| "rot_held (RotBuilding i built) = set built"

definition safe :: "pool_state \<Rightarrow> nat set \<Rightarrow> bool" where
  \<comment> \<open>every circuit that exists is closed, in the pool or in the given set\<close>
  "safe s X \<longleftrightarrow> ps_built s \<subseteq> ps_closed s \<union> set (ps_circuits s) \<union> X"

definition kept :: "pool_state \<Rightarrow> bool" where
  "kept s \<longleftrightarrow>
     (\<forall>g u. ps_users s g = Some u \<longrightarrow> user_active s g \<longrightarrow> user_inv s u \<and> safe s (held u)) \<and>
     (\<forall>r. rot_active s r \<longrightarrow> ps_circuits s = [] \<and> safe s (rot_held (ps_rots s r))) \<and>
     (at_rest s \<longrightarrow> safe s {})"

lemma kept_userI:
  assumes "\<forall>h. h \<noteq> g \<longrightarrow> \<not> user_active s h" "\<forall>r. \<not> rot_active s r" "ps_users s g = Some u" "user_inv s u" "safe s (held u)"
  shows "kept s"
proof -
  have "h = g" if "user_active s h" for h using assms(1) that by blast
  moreover have "safe s {}" if "\<not> user_active s g" using assms(3,5) that by (auto simp: user_active_def)
  ultimately show ?thesis using assms(2-5) unfolding kept_def at_rest_def by (metis option.inject)
qed

lemma kept_rotI:
  assumes "\<forall>g. \<not> user_active s g" "\<forall>q. q \<noteq> r \<longrightarrow> \<not> rot_active s q" "rot_active s r \<longrightarrow> ps_circuits s = []" "safe s (rot_held (ps_rots s r))"
  shows "kept s"
proof -
  have "safe s {}" if "ps_rots s r = RotIdle" using assms(4) that by simp
  moreover have "q = r" if "rot_active s q" for q using assms(2) that by blast
  ultimately show ?thesis using assms unfolding kept_def at_rest_def rot_active_def by metis
qed

lemma replace_first_set: "old \<in> set cs \<Longrightarrow> insert new (set cs - {old}) \<subseteq> set (replace_first old new cs)"
  by (induction cs) auto

lemma set_update_keeps: "i < length cs \<Longrightarrow> insert x (set cs - {cs ! i}) \<subseteq> set (cs[i := x])"
proof
  fix y assume i: "i < length cs" and y: "y \<in> insert x (set cs - {cs ! i})"
  show "y \<in> set (cs[i := x])"
  proof (cases "y = x")
    case True
    with i show ?thesis by (simp add: set_update_memI)
  next
    case False
    with y obtain j where "j < length cs" "cs ! j = y" "j \<noteq> i" by (auto simp: in_set_conv_nth)
    then show ?thesis by (metis length_list_update nth_list_update_neq nth_mem)
  qed
qed

text \<open>One user or one rotation moves while nothing else is under way.\<close>

lemma user_alone:
  assumes "exclusive s" "user_active s g" "kept s" "ps_users s g = Some u"
  shows "\<forall>h. h \<noteq> g \<longrightarrow> \<not> user_active s h" "\<forall>r. \<not> rot_active s r" "user_inv s u" "safe s (held u)"
  using assms unfolding exclusive_def kept_def by blast+

lemma rot_alone:
  assumes "exclusive s" "rot_active s r" "kept s"
  shows "\<forall>g. \<not> user_active s g" "\<forall>q. q \<noteq> r \<longrightarrow> \<not> rot_active s q" "ps_circuits s = []" "safe s (rot_held (ps_rots s r))"
  using assms unfolding exclusive_def kept_def by blast+

lemma kept_move:
  assumes "exclusive s" "kept s" "ps_users s g = Some u" "u \<noteq> UDone"
    and "user_inv s u \<Longrightarrow> safe s (held u) \<Longrightarrow> user_inv s' v \<and> safe s' (held v)"
    and "ps_users s' = (ps_users s)(g \<mapsto> v)" "ps_rots s' = ps_rots s"
  shows "kept s'"
proof -
  have act: "user_active s g" using assms(3,4) by (simp add: user_active_def)
  note a = user_alone [OF assms(1) act assms(2,3)]
  show ?thesis
  proof (rule kept_userI [of g s' v])
    show "\<forall>h. h \<noteq> g \<longrightarrow> \<not> user_active s' h" using a(1) assms(6) by (simp add: user_active_def)
    show "\<forall>r. \<not> rot_active s' r" using a(2) assms(7) by (simp add: rot_active_def)
    show "user_inv s' v" "safe s' (held v)" using assms(5) [OF a(3,4)] by blast+
  qed (simp add: assms(6))
qed

lemma kept_user_on:
  assumes "exclusive s" "kept s" "ps_users s g = Some u" "u \<noteq> UDone"
    and "user_inv s u \<Longrightarrow> safe s (held u) \<Longrightarrow> user_inv (user_on g v s) v \<and> safe (user_on g v s) (held v)"
  shows "kept (user_on g v s)"
  by (rule kept_move [OF assms]) simp_all

lemma kept_turn:
  assumes "exclusive s" "kept s" "rot_active s r"
    and "ps_circuits s = [] \<Longrightarrow> safe s (rot_held (ps_rots s r)) \<Longrightarrow> (x \<noteq> RotIdle \<longrightarrow> ps_circuits s' = []) \<and> safe s' (rot_held x)"
    and "ps_users s' = ps_users s" "ps_rots s' = (ps_rots s)(r := x)"
  shows "kept s'"
proof -
  note a = rot_alone [OF assms(1,3,2)]
  show ?thesis
  proof (rule kept_rotI [of s' r])
    show "\<forall>g. \<not> user_active s' g" using a(1) assms(5) by (simp add: user_active_def)
    show "\<forall>q. q \<noteq> r \<longrightarrow> \<not> rot_active s' q" using a(2) assms(6) by (simp add: rot_active_def)
    show "rot_active s' r \<longrightarrow> ps_circuits s' = []" "safe s' (rot_held (ps_rots s' r))"
      using assms(4) [OF a(3,4)] assms(6) by (simp_all add: rot_active_def)
  qed
qed

lemma kept_get_step:
  assumes "pool_get_step s s'" "exclusive s" "exclusive s'" "kept s"
  shows "kept s'"
  using assms(1)
proof cases
  case (call g)
  have act: "user_active s' g" using call by (simp add: user_active_def)
  have idle: "\<forall>h. h \<noteq> g \<longrightarrow> \<not> user_active s' h" "\<forall>r. \<not> rot_active s' r"
    using assms(3) act unfolding exclusive_def by blast+
  have "\<not> user_active s h" for h using idle(1) call by (cases "h = g") (auto simp: user_active_def)
  then have "at_rest s" using idle(2) call by (simp add: at_rest_def rot_active_def)
  then have "safe s {}" using assms(4) by (simp add: kept_def)
  then show ?thesis using idle call by (intro kept_userI [of g s' UGet]) (simp_all add: safe_def)
next
  case (replaced g idx c new)
  show ?thesis
    by (rule kept_move [OF assms(2,4) replaced(2)]) (use replaced in \<open>auto simp: safe_def\<close>)
next
  case (store g idx new)
  have "safe s' {}" if "user_inv s (UStore idx new)" "safe s {new}"
    using that set_update_keeps [of idx "ps_circuits s" new] store(1) by (auto simp: safe_def)
  moreover have "new \<in> set (ps_circuits s')" if "user_inv s (UStore idx new)"
    using that store(1) by (simp add: set_update_memI)
  ultimately show ?thesis
    by (intro kept_move [OF assms(2,4) store(2)]) (use store in auto)
qed (simp only:, rule kept_user_on [OF assms(2,4)], assumption, simp, force simp: safe_def)+

lemma kept_send_step:
  assumes "pool_send_step s s'" "exclusive s" "kept s"
  shows "kept s'"
  using assms(1)
proof cases
  case (rebuilt g c new)
  show ?thesis
    by (rule kept_move [OF assms(2,3) rebuilt(2)]) (use rebuilt in \<open>auto simp: safe_def\<close>)
next
  case (replace g c new)
  have "safe s' {}" if "user_inv s (URetry c new)" "safe s {new}"
    using that replace_first_set [of c "ps_circuits s" new] replace(1) by (auto simp: safe_def)
  then show ?thesis
    by (intro kept_move [OF assms(2,3) replace(2)]) (use replace in auto)
qed (simp only:, rule kept_user_on [OF assms(2,3)], assumption, simp, force simp: safe_def)+

lemma kept_rotate_step:
  assumes "pool_rotate_step s s'" "exclusive s" "exclusive s'" "kept s"
  shows "kept s'"
  using assms(1)
proof cases
  case (begin_rotation r)
  have act: "rot_active s' r" using begin_rotation by (simp add: rot_active_def)
  have idle: "\<forall>g. \<not> user_active s' g" "\<forall>q. q \<noteq> r \<longrightarrow> \<not> rot_active s' q"
    using assms(3) act unfolding exclusive_def by blast+
  then have "at_rest s" using begin_rotation by (auto simp: at_rest_def user_active_def rot_active_def)
  then have "safe s {}" using assms(4) by (simp add: kept_def)
  then show ?thesis using idle begin_rotation by (intro kept_rotI [of s' r]) (simp_all add: safe_def)
qed (rule kept_turn [OF assms(2,4)]; auto simp: safe_def rot_active_def)+

lemma kept_run: "pool_run exclusive n s \<Longrightarrow> exclusive s \<and> kept s"
proof (induction rule: pool_run.induct)
  case init
  show ?case by (simp add: exclusive_def kept_def pool_init_def user_active_def rot_active_def safe_def)
next
  case (step s s')
  from step(2) have "kept s'"
    using step(3,4) by cases (auto intro: kept_get_step kept_send_step kept_rotate_step)
  with step(3) show ?case by blast
qed

section \<open>With overlap circuits are lost\<close>

lemma pool_run_steps: "pool_step\<^sup>*\<^sup>* s s' \<Longrightarrow> pool_run (\<lambda>_. True) n s \<Longrightarrow> pool_run (\<lambda>_. True) n s'"
  by (induction rule: rtranclp_induct) (auto intro: pool_run.step)

lemma rotation_closes:
  "ps_rots s r = RotClosing cs \<Longrightarrow>
   pool_step\<^sup>*\<^sup>* s (rot_on r (RotBuilding 0 []) (s\<lparr>ps_closed := ps_closed s \<union> set cs\<rparr>))"
proof (induction cs arbitrary: s)
  case Nil
  then have "pool_step s (rot_on r (RotBuilding 0 []) s)" by (intro pool_step.rotate pool_rotate_step.all_closed)
  then show ?case by (simp add: rot_on_def r_into_rtranclp)
next
  case (Cons c cs)
  let ?s = "rot_on r (RotClosing cs) (s\<lparr>ps_closed := insert c (ps_closed s)\<rparr>)"
  have 1: "pool_step s ?s" by (intro pool_step.rotate pool_rotate_step.close_old Cons.prems)
  have 2: "pool_step\<^sup>*\<^sup>* ?s (rot_on r (RotBuilding 0 []) (?s\<lparr>ps_closed := ps_closed ?s \<union> set cs\<rparr>))"
    by (rule Cons.IH) simp
  have eq: "rot_on r (RotBuilding 0 []) (?s\<lparr>ps_closed := ps_closed ?s \<union> set cs\<rparr>) =
      rot_on r (RotBuilding 0 []) (s\<lparr>ps_closed := ps_closed s \<union> set (c # cs)\<rparr>)"
    by (simp add: rot_on_def)
  show ?case using converse_rtranclp_into_rtranclp [of pool_step, OF 1 2] unfolding eq .
qed

lemma rotation_fails_rest:
  "ps_rots s r = RotBuilding i built \<Longrightarrow> i \<le> ps_count s \<Longrightarrow>
   pool_step\<^sup>*\<^sup>* s (rot_on r (RotBuilding (ps_count s) built) s)"
proof (induction "ps_count s - i" arbitrary: s i)
  case 0
  then have "rot_on r (RotBuilding (ps_count s) built) s = s" by (simp add: rot_on_def fun_upd_idem)
  then show ?case by simp
next
  case (Suc k)
  let ?s = "rot_on r (RotBuilding (Suc i) built) s"
  have "pool_step s ?s" using Suc.hyps(2) Suc.prems(1) by (intro pool_step.rotate pool_rotate_step.build_failed) auto
  moreover have "pool_step\<^sup>*\<^sup>* ?s (rot_on r (RotBuilding (ps_count ?s) built) ?s)"
    by (rule Suc.hyps(1)) (use Suc.hyps(2) in auto)
  moreover have "rot_on r (RotBuilding (ps_count ?s) built) ?s = rot_on r (RotBuilding (ps_count s) built) s"
    by (simp add: rot_on_def)
  ultimately show ?case by (metis converse_rtranclp_into_rtranclp)
qed

definition rotated :: "nat \<Rightarrow> pool_state \<Rightarrow> pool_state" where
  \<comment> \<open>after a rotation whose first build gave the circuit \<open>new\<close> and whose other builds failed\<close>
  "rotated new s = s\<lparr>ps_circuits := [new], ps_ready := True, ps_built := insert new (ps_built s),
     ps_closed := ps_closed s \<union> set (ps_circuits s)\<rparr>"

lemma rotation_run:
  assumes "ps_rots s r = RotIdle" "0 < ps_count s" "new \<notin> ps_built s"
  shows "pool_step\<^sup>*\<^sup>* s (rotated new s)"
proof -
  let ?s1 = "rot_on r (RotClosing (ps_circuits s)) (s\<lparr>ps_circuits := []\<rparr>)"
  let ?s2 = "rot_on r (RotBuilding 0 []) (?s1\<lparr>ps_closed := ps_closed ?s1 \<union> set (ps_circuits s)\<rparr>)"
  let ?s3 = "rot_on r (RotBuilding (Suc 0) ([] @ [new])) (?s2\<lparr>ps_built := insert new (ps_built ?s2)\<rparr>)"
  let ?s4 = "rot_on r (RotBuilding (ps_count ?s3) [new]) ?s3"
  let ?s5 = "rot_on r RotIdle (?s4\<lparr>ps_circuits := [new], ps_ready := [new] \<noteq> []\<rparr>)"
  have 1: "pool_step s ?s1" by (intro pool_step.rotate pool_rotate_step.begin_rotation assms(1))
  have 2: "pool_step\<^sup>*\<^sup>* ?s1 ?s2" by (rule rotation_closes) simp
  have 3: "pool_step ?s2 ?s3" using assms(2,3) by (intro pool_step.rotate pool_rotate_step.build_one) simp_all
  have 4: "pool_step\<^sup>*\<^sup>* ?s3 ?s4" by (rule rotation_fails_rest) (use assms(2) in \<open>auto simp: Suc_le_eq\<close>)
  have 5: "pool_step ?s4 ?s5" by (intro pool_step.rotate pool_rotate_step.finish) simp_all
  have "pool_step\<^sup>*\<^sup>* s ?s5" using 1 2 3 4 5 by (meson converse_rtranclp_into_rtranclp rtranclp.rtrancl_into_rtrancl rtranclp_trans)
  moreover have "?s5 = rotated new s" using assms(1) by (simp add: rot_on_def rotated_def fun_upd_idem)
  ultimately show ?thesis by simp
qed

lemma overlap_leaks:
  assumes "0 < n"
  shows "\<exists>s. pool_run (\<lambda>_. True) n s \<and> at_rest s \<and> leaked s = {2}"
proof -
  let ?a = "rotated 0 (pool_init n)"
  let ?b = "user_on 0 (UExpired 0 0) (user_on 0 UGet ?a)"
  let ?c = "user_on 0 (UStore 0 1) (?b\<lparr>ps_built := insert 1 (ps_built ?b), ps_closed := insert 0 (ps_closed ?b)\<rparr>)"
  let ?d = "rotated 2 ?c"
  let ?e = "user_on 0 (UUse 1) (?d\<lparr>ps_circuits := (if 0 < length (ps_circuits ?d) then (ps_circuits ?d)[0 := 1] else ps_circuits ?d)\<rparr>)"
  let ?f = "user_on 0 UDone ?e"
  have a: "pool_step\<^sup>*\<^sup>* (pool_init n) ?a" using assms by (intro rotation_run [of _ 0]) (simp_all add: pool_init_def)
  have "pool_step ?a (user_on 0 UGet ?a)"
    by (intro pool_step.get_step pool_get_step.call) (simp add: rotated_def pool_init_def)
  moreover have "pool_step (user_on 0 UGet ?a) ?b"
    using pool_get_step.stale [of "user_on 0 UGet ?a" 0 0] by (intro pool_step.get_step) (simp add: rotated_def)
  moreover have "pool_step ?b ?c"
    by (intro pool_step.get_step pool_get_step.replaced [where c = 0]) (simp_all add: rotated_def pool_init_def)
  ultimately have c: "pool_step\<^sup>*\<^sup>* ?a ?c" by (meson converse_rtranclp_into_rtranclp r_into_rtranclp)
  have d: "pool_step\<^sup>*\<^sup>* ?c ?d" using assms by (intro rotation_run [of _ 0]) (simp_all add: rotated_def pool_init_def)
  have e: "pool_step ?d ?e" by (intro pool_step.get_step pool_get_step.store) (simp add: rotated_def)
  have f: "pool_step ?e ?f" by (intro pool_step.send_step pool_send_step.success [where c = 1]) simp
  have "pool_step\<^sup>*\<^sup>* (pool_init n) ?f"
    using a c d e f by (meson rtranclp.rtrancl_into_rtrancl rtranclp_trans)
  from pool_run_steps [OF this pool_run.init] have "pool_run (\<lambda>_. True) n ?f" .
  moreover have "at_rest ?f" "leaked ?f = {2}"
    by (auto simp: at_rest_def user_active_def rot_active_def leaked_def pool_shutdown_def rotated_def pool_init_def)
  ultimately show ?thesis by blast
qed

text \<open>
  C35: The pool loses circuits exactly when its operations overlap. If every request and every rotation finishes before
  the next one starts, then at rest every circuit that was ever built is closed or in the pool, so the
  shutdown closes all of them. When a rotation runs between the replacement of an expired circuit and its
  store, the store overwrites a circuit of the new generation: its connection is never closed, not
  even at shutdown.
\<close>

theorem pool_loses_circuits_iff_overlap:
  "(pool_run exclusive n s \<longrightarrow> at_rest s \<longrightarrow> leaked s = {}) \<and>
   (0 < n \<longrightarrow> (\<exists>s. pool_run (\<lambda>_. True) n s \<and> at_rest s \<and> leaked s \<noteq> {}))"
proof -
  have "leaked s = {}" if "pool_run exclusive n s" "at_rest s"
    using kept_run [OF that(1)] that(2) by (auto simp: kept_def safe_def leaked_def pool_shutdown_def)
  moreover have "\<exists>s. pool_run (\<lambda>_. True) n s \<and> at_rest s \<and> leaked s \<noteq> {}" if "0 < n"
    using overlap_leaks [OF that] by auto
  ultimately show ?thesis by blast
qed

theorem pool_loses_circuits_iff_overlap_witness:
  "leaked (pool_init 3) = {} \<and> (\<exists>s. pool_run (\<lambda>_. True) 3 s \<and> at_rest s \<and> leaked s \<noteq> {})"
proof -
  have "at_rest (pool_init 3)" by (simp add: at_rest_def user_active_def rot_active_def pool_init_def)
  with pool_loses_circuits_iff_overlap [of 3 "pool_init 3"] pool_run.init [of exclusive 3] show ?thesis by simp
qed

end
