(* ===== verification/Startup.thy ===== *)
theory Startup
  imports Relay Bridge Broker Kind_Session Client_Proxy Client_Shared Server
begin

text \<open>
  The \<^verbatim>\<open>main\<close> functions: how each binary reads its configuration, what is fatal, which listeners, routes and
  background goroutines it starts, and what the client closes when it stops. (\<^verbatim>\<open>main\<close> of the bridge is \<open>bridge_main\<close>
  in theory \<open>Bridge\<close>, the accept loop is in theory \<open>Server\<close>.) Reading YAML and binding a port are arguments. The last
  part is the bridge as a process: start-up, accept loop, sessions and consensus refreshes.
\<close>

section \<open>Configuration files\<close>

datatype startup_error = ParseConfig string | NoSecret | KeyFailed | ListenError string

definition read_config ::
  "(bytes \<Rightarrow> 'c option) \<Rightarrow> (string \<Rightarrow> string) \<Rightarrow> string \<Rightarrow> filesystem \<Rightarrow> startup_error + 'c option" where
  \<comment> \<open>the first part of every \<^verbatim>\<open>loadConfig\<close>: the file named by \<^verbatim>\<open>SBNET_CONFIG\<close> or the default one; a missing
      file is not an error, an unreadable one is fatal\<close>
  "read_config yaml env dflt_path fs =
     (let path = (if env ''SBNET_CONFIG'' \<noteq> '''' then env ''SBNET_CONFIG'' else dflt_path) in
      case fs path of
        None \<Rightarrow> Inr None
      | Some data \<Rightarrow> (case yaml data of None \<Rightarrow> Inl (ParseConfig path) | Some c \<Rightarrow> Inr (Some c)))"

section \<open>HTTP servers\<close>

record http_server =
  hs_addr :: string
  hs_tls :: "(string \<times> string) option"   \<comment> \<open>certificate and key of \<^verbatim>\<open>ListenAndServeTLS\<close>\<close>
  hs_readTimeout :: int                    \<comment> \<open>durations in nanoseconds, 0 is no limit\<close>
  hs_writeTimeout :: int
  hs_idleTimeout :: int

definition seconds :: "int \<Rightarrow> int" where
  "seconds n = n * 1000000000"

definition tls_pair :: "string \<Rightarrow> string \<Rightarrow> (string \<times> string) option" where
  "tls_pair cert key = (if cert \<noteq> '''' \<and> key \<noteq> '''' then Some (cert, key) else None)"

definition directory_main ::
  "(bytes \<Rightarrow> DirectoryConfig option) \<Rightarrow> (string \<Rightarrow> string) \<Rightarrow> DirectoryConfig \<Rightarrow> (bytes \<Rightarrow> bool) \<Rightarrow> bytes \<times> bytes \<Rightarrow> bool \<Rightarrow>
   filesystem \<Rightarrow> (startup_error + 'lim directoryServer \<times> http_server) \<times> filesystem" where
  "directory_main yaml env zero pem_ok gen wfail fs =
     (case read_config yaml env ''directory.yaml'' fs of
        Inl e \<Rightarrow> (Inl e, fs)
      | Inr file \<Rightarrow>
          (case dir_loadConfig file zero env of
             None \<Rightarrow> (Inl NoSecret, fs)
           | Some cfg \<Rightarrow>
               (case newServer pem_ok gen wfail cfg fs of
                  (None, fs') \<Rightarrow> (Inl KeyFailed, fs')
                | (Some srv, fs') \<Rightarrow>
                    (Inr (srv, \<lparr>hs_addr = dc_ListenAddr cfg, hs_tls = tls_pair (dc_TLSCert cfg) (dc_TLSKey cfg),
                       hs_readTimeout = seconds 15, hs_writeTimeout = seconds 15, hs_idleTimeout = seconds 60\<rparr>), fs'))))"

datatype broker_route = RouteAssign | RouteValidate | RouteHealth | RouteKindConnect | RouteKindPoll | RouteKindAnswer | RouteKindInfo

definition broker_mux :: "string \<rightharpoonup> broker_route" where
  \<comment> \<open>patterns without a trailing slash match exactly\<close>
  "broker_mux = map_of [(''/assign'', RouteAssign), (''/validate'', RouteValidate), (''/health'', RouteHealth),
     (''/kind/connect'', RouteKindConnect), (''/kind/poll'', RouteKindPoll), (''/kind/answer'', RouteKindAnswer),
     (''/kind/info'', RouteKindInfo)]"

definition broker_main ::
  "(bytes \<Rightarrow> BrokerConfig option) \<Rightarrow> (string \<Rightarrow> string) \<Rightarrow> BrokerConfig \<Rightarrow> bytes \<times> bytes \<Rightarrow> bool \<Rightarrow>
   filesystem \<Rightarrow> (startup_error + brokerServer \<times> http_server) \<times> filesystem" where
  "broker_main yaml env zero gen wfail fs =
     (case read_config yaml env ''broker.yaml'' fs of
        Inl e \<Rightarrow> (Inl e, fs)
      | Inr file \<Rightarrow>
          let cfg = broker_loadConfig file zero env in
          case newBrokerServer gen wfail cfg fs of
            (None, fs') \<Rightarrow> (Inl KeyFailed, fs')
          | (Some srv, fs') \<Rightarrow>
              (Inr (srv, \<lparr>hs_addr = '':'' @ dec_int (bc_Port cfg), hs_tls = tls_pair (bc_TLSCert cfg) (bc_TLSKey cfg),
                 hs_readTimeout = seconds 15, hs_writeTimeout = seconds 15, hs_idleTimeout = seconds 60\<rparr>), fs'))"

definition relay_main ::
  "(bytes \<Rightarrow> RelayConfig option) \<Rightarrow> (string \<Rightarrow> string) \<Rightarrow> RelayConfig \<Rightarrow> scalar_mult \<Rightarrow> (nat \<Rightarrow> byte) \<Rightarrow> bool \<Rightarrow> (string \<Rightarrow> bool) \<Rightarrow>
   filesystem \<Rightarrow> (startup_error + relayServer \<times> string \<times> http_server) \<times> filesystem" where
  \<comment> \<open>the server, the address it serves and its health server\<close>
  "relay_main yaml env zero sm rnd wfail listen fs =
     (case read_config yaml env ''relay.yaml'' fs of
        Inl e \<Rightarrow> (Inl e, fs)
      | Inr file \<Rightarrow>
          let cfg = relay_loadConfig file zero in
          case newRelayServer sm rnd wfail cfg fs of
            (Inl e, fs') \<Rightarrow> (Inl KeyFailed, fs')
          | (Inr srv, fs') \<Rightarrow>
              let addr = '':'' @ dec_int (rc_Port cfg) in
              if \<not> listen addr then (Inl (ListenError addr), fs')
              else (Inr (srv, addr, \<lparr>hs_addr = '':'' @ dec_int (rc_HealthPort cfg), hs_tls = None,
                      hs_readTimeout = seconds 5, hs_writeTimeout = 0, hs_idleTimeout = 0\<rparr>), fs'))"

datatype health_reply = HealthJSON "string \<times> string \<times> string \<times> nat \<times> string" | Pong string | NotFound

definition runHealthServer :: "string \<Rightarrow> relayServer \<Rightarrow> health_reply" where
  "runHealthServer path s =
     (if path = ''/health'' then HealthJSON (relay_health s)
      else if path = ''/ping'' then Pong ''pong''
      else NotFound)"

definition kind_main ::
  "(bytes \<Rightarrow> KindConfig option) \<Rightarrow> (string \<Rightarrow> string) \<Rightarrow> KindConfig \<Rightarrow> (string \<Rightarrow> string list option option) \<Rightarrow> filesystem \<Rightarrow>
   startup_error + kindProxy \<times> int \<times> nat" where
  \<comment> \<open>the proxy, the timeout of its HTTP client and the number of workers\<close>
  "kind_main yaml env zero get fs =
     (case read_config yaml env ''kind.yaml'' fs of
        Inl e \<Rightarrow> Inl e
      | Inr file \<Rightarrow>
          let cfg = kind_loadConfig file zero env in
          Inr (newKindProxy get cfg, seconds 35, nat (kc_Capacity cfg)))"

section \<open>The client\<close>

record 'n client_process =
  cm_pool :: "'n CircuitPool"
  cm_socks :: string                       \<comment> \<open>address of \<^verbatim>\<open>runSOCKS5\<close>\<close>
  cm_http :: http_server
  cm_rotate :: "int option"                \<comment> \<open>interval of the rotation; none in bridge mode\<close>

definition client_main ::
  "(bytes \<Rightarrow> ClientConfig option) \<Rightarrow> (string \<Rightarrow> string) \<Rightarrow> ClientConfig \<Rightarrow> filesystem \<Rightarrow> startup_error + 'n client_process" where
  \<comment> \<open>what is started at once; the circuits are built in the background (\<open>client_startup\<close>)\<close>
  "client_main yaml env zero fs =
     (case read_config yaml env ''client.yaml'' fs of
        Inl e \<Rightarrow> Inl e
      | Inr file \<Rightarrow>
          let cfg = client_loadConfig file zero env in
          Inr \<lparr>cm_pool = newCircuitPool cfg, cm_socks = cc_SOCKS5Addr cfg,
               cm_http = \<lparr>hs_addr = cc_HTTPProxyAddr cfg, hs_tls = None, hs_readTimeout = 0, hs_writeTimeout = 0, hs_idleTimeout = 0\<rparr>,
               cm_rotate = (if cc_BridgeURI cfg = '''' then Some (int64 (cc_CircuitRotateSecs cfg * 1000000000)) else None)\<rparr>)"

definition client_shutdown :: "'n transport \<Rightarrow> 'n CircuitPool \<Rightarrow> 'n CircuitPool" where
  \<comment> \<open>the end of \<^verbatim>\<open>main\<close>: every circuit of the pool is closed\<close>
  "client_shutdown tr p = p\<lparr>cp_closed := cp_closed p @ map (close_circuit tr) (cp_circuits p)\<rparr>"

section \<open>What a running binary has\<close>

text \<open>
  A binary that gets as far as serving keeps its start-up contract. The directory has a non-empty registration secret,
  empty tables, a stored key, and TLS exactly when certificate and key are configured; the broker starts with no tokens and
  an empty rendezvous of capacity 64, and its general write timeout is shorter than the long-poll waits, which is why the
  rendezvous handlers extend it (\<open>long_poll_within_deadline\<close>); the relay is in an initial state of its step
  relation and has bound its port; the volunteer's HTTP timeout outlasts the broker's poll wait.
\<close>

lemma directory_main_Inr:
  assumes "directory_main yaml env zero pem_ok gen wfail fs = (Inr (srv, h), fs')"
  shows "dc_RegSecret (ds_cfg srv) \<noteq> '''' \<and> ds_relays srv = Map.empty \<and> ds_brokers srv = Map.empty \<and>
     (hs_tls h = None \<longleftrightarrow> dc_TLSCert (ds_cfg srv) = '''' \<or> dc_TLSKey (ds_cfg srv) = '''') \<and>
     fs' (dc_KeyFile (ds_cfg srv)) \<noteq> None"
proof -
  obtain parsed cfg where cfg: "dir_loadConfig parsed zero env = Some cfg" "newServer pem_ok gen wfail cfg fs = (Some srv, fs')"
    and h: "hs_tls h = tls_pair (dc_TLSCert cfg) (dc_TLSKey cfg)"
    using assms by (auto simp: directory_main_def split: sum.splits option.splits prod.splits)
  have "ds_cfg srv = cfg" "ds_relays srv = Map.empty" "ds_brokers srv = Map.empty" "fs' (dc_KeyFile cfg) \<noteq> None"
    using cfg(2) by (auto simp: newServer_def LoadOrCreateEd25519_def read_hex_key_def Let_def split: prod.splits sum.splits option.splits if_splits)
  then show ?thesis using dir_loadConfig_secret [OF cfg(1)] h by (simp add: tls_pair_def)
qed

lemma broker_main_Inr:
  assumes "broker_main yaml env zero gen wfail fs = (Inr (srv, h), fs')"
  shows "bk_tokens srv = newTokenStore \<and> kr_cap (bk_kind srv) = 64 \<and> kr_offers (bk_kind srv) = [] \<and>
     hs_writeTimeout h < kindConnectWait \<and> hs_writeTimeout h < kindPollWait"
  using assms
  by (auto simp: broker_main_def newBrokerServer_def newKindRendezvous_def kindConnectWait_def kindPollWait_def seconds_def Let_def
      split: sum.splits prod.splits)

lemma relay_main_Inr:
  assumes "relay_main yaml env zero sm rnd wfail listen fs = (Inr (srv, addr, h), fs')"
  shows "relay_reachable srv \<and> listen addr \<and> addr = '':'' @ dec_int (rc_Port (rs_cfg srv)) \<and> rs_circuits srv = Map.empty"
proof -
  obtain cfg where n: "newRelayServer sm rnd wfail cfg fs = (Inr srv, fs')" and l: "listen addr" "addr = '':'' @ dec_int (rc_Port cfg)"
    using assms by (auto simp: relay_main_def Let_def split: sum.splits prod.splits if_splits)
  have "rs_cfg srv = cfg" "rs_circuits srv = Map.empty"
    using n by (auto simp: newRelayServer_def Let_def split: prod.splits sum.splits)
  then show ?thesis using relay_reachable.start [OF n] l by simp
qed

lemma kind_main_Inr:
  assumes "kind_main yaml env zero get fs = Inr (k, timeout, workers)"
  shows "kindPollWait < timeout \<and> kx_entries k = [] \<and> workers = nat (kc_Capacity (kx_cfg k))"
  using assms by (auto simp: kind_main_def newKindProxy_def kindPollWait_def seconds_def Let_def split: sum.splits)

section \<open>Accept loops of the bridge and the SOCKS5 proxy\<close>

definition runSOCKS5 :: "(string \<Rightarrow> bool) \<Rightarrow> string \<Rightarrow> bytes serving option" where
  \<comment> \<open>the accept loop \<open>serve_step\<close>, whose connections are the inputs of \<open>handleSOCKS5Conn\<close>; \<open>None\<close> if the port
      cannot be bound\<close>
  "runSOCKS5 listen addr = (if listen addr then Some serve_start else None)"

record bridge_proc =
  bp_srv :: bridgeServer
  bp_serve :: "conn serving"
  bp_sessions :: "(bridge_env \<times> conn \<times> bridge_event list) list"   \<comment> \<open>the sessions in the order they were accepted, and what they did\<close>

text \<open>\<open>verify\<close> is \<^verbatim>\<open>ed25519.Verify\<close>; the certificates, files, directory responses and clock may differ at every fetch.\<close>

inductive bridge_run_step :: "verifier \<Rightarrow> bridge_proc \<Rightarrow> bridge_proc \<Rightarrow> bool" for verify where
  loop: "serve_step (bp_serve p) None sv \<Longrightarrow> bridge_run_step verify p (p\<lparr>bp_serve := sv\<rparr>)"
| accept: "serve_step (bp_serve p) (Some c) sv \<Longrightarrow>
     bridge_run_step verify p (p\<lparr>bp_serve := sv, bp_sessions := bp_sessions p @ [(env, c, handleClientConn env (bp_srv p) c)]\<rparr>)"
| refresh: "bridge_run_step verify p
     (p\<lparr>bp_srv := refreshForeignConsensus (FetchVerifiedConsensus pem_ok fs get decode verify now) (bp_srv p)\<rparr>)"

inductive bridge_run :: "verifier \<Rightarrow> BridgeServerConfig \<Rightarrow> bridge_proc \<Rightarrow> bool" for verify cfg where
  start: "bridge_main parse socks (FetchVerifiedConsensus pem_ok fs get decode verify now) keypair listen cfg = Inr (srv, dialer, lsn) \<Longrightarrow>
     bridge_run verify cfg \<lparr>bp_srv = srv, bp_serve = serve_start, bp_sessions = []\<rparr>"
| step: "bridge_run verify cfg p \<Longrightarrow> bridge_run_step verify p p' \<Longrightarrow> bridge_run verify cfg p'"

definition signed_consensus :: "verifier \<Rightarrow> SignedConsensus \<Rightarrow> bool" where
  "signed_consensus verify d \<longleftrightarrow>
     (\<exists>pub sig. length pub = 32 \<and> hex_decode (sc_Signature d) = Some sig \<and> verify pub (bytes_of (sc_RelaysJSON d @ sc_BrokersJSON d)) sig)"

definition foreign_relay :: "verifier \<Rightarrow> RelayDescriptor \<Rightarrow> bool" where
  "foreign_relay verify r \<longleftrightarrow> (\<exists>d. signed_consensus verify d \<and> r \<in> set (sc_Relays d))"

lemma fetch_signed:
  "FetchVerifiedConsensus pem_ok fs get decode verify now url ca = Inr d \<Longrightarrow> signed_consensus verify d"
  unfolding FetchVerified_Inr signed_consensus_def by (fastforce simp: verify_document_Inr)

lemma fetchForeign_relay:
  "fetchForeignConsensus (FetchVerifiedConsensus pem_ok fs get decode verify now) b = Some rs \<Longrightarrow> r \<in> set rs \<Longrightarrow> foreign_relay verify r"
  by (auto simp: fetchForeignConsensus_def foreign_relay_def dest: fetch_signed split: if_splits sum.splits)

lemma refresh_srv:
  assumes "\<forall>r \<in> set (bs_foreignRelays b). foreign_relay verify r"
  shows "bs_cfg (refreshForeignConsensus (FetchVerifiedConsensus pem_ok fs get decode verify now) b) = bs_cfg b \<and>
     (\<forall>r \<in> set (bs_foreignRelays (refreshForeignConsensus (FetchVerifiedConsensus pem_ok fs get decode verify now) b)). foreign_relay verify r)"
  using assms by (auto simp: refreshForeignConsensus_def dest: fetchForeign_relay split: option.splits)

lemma bridge_main_srv:
  assumes "bridge_main parse socks (FetchVerifiedConsensus pem_ok fs get decode verify now) keypair listen cfg = Inr (srv, dialer, lsn)"
  shows "bs_cfg srv = cfg \<and> (\<forall>r \<in> set (bs_foreignRelays srv). foreign_relay verify r)"
proof -
  obtain b rs where b: "newBridgeServer parse socks cfg = Inr (b, dialer)"
    "fetchForeignConsensus (FetchVerifiedConsensus pem_ok fs get decode verify now) b = Some rs" "srv = b\<lparr>bs_foreignRelays := rs\<rparr>"
    using assms by (auto simp: bridge_main_def split: sum.splits option.splits prod.splits)
  have "bs_cfg b = cfg" using b(1) by (auto simp: newBridgeServer_def Let_def split: if_splits option.splits prod.splits)
  with b fetchForeign_relay [OF b(2)] show ?thesis by auto
qed

definition authorised :: "verifier \<Rightarrow> BridgeServerConfig \<Rightarrow> bridge_env \<times> conn \<times> bridge_event list \<Rightarrow> bool" where
  \<comment> \<open>a session that did anything presented the token in its first cell, and its first cell to the foreign network, the only one
      before the pipe, creates a circuit with the key that followed the token at an entry relay of a signed consensus\<close>
  "authorised verify cfg = (\<lambda>(env, c, evs). evs = [] \<or>
     (\<exists>c1 cell entry n rest. ge_obfs env c = (None, c1) \<and> fst (ReadCell tcp_readFull (inbox c1)) = Inr cell \<and>
        CircID cell = bridgeSentinelCircID \<and> Command cell = CmdCreate \<and> n = unat (get16 (slice 0 2 (Body cell))) \<and>
        string_of (slice 2 (2 + n) (Body cell)) = gc_Token cfg \<and> foreign_relay verify entry \<and> rd_Role entry = ''entry'' \<and>
        evs = ToForeign (mkCell (RandomUint32 (ge_idrnd env)) CmdCreate 32 (slice (2 + n) (2 + n + 32) (Body cell))) # rest \<and>
        (\<forall>x. ToForeign x \<notin> set rest)))"

lemma session_authorised:
  assumes "\<forall>r \<in> set (bs_foreignRelays b). foreign_relay verify r"
  shows "authorised verify (bs_cfg b) (env, c, handleClientConn env b c)"
proof (cases "handleClientConn env b c")
  case (Cons e rest)
  then have "handleClientConn env b c \<noteq> []" by simp
  from handleClientConn_events [OF this] obtain c1 cell pub entry
    where h: "ge_obfs env c = (None, c1)" "fst (ReadCell tcp_readFull (inbox c1)) = Inr cell"
    "bridge_token_ok b cell = Some pub" "pickForeignEntry (ge_pick env) b = Some entry"
    "hd (handleClientConn env b c) = ToForeign (mkCell (RandomUint32 (ge_idrnd env)) CmdCreate 32 pub)"
    "\<forall>e \<in> set (tl (handleClientConn env b c)). \<forall>x. e \<noteq> ToForeign x"
    by blast
  have e: "foreign_relay verify entry" "rd_Role entry = ''entry''"
    using h(4) assms pickRelay_Some by (auto simp: pickForeignEntry_pickRelay)
  have r: "handleClientConn env b c = ToForeign (mkCell (RandomUint32 (ge_idrnd env)) CmdCreate 32 pub) # rest"
    "\<forall>x. ToForeign x \<notin> set rest"
    using h(5,6) Cons by auto
  have t: "CircID cell = bridgeSentinelCircID" "Command cell = CmdCreate"
    "string_of (slice 2 (2 + unat (get16 (slice 0 2 (Body cell)))) (Body cell)) = gc_Token (bs_cfg b)"
    "pub = slice (2 + unat (get16 (slice 0 2 (Body cell)))) (2 + unat (get16 (slice 0 2 (Body cell))) + 32) (Body cell)"
    using h(3) unfolding bridge_token_ok_Some by simp_all
  show ?thesis
    unfolding authorised_def r(1) prod.case using h(1,2) t e r(2) by blast
qed (simp add: authorised_def)

lemma bridge_run_inv:
  "bridge_run verify cfg p \<Longrightarrow> bs_cfg (bp_srv p) = cfg \<and> (\<forall>r \<in> set (bs_foreignRelays (bp_srv p)). foreign_relay verify r) \<and>
     list_all (authorised verify cfg) (bp_sessions p) \<and> map (\<lambda>(env, c, evs). c) (bp_sessions p) = sv_accepted (bp_serve p)"
proof (induction rule: bridge_run.induct)
  case start
  then show ?case using bridge_main_srv [OF start] by (simp add: serve_start_def)
next
  case (step p p')
  from step(2) show ?case
  proof cases
    case (loop sv)
    then show ?thesis using step(3) serve_step_accepted [of "bp_serve p" None sv] by simp
  next
    case (accept c sv env)
    then show ?thesis using step(3) serve_step_accepted [of "bp_serve p" "Some c" sv] session_authorised [of "bp_srv p" verify env c] by simp
  next
    case refresh
    then show ?thesis using step(3) refresh_srv [of "bp_srv p" verify] by simp
  qed
qed


interpretation bridge_srv: accepting "bridge_run_step verify" bp_serve
  by unfold_locales (auto elim!: bridge_run_step.cases)

lemma bridge_run_serve_inv: "bridge_run verify cfg p \<Longrightarrow> serve_inv (bp_serve p)"
proof (induction rule: bridge_run.induct)
  case (step p p')
  then show ?case using bridge_srv.steps_inv by blast
qed simp

definition sample_foreign_cfg :: BridgeServerConfig where
  "sample_foreign_cfg = sample_bridge_cfg\<lparr>gc_ForeignDirURL := ''d''\<rparr>"

definition sample_foreign_doc :: SignedConsensus where
  "sample_foreign_doc = sample_doc\<lparr>sc_Relays := [sample_entry]\<rparr>"

definition sample_bridge_env :: bridge_env where
  "sample_bridge_env = \<lparr>ge_obfs = (\<lambda>c. (None, c)), ge_dial = (\<lambda>_. Some \<lparr>inbox = [], outbox = []\<rparr>), ge_tls = (\<lambda>_ c. Some c),
     ge_pick = 0, ge_idrnd = (\<lambda>_. 1)\<rparr>"

definition sample_bridge_conn :: conn where
  "sample_bridge_conn = \<lparr>inbox = MarshalCell 0 (\<lambda>_. 0) sample_handshake, outbox = []\<rparr>"

lemma sample_bridge_session:
  "handleClientConn sample_bridge_env \<lparr>bs_cfg = sample_foreign_cfg, bs_foreignRelays = [sample_entry]\<rparr> sample_bridge_conn \<noteq> []"
proof -
  have 1: "fst (ReadCell tcp_readFull (inbox sample_bridge_conn)) = Inr (canon_cell sample_handshake)"
    using tcp.ReadCell_MarshalCell [of sample_handshake "inbox sample_bridge_conn" 0 "\<lambda>_. 0" "[]"] sample_handshake_wf
    by (auto simp: wf_cell_def sample_bridge_conn_def)
  have 2: "canon_cell sample_handshake = sample_handshake"
    by (simp add: canon_cell_def mkCell_def sample_handshake_def go_copy_def)
  have 3: "\<exists>e. fst (ReadCell tcp_readFull []) = Inl e"
    by (auto simp: ReadCell_def tcp_readFull_def)
  have 4: "bridge_token_ok \<lparr>bs_cfg = sample_foreign_cfg, bs_foreignRelays = [sample_entry]\<rparr> sample_handshake = Some (replicate 32 9)"
    using sample_handshake_ok unfolding bridge_token_ok_Some by (simp add: sample_bridge_def sample_foreign_cfg_def)
  show ?thesis
    using 1 2 3 4
    by (auto simp: handleClientConn_def pickForeignEntry_def foreignDial_def sample_foreign_cfg_def sample_bridge_cfg_def
        sample_bridge_env_def sample_entry_def Let_def)
qed

lemma sample_bridge_run:
  "bridge_run (\<lambda>pk m s. True) sample_foreign_cfg
     \<lparr>bp_srv = \<lparr>bs_cfg = sample_foreign_cfg, bs_foreignRelays = [sample_entry]\<rparr>, bp_serve = serve_start, bp_sessions = []\<rparr>"
proof -
  let ?fetch = "FetchVerifiedConsensus (\<lambda>_. True) Map.empty
     (\<lambda>cl url. if url = ''d/pubkey'' then Some (bytes_of (hex_encode (replicate 32 7))) else Some [])
     (\<lambda>_. Some sample_foreign_doc) (\<lambda>pk m s. True) 1100"
  have f: "?fetch ''d'' '''' = Inr sample_foreign_doc"
    by (rule sample_fetch) (simp_all add: sample_foreign_doc_def sample_doc_def from_hex_def)
  have "newBridgeServer (\<lambda>_. None) (\<lambda>_. False) sample_foreign_cfg = Inr (\<lparr>bs_cfg = sample_foreign_cfg, bs_foreignRelays = []\<rparr>, Direct)"
    by (simp add: newBridgeServer_def sample_foreign_cfg_def sample_bridge_cfg_def Let_def)
  moreover have "fetchForeignConsensus ?fetch \<lparr>bs_cfg = sample_foreign_cfg, bs_foreignRelays = []\<rparr> = Some [sample_entry]"
    using f by (simp add: fetchForeignConsensus_def sample_foreign_cfg_def sample_bridge_cfg_def sample_foreign_doc_def)
  moreover have "buildListener (\<lambda>_ _. True) (\<lambda>_. True) \<lparr>bs_cfg = sample_foreign_cfg, bs_foreignRelays = []\<rparr> = Inr (TCPListener '''')"
    by (simp add: buildListener_def sample_foreign_cfg_def sample_bridge_cfg_def)
  ultimately have "bridge_main (\<lambda>_. None) (\<lambda>_. False) ?fetch (\<lambda>_ _. True) (\<lambda>_. True) sample_foreign_cfg = Inr (\<lparr>bs_cfg = sample_foreign_cfg, bs_foreignRelays = [sample_entry]\<rparr>, Direct, TCPListener '''')"
    by (simp add: bridge_main_def)
  from bridge_run.start [OF this] show ?thesis .
qed


end
