(* ===== verification/Shutdown.thy ===== *)
theory Shutdown
  imports Startup
begin

text \<open>
  What the six processes do after SIGINT or SIGTERM: the last lines of each \<^verbatim>\<open>main\<close>, as a list
  of actions that a timed step relation carries out, with the semantics that \<^verbatim>\<open>net/http\<close>
  documents for \<^verbatim>\<open>Server.Shutdown\<close>: it closes the listener, waits for the requests in
  progress, but not for connections that a handler has hijacked, and gives up when its context expires. Once
  \<^verbatim>\<open>main\<close> returns, what is still in progress is cut. Time only passes while
  \<^verbatim>\<open>main\<close> waits.
\<close>

section \<open>Actions after the signal\<close>

datatype stop_action =
    CancelCtx            \<comment> \<open>\<^verbatim>\<open>cancel()\<close>\<close>
  | ShutdownHTTP int     \<comment> \<open>\<^verbatim>\<open>httpSrv.Shutdown\<close> under a context with this timeout, in nanoseconds\<close>
  | AwaitServe           \<comment> \<open>\<^verbatim>\<open>srv.serve(ctx, ln)\<close> returns\<close>
  | SleepFor int
  | CloseCircuits        \<comment> \<open>\<^verbatim>\<open>c.close()\<close> for every circuit of the pool\<close>

definition directory_stop :: "stop_action list" where
  "directory_stop = [ShutdownHTTP (seconds 10)]"

definition broker_stop :: "stop_action list" where
  "broker_stop = [CancelCtx, ShutdownHTTP (seconds 10)]"

definition client_stop :: "stop_action list" where
  "client_stop = [CancelCtx, ShutdownHTTP (seconds 5), CloseCircuits]"

definition relay_stop :: "stop_action list" where
  \<comment> \<open>the \<^verbatim>\<open>Shutdown\<close> of the health server runs in its own goroutine, and nothing waits for it\<close>
  "relay_stop = [CancelCtx, AwaitServe]"

definition bridge_stop :: "stop_action list" where
  "bridge_stop = [CancelCtx, AwaitServe]"

definition kind_stop :: "stop_action list" where
  "kind_stop = [CancelCtx, SleepFor 500000000]"

record stopping =
  st_now :: int
  st_todo :: "stop_action list"
  st_until :: "int option"                \<comment> \<open>when the wait in progress ends\<close>
  st_listening :: bool                    \<comment> \<open>the HTTP listener\<close>
  st_serve :: "nat serving"               \<comment> \<open>the accept loop of the relay, the bridge and the SOCKS5 proxy\<close>
  st_reqs :: "nat \<rightharpoonup> bool \<times> int"         \<comment> \<open>requests in progress: not hijacked, and when its handler is done\<close>
  st_answered :: "nat set"
  st_closed :: bool                       \<comment> \<open>the circuits of the pool are closed\<close>
  st_exited :: bool

definition signalled :: "stop_action list \<Rightarrow> int \<Rightarrow> (nat \<rightharpoonup> bool \<times> int) \<Rightarrow> nat serving \<Rightarrow> stopping" where
  \<comment> \<open>\<^verbatim>\<open><-quit\<close> has returned at time \<open>t0\<close>\<close>
  "signalled plan t0 R sv = \<lparr>st_now = t0, st_todo = plan, st_until = None, st_listening = True, st_serve = sv, st_reqs = R,
     st_answered = {}, st_closed = False, st_exited = False\<rparr>"

inductive stop_step :: "stopping \<Rightarrow> stopping \<Rightarrow> bool" where
  request: "\<not> st_exited s \<Longrightarrow> st_listening s \<Longrightarrow> st_reqs s i = None \<Longrightarrow> i \<notin> st_answered s \<Longrightarrow> st_now s \<le> fin \<Longrightarrow>
     stop_step s (s\<lparr>st_reqs := (st_reqs s)(i \<mapsto> (b, fin))\<rparr>)"
| answer: "\<not> st_exited s \<Longrightarrow> st_reqs s i = Some (b, st_now s) \<Longrightarrow>
     stop_step s (s\<lparr>st_reqs := (st_reqs s)(i := None), st_answered := insert i (st_answered s)\<rparr>)"
| elapse: "\<not> st_exited s \<Longrightarrow> st_until s = Some d \<Longrightarrow> st_now s < t \<Longrightarrow> t \<le> d \<Longrightarrow> (\<And>i b fin. st_reqs s i = Some (b, fin) \<Longrightarrow> t \<le> fin) \<Longrightarrow>
     stop_step s (s\<lparr>st_now := t\<rparr>)"
| serve: "\<not> st_exited s \<Longrightarrow> serve_step (st_serve s) l sv \<Longrightarrow> sv_done sv = sv_done (st_serve s) \<Longrightarrow> stop_step s (s\<lparr>st_serve := sv\<rparr>)"
| cancel: "st_todo s = CancelCtx # as \<Longrightarrow> stop_step s (s\<lparr>st_serve := (st_serve s)\<lparr>sv_done := True\<rparr>, st_todo := as\<rparr>)"
| shutdown: "st_todo s = ShutdownHTTP g # as \<Longrightarrow> st_until s = None \<Longrightarrow>
     stop_step s (s\<lparr>st_listening := False, st_until := Some (st_now s + g)\<rparr>)"
| drained: "st_todo s = ShutdownHTTP g # as \<Longrightarrow> st_until s = Some d \<Longrightarrow> (\<And>i fin. st_reqs s i \<noteq> Some (True, fin)) \<Longrightarrow>
     stop_step s (s\<lparr>st_todo := as, st_until := None\<rparr>)"
| expired: "st_todo s = ShutdownHTTP g # as \<Longrightarrow> st_until s = Some (st_now s) \<Longrightarrow> stop_step s (s\<lparr>st_todo := as, st_until := None\<rparr>)"
| await: "st_todo s = AwaitServe # as \<Longrightarrow> \<not> sv_running (st_serve s) \<Longrightarrow> stop_step s (s\<lparr>st_todo := as\<rparr>)"
| sleep: "st_todo s = SleepFor g # as \<Longrightarrow> st_until s = None \<Longrightarrow> stop_step s (s\<lparr>st_until := Some (st_now s + g)\<rparr>)"
| woken: "st_todo s = SleepFor g # as \<Longrightarrow> st_until s = Some (st_now s) \<Longrightarrow> stop_step s (s\<lparr>st_todo := as, st_until := None\<rparr>)"
| close_circuits: "st_todo s = CloseCircuits # as \<Longrightarrow> stop_step s (s\<lparr>st_closed := True, st_todo := as\<rparr>)"
| exit: "st_todo s = [] \<Longrightarrow> \<not> st_exited s \<Longrightarrow> stop_step s (s\<lparr>st_exited := True\<rparr>)"

inductive_cases stop_stepE: "stop_step s s'"

section \<open>How long it takes and what is cut\<close>

fun wait_of :: "stop_action \<Rightarrow> int" where
  "wait_of (ShutdownHTTP g) = g"
| "wait_of (SleepFor g) = g"
| "wait_of _ = 0"

definition budget :: "stop_action list \<Rightarrow> int" where
  "budget as = sum_list (map wait_of as)"

definition time_left :: "stopping \<Rightarrow> int" where
  "time_left s = (case st_until s of None \<Rightarrow> budget (st_todo s) | Some d \<Rightarrow> d - st_now s + budget (tl (st_todo s)))"

lemma budget_Cons [simp]: "budget [] = 0" "budget (a # as) = wait_of a + budget as"
  by (simp_all add: budget_def)

lemmas stop_plans = directory_stop_def broker_stop_def client_stop_def relay_stop_def bridge_stop_def kind_stop_def

definition time_inv :: "stop_action list \<Rightarrow> int \<Rightarrow> stopping \<Rightarrow> bool" where
  "time_inv plan t0 s \<longleftrightarrow> t0 \<le> st_now s \<and> st_now s + time_left s \<le> t0 + budget plan \<and> (\<forall>a\<in>set (st_todo s). 0 \<le> wait_of a) \<and>
     (\<forall>d. st_until s = Some d \<longrightarrow> st_now s \<le> d \<and> (\<exists>a as. st_todo s = a # as \<and> wait_of a \<le> d - t0 \<and> (\<exists>g. a \<in> {ShutdownHTTP g, SleepFor g})) \<and>
        \<not> st_exited s) \<and>
     (st_exited s \<longrightarrow> st_todo s = [])"

definition settled :: "stopping \<Rightarrow> nat \<Rightarrow> bool \<Rightarrow> int \<Rightarrow> bool" where
  "settled s i b fin \<longleftrightarrow> (if i \<in> st_answered s then st_reqs s i = None \<and> fin \<le> st_now s
     else st_reqs s i = Some (b, fin) \<and> st_now s \<le> fin)"

definition reqs_inv :: "stop_action list \<Rightarrow> int \<Rightarrow> (nat \<rightharpoonup> bool \<times> int) \<Rightarrow> stopping \<Rightarrow> bool" where
  "reqs_inv plan t0 R s \<longleftrightarrow> (\<forall>i b fin. R i = Some (b, fin) \<longrightarrow> settled s i b fin) \<and>
     (\<forall>g i fin. ShutdownHTTP g \<in> set plan \<longrightarrow> ShutdownHTTP g \<notin> set (st_todo s) \<longrightarrow> R i = Some (True, fin) \<longrightarrow>
        fin < t0 + g \<longrightarrow> i \<in> st_answered s)"

lemma signalled_inv:
  assumes "\<forall>i b fin. R i = Some (b, fin) \<longrightarrow> t0 \<le> fin" "\<forall>a\<in>set plan. 0 \<le> wait_of a"
  shows "time_inv plan t0 (signalled plan t0 R sv) \<and> reqs_inv plan t0 R (signalled plan t0 R sv)"
  using assms by (auto simp: time_inv_def reqs_inv_def settled_def signalled_def time_left_def)

lemma time_inv_frame: "st_now s' = st_now s \<Longrightarrow> st_todo s' = st_todo s \<Longrightarrow> st_until s' = st_until s \<Longrightarrow> st_exited s' = st_exited s \<Longrightarrow>
   time_inv plan t0 s \<Longrightarrow> time_inv plan t0 s'"
  by (simp add: time_inv_def time_left_def cong: option.case_cong)

lemma stop_step_time:
  assumes "stop_step s s'" "time_inv plan t0 s"
  shows "time_inv plan t0 s'"
  using assms(1)
proof cases
  case (elapse d t)
  then show ?thesis using assms(2) by (simp add: time_inv_def time_left_def)
next
  case (cancel as)
  then have "st_until s = None" using assms(2) by (auto simp: time_inv_def)
  then show ?thesis using cancel assms(2) by (auto simp: time_inv_def time_left_def)
next
  case (await as)
  then have "st_until s = None" using assms(2) by (auto simp: time_inv_def)
  then show ?thesis using await assms(2) by (auto simp: time_inv_def time_left_def)
next
  case (close_circuits as)
  then have "st_until s = None" using assms(2) by (auto simp: time_inv_def)
  then show ?thesis using close_circuits assms(2) by (auto simp: time_inv_def time_left_def)
next
  case exit
  then have "st_until s = None" using assms(2) by (auto simp: time_inv_def)
  then show ?thesis using exit assms(2) by (simp add: time_inv_def time_left_def)
next
  case (shutdown g as)
  then show ?thesis using assms(2) by (simp add: time_inv_def time_left_def)
next
  case (sleep g as)
  then show ?thesis using assms(2) by (simp add: time_inv_def time_left_def)
next
  case (drained g as d)
  then show ?thesis using assms(2) by (simp add: time_inv_def time_left_def)
next
  case (expired g as)
  then show ?thesis using assms(2) by (simp add: time_inv_def time_left_def)
next
  case (woken g as)
  then show ?thesis using assms(2) by (simp add: time_inv_def time_left_def)
qed (auto intro: time_inv_frame [OF _ _ _ _ assms(2)])

lemma reqs_inv_frame:
  assumes "reqs_inv plan t0 R s" "\<And>i b fin. R i = Some (b, fin) \<Longrightarrow> settled s i b fin \<Longrightarrow> settled s' i b fin" "st_answered s \<subseteq> st_answered s'"
    and "\<And>g. ShutdownHTTP g \<in> set (st_todo s) \<Longrightarrow> ShutdownHTTP g \<in> set (st_todo s')"
  shows "reqs_inv plan t0 R s'"
  using assms unfolding reqs_inv_def by blast

lemma shutdown_over:
  assumes "reqs_inv plan t0 R s" "st_todo s = ShutdownHTTP g # as" "time_inv plan t0 s" "st_until s = Some d"
    and "d = st_now s \<or> (\<forall>i fin. st_reqs s i \<noteq> Some (True, fin))"
  shows "reqs_inv plan t0 R (s\<lparr>st_todo := as, st_until := None\<rparr>)"
proof -
  have d: "g \<le> d - t0" using assms(2-4) by (auto simp: time_inv_def)
  have "i \<in> st_answered s" if "R i = Some (True, fin)" "fin < t0 + g" for i fin
  proof (rule ccontr)
    assume "i \<notin> st_answered s"
    moreover have "settled s i True fin" using assms(1) that(1) unfolding reqs_inv_def by blast
    ultimately have "st_reqs s i = Some (True, fin)" "st_now s \<le> fin" by (simp_all add: settled_def)
    with assms(5) d that(2) show False by auto
  qed
  moreover have "settled (s\<lparr>st_todo := as, st_until := None\<rparr>) i b fin" if "R i = Some (b, fin)" for i b fin
    using assms(1) that unfolding reqs_inv_def settled_def by simp
  ultimately show ?thesis using assms(1,2) unfolding reqs_inv_def by auto
qed

lemma stop_step_reqs:
  assumes "stop_step s s'" "time_inv plan t0 s" "reqs_inv plan t0 R s"
  shows "reqs_inv plan t0 R s'"
  using assms(1)
proof cases
  case (request i fin b)
  then show ?thesis by (intro reqs_inv_frame [OF assms(3)]) (auto simp: settled_def split: if_splits)
next
  case (answer i b)
  then show ?thesis by (intro reqs_inv_frame [OF assms(3)]) (auto simp: settled_def split: if_splits)
next
  case (elapse d t)
  then show ?thesis by (intro reqs_inv_frame [OF assms(3)]) (auto simp: settled_def split: if_splits)
next
  case (drained g as d)
  then show ?thesis using shutdown_over [OF assms(3) _ assms(2)] by blast
next
  case (expired g as)
  then show ?thesis using shutdown_over [OF assms(3) _ assms(2)] by blast
qed (auto intro!: reqs_inv_frame [OF assms(3)] simp: settled_def)

lemma stop_steps_inv:
  assumes "stop_step\<^sup>*\<^sup>* s s'" "time_inv plan t0 s" "reqs_inv plan t0 R s"
  shows "time_inv plan t0 s' \<and> reqs_inv plan t0 R s'"
  using assms by (induction rule: rtranclp_induct) (blast dest: stop_step_time stop_step_reqs)+

lemma budget_plans [simp]:
  "budget directory_stop = seconds 10" "budget broker_stop = seconds 10" "budget client_stop = seconds 5"
  "budget relay_stop = 0" "budget bridge_stop = 0" "budget kind_stop = 500000000"
  by (simp_all add: stop_plans)

lemma plans_nonneg: "plan \<in> {directory_stop, broker_stop, client_stop, relay_stop, bridge_stop, kind_stop} \<Longrightarrow> \<forall>a\<in>set plan. 0 \<le> wait_of a"
  by (auto simp: stop_plans seconds_def)

lemma stopped_within:
  assumes "stop_step\<^sup>*\<^sup>* (signalled plan t0 R sv) s" "st_exited s" "\<forall>i b fin. R i = Some (b, fin) \<longrightarrow> t0 \<le> fin" "\<forall>a\<in>set plan. 0 \<le> wait_of a"
  shows "st_todo s = [] \<and> t0 \<le> st_now s \<and> st_now s \<le> t0 + budget plan \<and>
     (\<forall>g i fin. ShutdownHTTP g \<in> set plan \<longrightarrow> R i = Some (True, fin) \<longrightarrow> fin < t0 + g \<longrightarrow> i \<in> st_answered s) \<and>
     (\<forall>i b fin. R i = Some (b, fin) \<longrightarrow> t0 + budget plan < fin \<longrightarrow> i \<notin> st_answered s)"
proof -
  have inv: "time_inv plan t0 s" "reqs_inv plan t0 R s" using stop_steps_inv [OF assms(1)] signalled_inv [of R t0 plan sv] assms(3,4) by blast+
  then have t: "st_todo s = []" "st_until s = None" using assms(2) by (auto simp: time_inv_def)
  then have "st_now s \<le> t0 + budget plan" "t0 \<le> st_now s" using inv(1) by (simp_all add: time_inv_def time_left_def)
  moreover have "i \<notin> st_answered s" if "R i = Some (b, fin)" "t0 + budget plan < fin" for i b fin
    using inv(2) that calculation(1) by (fastforce simp: reqs_inv_def settled_def)
  ultimately show ?thesis using inv(2) t(1) by (auto simp: reqs_inv_def)
qed

lemma awaited:
  assumes "stop_step\<^sup>*\<^sup>* (signalled plan t0 R sv) s" "AwaitServe \<in> set plan" "AwaitServe \<notin> set (st_todo s)"
  shows "\<not> sv_running (st_serve s)"
proof -
  have "\<not> sv_running sv'" if "serve_step sv l sv'" "\<not> sv_running sv" for sv l and sv' :: "nat serving"
    using that by (auto elim: serve_stepE)
  then have "stop_step a b \<Longrightarrow> AwaitServe \<in> set (st_todo a) \<or> \<not> sv_running (st_serve a) \<Longrightarrow>
      AwaitServe \<in> set (st_todo b) \<or> \<not> sv_running (st_serve b)" for a b
    by (elim stop_stepE) auto
  with assms(1) have "AwaitServe \<in> set (st_todo s) \<or> \<not> sv_running (st_serve s)"
    by (induction rule: rtranclp_induct) (use assms(2) in \<open>auto simp: signalled_def\<close>)
  with assms(3) show ?thesis by simp
qed

lemma pool_closed_iff:
  assumes "stop_step\<^sup>*\<^sup>* (signalled plan t0 R sv) s"
  shows "st_closed s \<or> CloseCircuits \<in> set (st_todo s) \<longleftrightarrow> CloseCircuits \<in> set plan"
proof -
  have "stop_step a b \<Longrightarrow> st_closed b \<or> CloseCircuits \<in> set (st_todo b) \<longleftrightarrow> st_closed a \<or> CloseCircuits \<in> set (st_todo a)" for a b
    by (erule stop_stepE) auto
  with assms show ?thesis by (induction rule: rtranclp_induct) (auto simp: signalled_def)
qed



end
