(* ===== verification/WebRTC_Conn.thy ===== *)
theory WebRTC_Conn
  imports WebRTC
begin

text \<open>
  The rest of the \<^verbatim>\<open>net.Conn\<close> that \<^verbatim>\<open>src/webrtcx/conn.go\<close> builds around a detached datachannel: writing, closing,
  deadlines and addresses. The datachannel is pion's; \<open>rtc_conn\<close> keeps what the methods do to it, and the
  outcome of its calls is an argument. The cells written on one end are the cells read on the other.
\<close>

section \<open>Methods\<close>

record rtc_conn =
  wc_conn :: Conn
  wc_sent :: "bytes list"            \<comment> \<open>messages given to the datachannel\<close>
  wc_deadline :: "int option"        \<comment> \<open>read deadline of the datachannel\<close>
  wc_dcOpen :: bool
  wc_pcOpen :: bool

datatype rtc_error = WriteFailed | CloseFailed | DeadlineFailed

definition Conn_Write :: "(bytes \<Rightarrow> bool) \<Rightarrow> bytes \<Rightarrow> rtc_conn \<Rightarrow> rtc_error option \<times> rtc_conn" where
  \<comment> \<open>\<open>dc\<close>: whether the datachannel takes the message\<close>
  "Conn_Write dc p c = (if wc_dcOpen c \<and> dc p then (None, c\<lparr>wc_sent := wc_sent c @ [p]\<rparr>) else (Some WriteFailed, c))"

definition Conn_Close :: "bool \<Rightarrow> rtc_conn \<Rightarrow> rtc_error option \<times> rtc_conn" where
  \<comment> \<open>the result of closing the datachannel is dropped, \<open>ok\<close> is the result of closing the peer connection\<close>
  "Conn_Close ok c = (if ok then None else Some CloseFailed, c\<lparr>wc_dcOpen := False, wc_pcOpen := False\<rparr>)"

definition Conn_SetReadDeadline :: "(int option \<Rightarrow> bool) option \<Rightarrow> int option \<Rightarrow> rtc_conn \<Rightarrow> rtc_error option \<times> rtc_conn" where
  \<comment> \<open>\<open>rd\<close> is \<^verbatim>\<open>SetReadDeadline\<close> of a datachannel that is a \<^verbatim>\<open>readDeadliner\<close>; \<open>None\<close> as a time is the zero time\<close>
  "Conn_SetReadDeadline rd t c =
     (case rd of
        None \<Rightarrow> (None, c)
      | Some ok \<Rightarrow> if ok t then (None, c\<lparr>wc_deadline := t\<rparr>) else (Some DeadlineFailed, c))"

definition Conn_SetWriteDeadline :: "int option \<Rightarrow> rtc_conn \<Rightarrow> rtc_error option \<times> rtc_conn" where
  "Conn_SetWriteDeadline t c = (None, c)"

definition Conn_SetDeadline :: "(int option \<Rightarrow> bool) option \<Rightarrow> int option \<Rightarrow> rtc_conn \<Rightarrow> rtc_error option \<times> rtc_conn" where
  "Conn_SetDeadline rd t c = Conn_SetReadDeadline rd t c"

definition rtc_addr :: "rtc_conn \<Rightarrow> string \<times> string" where
  \<comment> \<open>\<^verbatim>\<open>Network\<close> and \<^verbatim>\<open>String\<close> of both the local and the remote address\<close>
  "rtc_addr c = (''webrtc'', ''webrtc-datachannel'')"

definition rtc_new :: "bytes list \<Rightarrow> rtc_conn" where
  "rtc_new dc = \<lparr>wc_conn = newConn dc, wc_sent = [], wc_deadline = None, wc_dcOpen = True, wc_pcOpen = True\<rparr>"

section \<open>Writing cells\<close>

fun write_cells :: "(bytes \<Rightarrow> bool) \<Rightarrow> (byte \<times> (nat \<Rightarrow> byte) \<times> Cell) list \<Rightarrow> rtc_conn \<Rightarrow> rtc_error option list \<times> rtc_conn" where
  \<comment> \<open>successive calls of \<^verbatim>\<open>WriteCell\<close>, each with its own random bytes\<close>
  "write_cells dc [] c = ([], c)"
| "write_cells dc ((r, rnd, cell) # ms) c =
     (let (e, c1) = WriteCell (Conn_Write dc) r rnd c cell; (es, c2) = write_cells dc ms c1 in (e # es, c2))"

lemma write_cells_sent:
  assumes "wc_dcOpen c" "\<forall>(r, rnd, cell) \<in> set ms. dc (MarshalCell r rnd cell)"
  shows "write_cells dc ms c =
     (replicate (length ms) None, c\<lparr>wc_sent := wc_sent c @ map (\<lambda>(r, rnd, cell). MarshalCell r rnd cell) ms\<rparr>)"
  using assms by (induction dc ms c rule: write_cells.induct) (auto simp: WriteCell_def Conn_Write_def)

lemma write_cells_closed: "\<not> wc_dcOpen c \<Longrightarrow> write_cells dc ms c = (replicate (length ms) (Some WriteFailed), c)"
  by (induction dc ms c rule: write_cells.induct) (auto simp: WriteCell_def Conn_Write_def)

lemma write_after_close:
  "write_cells dc ms (snd (Conn_Close ok c)) = (replicate (length ms) (Some WriteFailed), snd (Conn_Close ok c))"
  by (rule write_cells_closed) (simp add: Conn_Close_def)

text \<open>A deadline is a read deadline only: nothing that is written afterwards depends on it.\<close>

lemma deadline_keeps_writes:
  "Conn_Write dc p (snd (Conn_SetDeadline rd t c)) =
     (fst (Conn_Write dc p c), (snd (Conn_Write dc p c))\<lparr>wc_deadline := wc_deadline (snd (Conn_SetDeadline rd t c))\<rparr>)"
  by (auto simp: Conn_Write_def Conn_SetDeadline_def Conn_SetReadDeadline_def split: option.splits)

text \<open>
  Cells cross a datachannel unchanged. When the datachannel accepts the writes of one end and delivers its messages in
  order to the other, every WriteCell succeeds and sends one message that fits the 65536-byte buffer of Read, and
  the other end reads exactly the cells that were written, each with its payload, and then
  reports the end of the stream.
\<close>

theorem webrtc_cells_roundtrip:
  assumes "\<forall>(r, rnd, c) \<in> set ms. length (Body c) = CellBodyMax"
    and "\<forall>(r, rnd, c) \<in> set ms. dc (MarshalCell r rnd c)"
    and "write_cells dc ms (rtc_new dc0) = (es, a)"
  shows "es = replicate (length ms) None \<and> length (wc_sent a) = length ms \<and> (\<forall>m \<in> set (wc_sent a). length m \<le> 65536) \<and>
     (\<exists>e c'. read_cells (Suc (length ms)) conn_readFull (wc_conn (rtc_new (wc_sent a))) =
        (map (\<lambda>(r, rnd, c). canon_cell c) ms, Some e, c'))"
proof -
  let ?frames = "map (\<lambda>(r, rnd, c). MarshalCell r rnd c) ms"
  have w: "es = replicate (length ms) None" "wc_sent a = ?frames"
    using write_cells_sent [of "rtc_new dc0" ms dc] assms(2,3) by (auto simp: rtc_new_def)
  have "length m \<le> 65536" if "m \<in> set ?frames" for m
    using that assms(1) frame_len_le by (fastforce simp: length_MarshalCell intro: order_trans)
  moreover have "\<exists>e c'. read_cells (Suc (length ms)) conn_readFull (newConn ?frames) =
      (map (\<lambda>(r, rnd, c). canon_cell c) ms, Some e, c')"
    by (rule dc.read_cells_all [OF assms(1)]) (simp_all add: conn_view_def newConn_def)
  ultimately show ?thesis using w by (simp add: rtc_new_def)
qed

theorem webrtc_cells_roundtrip_witness:
  "\<exists>a e c'. write_cells (\<lambda>_. True) [(5, \<lambda>_. 0, mkCell 1 CmdPing 0 []), (9, \<lambda>_. 3, mkCell 2 CmdDestroy 0 [])] (rtc_new []) = ([None, None], a) \<and>
     read_cells 3 conn_readFull (wc_conn (rtc_new (wc_sent a))) =
       ([canon_cell (mkCell 1 CmdPing 0 []), canon_cell (mkCell 2 CmdDestroy 0 [])], Some e, c')"
proof -
  let ?ms = "[(5, \<lambda>_. 0, mkCell 1 CmdPing 0 []), (9, \<lambda>_. 3, mkCell 2 CmdDestroy 0 [])] :: (byte \<times> (nat \<Rightarrow> byte) \<times> Cell) list"
  obtain es a where w: "write_cells (\<lambda>_. True) ?ms (rtc_new []) = (es, a)" by fastforce
  have "es = replicate (length ?ms) None \<and> (\<exists>e c'. read_cells (Suc (length ?ms)) conn_readFull (wc_conn (rtc_new (wc_sent a))) =
        (map (\<lambda>(r, rnd, c). canon_cell c) ?ms, Some e, c'))"
    using webrtc_cells_roundtrip [OF _ _ w] by simp
  with w show ?thesis by (simp add: numeral_2_eq_2 numeral_3_eq_3 del: read_cells.simps write_cells.simps)
qed

end
