(* ===== verification/Kind_Tunnel.thy ===== *)
theory Kind_Tunnel
  imports Network WebRTC_Conn Kind
begin

text \<open>
  A circuit through a volunteer: the client's connection is a datachannel, the volunteer copies bytes between it and
  the entry relay (\<^verbatim>\<open>pipe\<close> of \<^verbatim>\<open>src/kind/main.go\<close>), and the cells of the circuit travel inside. The client code only
  uses the operations of a transport, so what it does over two transports that answer alike is the
  same; the locale \<open>transport_refines\<close> states that and its interpretation is the tunnel.
\<close>

section \<open>Transports that answer alike\<close>

definition same_result :: "cell_error + Cell \<Rightarrow> cell_error + Cell \<Rightarrow> bool" where
  "same_result x y \<longleftrightarrow> (\<exists>c. x = Inr c \<and> y = Inr c) \<or> (\<exists>e e'. x = Inl e \<and> y = Inl e')"

definition sendable :: "Cell \<Rightarrow> bool" where
  "sendable c \<longleftrightarrow> length (Body c) = CellBodyMax \<and> canon_cell c = c"

lemma sendable_mkCell [simp]: "n = length src \<Longrightarrow> length src \<le> CellBodyMax \<Longrightarrow> sendable (mkCell cid cmd n src)"
  by (simp add: sendable_def)

definition same_circuit :: "('a \<Rightarrow> 'b \<Rightarrow> bool) \<Rightarrow> 'a ClientCircuit \<Rightarrow> 'b ClientCircuit \<Rightarrow> bool" where
  "same_circuit R c c' \<longleftrightarrow> cl_CircID c = cl_CircID c' \<and> cl_Keys c = cl_Keys c' \<and> cl_built c = cl_built c' \<and> R (cl_Conn c) (cl_Conn c')"

definition same_build ::
  "('a \<Rightarrow> 'b \<Rightarrow> bool) \<Rightarrow> client_error \<times> 'a + 'a ClientCircuit \<Rightarrow> client_error \<times> 'b + 'b ClientCircuit \<Rightarrow> bool" where
  "same_build R = rel_sum (rel_prod (=) R) (same_circuit R)"

locale transport_refines =
  fixes tr :: "'a transport" and tr' :: "'b transport" and R :: "'a \<Rightarrow> 'b \<Rightarrow> bool"
  assumes send_refines: "R n n' \<Longrightarrow> sendable c \<Longrightarrow> R (tr_send tr c n) (tr_send tr' c n')"
    and recv_refines: "R n n' \<Longrightarrow> rel_prod same_result R (tr_recv tr n) (tr_recv tr' n')"
    and close_refines: "R n n' \<Longrightarrow> R (tr_close tr n) (tr_close tr' n')"
begin

lemma recv_cases:
  assumes "R n n'"
  obtains c m m' where "tr_recv tr n = (Inr c, m)" "tr_recv tr' n' = (Inr c, m')" "R m m'"
  | e e' m m' where "tr_recv tr n = (Inl e, m)" "tr_recv tr' n' = (Inl e', m')" "R m m'"
  using recv_refines [OF assms] by (cases "tr_recv tr n"; cases "tr_recv tr' n'") (auto simp: same_result_def)

lemma extendCircuit_refines:
  assumes "same_circuit R c c'"
  shows "rel_prod (=) (same_circuit R) (extendCircuit tr sm aes rnds r i c) (extendCircuit tr' sm aes rnds r i c')"
proof -
  obtain priv pub where g: "GenKeyPair sm (rnds 0) = (priv, pub)" by fastforce
  show ?thesis
  proof (cases "wrap_layers (Encrypt aes) (\<lambda>i. rnds (Suc i)) (take i (cl_Keys c)) (extend_payload (relay_addr r) pub)")
    case (Inl e)
    with assms g show ?thesis by (simp add: extendCircuit_def same_circuit_def)
  next
    case (Inr w)
    show ?thesis
    proof (cases "length w > CellBodyMax")
      case True
      with assms g Inr show ?thesis by (simp add: extendCircuit_def same_circuit_def)
    next
      case False
      then have "R (tr_send tr (mkCell (cl_CircID c) CmdExtend (length w) w) (cl_Conn c))
          (tr_send tr' (mkCell (cl_CircID c) CmdExtend (length w) w) (cl_Conn c'))"
        using assms by (intro send_refines) (simp_all add: same_circuit_def)
      then show ?thesis
        by (cases rule: recv_cases) (use assms g Inr False in \<open>auto simp: extendCircuit_def same_circuit_def Let_def\<close>)
    qed
  qed
qed

lemma extend_cases:
  assumes "same_circuit R c c'"
  obtains e d d' where "extendCircuit tr sm aes rnds r i c = (e, d)" "extendCircuit tr' sm aes rnds r i c' = (e, d')" "same_circuit R d d'"
  using extendCircuit_refines [OF assms, of sm aes rnds r i]
  by (cases "extendCircuit tr sm aes rnds r i c"; cases "extendCircuit tr' sm aes rnds r i c'") auto

lemma close_circuit_conn: "same_circuit R c c' \<Longrightarrow> R (tr_close tr (cl_Conn c)) (tr_close tr' (cl_Conn c'))"
  by (simp add: same_circuit_def close_refines)

lemma telescope_refines:
  assumes "same_circuit R c c'"
  shows "same_build R
     (case extendCircuit tr sm aes (rnds 1) m 1 c of (Some e, c1) \<Rightarrow> Inl (e, tr_close tr (cl_Conn c1))
      | (None, c1) \<Rightarrow> (case extendCircuit tr sm aes (rnds 2) x 2 c1 of (Some e, c2) \<Rightarrow> Inl (e, tr_close tr (cl_Conn c2)) | (None, c2) \<Rightarrow> Inr c2))
     (case extendCircuit tr' sm aes (rnds 1) m 1 c' of (Some e, c1) \<Rightarrow> Inl (e, tr_close tr' (cl_Conn c1))
      | (None, c1) \<Rightarrow> (case extendCircuit tr' sm aes (rnds 2) x 2 c1 of (Some e, c2) \<Rightarrow> Inl (e, tr_close tr' (cl_Conn c2)) | (None, c2) \<Rightarrow> Inr c2))"
proof -
  obtain e1 d1 d1' where 1: "extendCircuit tr sm aes (rnds 1) m 1 c = (e1, d1)" "extendCircuit tr' sm aes (rnds 1) m 1 c' = (e1, d1')"
    "same_circuit R d1 d1'" using extend_cases [OF assms] .
  obtain e2 d2 d2' where 2: "extendCircuit tr sm aes (rnds 2) x 2 d1 = (e2, d2)" "extendCircuit tr' sm aes (rnds 2) x 2 d1' = (e2, d2')"
    "same_circuit R d2 d2'" using extend_cases [OF 1(3)] .
  show ?thesis using 1 2 close_circuit_conn [OF 1(3)] close_circuit_conn [OF 2(3)] by (cases e1; cases e2) (simp_all add: same_build_def)
qed

lemma buildCircuitOnConn_refines:
  assumes "R n n'" "x25519_ok sm"
  shows "same_build R (buildCircuitOnConn tr sm aes rnds now n cid m x) (buildCircuitOnConn tr' sm aes rnds now n' cid m x)"
proof (cases "\<exists>mr xr. m = Some mr \<and> x = Some xr")
  case True
  then obtain mr xr where mx: "m = Some mr" "x = Some xr" by blast
  obtain priv pub where g: "GenKeyPair sm (rnds 0 0) = (priv, pub)" by fastforce
  then have "length pub = 32" using assms(2) length_GenKeyPair [OF g] by (simp add: x25519_ok_def ScalarBaseMult_def)
  then have "R (tr_send tr (mkCell cid CmdCreate 32 pub) n) (tr_send tr' (mkCell cid CmdCreate 32 pub) n')"
    using assms(1) by (intro send_refines) simp_all
  then show ?thesis
  proof (cases rule: recv_cases)
    case (1 c p p')
    let ?c0 = "\<lambda>q. \<lparr>cl_CircID = cid, cl_Conn = q, cl_Keys = [DeriveKey sm priv (take 32 (Body c)), [], []], cl_built = now\<rparr>"
    have "same_circuit R (?c0 p) (?c0 p')" using 1(3) by (simp add: same_circuit_def)
    from telescope_refines [OF this, where sm = sm and aes = aes and rnds = rnds and m = mr and x = xr] show ?thesis
      using 1 close_refines [OF 1(3)] g mx by (simp add: buildCircuitOnConn_def same_build_def Let_def)
  next
    case (2 e e' p p')
    then show ?thesis using close_refines [OF 2(3)] g mx by (simp add: buildCircuitOnConn_def same_build_def Let_def)
  qed
next
  case False
  then show ?thesis using close_refines [OF assms(1)] by (auto simp: buildCircuitOnConn_def same_build_def split: option.splits)
qed

lemma response_loop_refines:
  "R n n' \<Longrightarrow> rel_prod (=) R (response_loop tr aes keys ctx fuel acc n) (response_loop tr' aes keys ctx fuel acc n')"
proof (induction fuel arbitrary: ctx acc n n')
  case (Suc fuel)
  from Suc.prems show ?case
    by (cases rule: recv_cases) (use Suc in \<open>auto split: sum.splits\<close>)
qed simp

lemma sendRequest_refines:
  assumes "same_circuit R c c'"
  shows "rel_prod (=) (same_circuit R) (sendRequest tr aes rnds ctx fuel host port req c) (sendRequest tr' aes rnds ctx fuel host port req c')"
proof (cases "wrap_layers (Encrypt aes) rnds (cl_Keys c) (request_payload host port req)")
  case (Inl e)
  with assms show ?thesis by (simp add: sendRequest_def same_circuit_def)
next
  case (Inr w)
  show ?thesis
  proof (cases "length w > CellBodyMax")
    case False
    let ?cell = "mkCell (cl_CircID c) CmdRelay (length w) w"
    have "R (tr_send tr ?cell (cl_Conn c)) (tr_send tr' ?cell (cl_Conn c'))"
      using assms False by (intro send_refines) (simp_all add: same_circuit_def)
    from response_loop_refines [OF this, of aes "cl_Keys c" ctx fuel "[]"] assms Inr False show ?thesis
      by (auto simp: sendRequest_def same_circuit_def writeCell_def Let_def rel_prod_sel split: prod.splits)
  qed (use assms Inr in \<open>simp add: sendRequest_def same_circuit_def\<close>)
qed

end

section \<open>The tunnel through a volunteer\<close>

fun chunk_by :: "nat list \<Rightarrow> bytes \<Rightarrow> bytes list" where
  \<comment> \<open>a byte stream cut into reads of the given sizes; the last one takes what is left\<close>
  "chunk_by [] bs = [bs]"
| "chunk_by (n # ns) bs = take n bs # chunk_by ns (drop n bs)"

lemma concat_chunk_by [simp]: "concat (chunk_by ns bs) = bs"
  by (induction ns bs rule: chunk_by.induct) auto

record tunnel =
  tu_conn :: rtc_conn           \<comment> \<open>the client's end of the datachannel\<close>
  tu_hops :: "hop list"         \<comment> \<open>the relays behind the volunteer\<close>

text \<open>
  \<^verbatim>\<open>pipe\<close> with both directions drained. \<open>sizes\<close> gives the sizes of the reads \<^verbatim>\<open>io.Copy\<close> makes from the relay; each read
  becomes one message to the client.
\<close>

definition pipe_up :: "bytes list \<Rightarrow> bytes" where
  "pipe_up msgs = concat msgs"

definition pipe_down :: "(bytes \<Rightarrow> nat list) \<Rightarrow> bytes \<Rightarrow> bytes list" where
  "pipe_down sizes bs = chunk_by (sizes bs) bs"

lemma pipe_drained:
  assumes "pipe_step\<^sup>*\<^sup>* (pipe_start (pipe_up msgs) B) p" "pi_aOpen p" "pi_bOpen p" "pi_aIn p = []" "pi_bIn p = []"
  shows "pi_bOut p = pipe_up msgs \<and> pi_aOut p = pipe_up (pipe_down sizes B)"
  using pipe_inv [OF assms(1)] assms(2-5) by (auto simp: pipe_up_def pipe_down_def)

definition tunnel_send :: "byte \<times> (nat \<Rightarrow> byte) \<Rightarrow> (bytes \<Rightarrow> nat list) \<Rightarrow> Cell \<Rightarrow> tunnel \<Rightarrow> tunnel" where
  \<comment> \<open>\<^verbatim>\<open>WriteCell\<close> to the datachannel; the volunteer writes the message to the entry relay, which reads it as cells; the bytes
      the entry relay writes come back as messages\<close>
  "tunnel_send pad sizes c t =
     (let conn = snd (WriteCell (Conn_Write (\<lambda>_. True)) (fst pad) (snd pad) (tu_conn t) c);
          bs = pipe_up (wc_sent conn);
          cells = fst (read_cells (length bs) tcp_readFull bs);
          (up, hs) = deliver_seq (deliver (length (tu_hops t))) (tu_hops t) cells;
          rd = wc_conn conn
      in \<lparr>tu_conn = conn\<lparr>wc_sent := [], wc_conn := rd\<lparr>cn_dc := cn_dc rd @ pipe_down sizes (marshal_all pad up)\<rparr>\<rparr>, tu_hops = hs\<rparr>)"

definition tunnel_recv :: "tunnel \<Rightarrow> (cell_error + Cell) \<times> tunnel" where
  "tunnel_recv t =
     (case ReadCell conn_readFull (wc_conn (tu_conn t)) of
        (r, rd) \<Rightarrow> (r, t\<lparr>tu_conn := (tu_conn t)\<lparr>wc_conn := rd\<rparr>\<rparr>))"

definition tunnel_transport :: "byte \<times> (nat \<Rightarrow> byte) \<Rightarrow> (bytes \<Rightarrow> nat list) \<Rightarrow> tunnel transport" where
  "tunnel_transport pad sizes = \<lparr>tr_send = tunnel_send pad sizes, tr_recv = tunnel_recv, tr_close = (\<lambda>t. t)\<rparr>"

definition tunnel_start :: "hop list \<Rightarrow> tunnel" where
  "tunnel_start hs = \<lparr>tu_conn = rtc_new [], tu_hops = hs\<rparr>"

definition tunnel_rel :: "byte \<times> (nat \<Rightarrow> byte) \<Rightarrow> tunnel \<Rightarrow> net \<Rightarrow> bool" where
  \<comment> \<open>the unread bytes of the datachannel are the cells that the relays have sent\<close>
  "tunnel_rel pad t n \<longleftrightarrow> tu_hops t = fst n \<and> wc_sent (tu_conn t) = [] \<and> wc_dcOpen (tu_conn t) \<and>
     conn_view (wc_conn (tu_conn t)) = marshal_all pad (snd n) \<and> list_all sendable (snd n)"

lemma ReadCell_sendable: "ReadCell tcp_readFull bs = (Inr c, bs') \<Longrightarrow> sendable c"
proof -
  assume r: "ReadCell tcp_readFull bs = (Inr c, bs')"
  then obtain frame where "UnmarshalCell frame = Inr c"
    by (auto simp: ReadCell_def Let_def split: prod.splits sum.splits if_splits)
  then show ?thesis using tcp.ReadCell_result_wf [OF r] UnmarshalCell_canon by (simp add: sendable_def wf_cell_def)
qed

lemma read_cells_sendable: "list_all sendable (fst (read_cells fuel tcp_readFull bs))"
proof (induction fuel arbitrary: bs)
  case (Suc fuel)
  obtain r bs' where r: "ReadCell tcp_readFull bs = (r, bs')" by fastforce
  then show ?case using Suc [of bs'] by (cases r) (auto dest: ReadCell_sendable split: prod.splits)
qed simp

lemma over_wire_sendable [simp]: "list_all sendable (over_wire pad cs)"
  unfolding over_wire_def by (rule read_cells_sendable)

lemma deliver_sendable: "list_all sendable (fst (deliver n hs c))"
  by (cases "(n, hs, c)" rule: deliver.cases)
     (auto simp: deliver.simps Let_def split: option.splits sum.splits prod.splits)

lemma marshal_all_append: "marshal_all pad (xs @ ys) = marshal_all pad xs @ marshal_all pad ys"
  by (simp add: marshal_all_def)

lemma read_sent_cell:
  assumes "sendable c" "bs = MarshalCell r rnd c"
  shows "fst (read_cells (length bs) tcp_readFull bs) = [c]"
proof -
  have "length bs > 1" using assms by (simp add: sendable_def length_MarshalCell)
  then show ?thesis
    using tcp.read_cells_all [of "[(r, rnd, c)]" bs "length bs"] assms by (auto simp: sendable_def)
qed

lemma tunnel_send_refines:
  assumes "tunnel_rel pad t n" "sendable c"
  shows "tunnel_rel pad (tunnel_send pad sizes c t) (net_send c n)"
proof -
  obtain hs q where n: "n = (hs, q)" by fastforce
  obtain up hs' where d: "deliver (length hs) hs c = (up, hs')" by fastforce
  have up: "list_all sendable up" using deliver_sendable [of "length hs" hs c] d by simp
  have w: "WriteCell (Conn_Write (\<lambda>_. True)) (fst pad) (snd pad) (tu_conn t) c =
      (None, (tu_conn t)\<lparr>wc_sent := [MarshalCell (fst pad) (snd pad) c]\<rparr>)"
    using assms(1) by (simp add: WriteCell_def Conn_Write_def tunnel_rel_def)
  show ?thesis
    using assms n d up read_sent_cell [OF assms(2) refl, of "fst pad" "snd pad"]
    by (simp add: tunnel_rel_def tunnel_send_def net_send_def w pipe_up_def pipe_down_def conn_view_def marshal_all_append Let_def)
qed

lemma tunnel_recv_refines:
  assumes "tunnel_rel pad t n"
  shows "rel_prod same_result (tunnel_rel pad) (tunnel_recv t) (net_recv n)"
proof (cases n)
  case (Pair hs q)
  show ?thesis
  proof (cases q)
    case Nil
    then have v: "conn_view (wc_conn (tu_conn t)) = []" using assms Pair by (simp add: tunnel_rel_def marshal_all_def)
    obtain rd where "ReadCell conn_readFull (wc_conn (tu_conn t)) = (fst (ReadCell tcp_readFull []), rd)"
      "conn_view rd = snd (ReadCell tcp_readFull [])" using ReadCell_conn_tcp [of "wc_conn (tu_conn t)"] v by auto
    with assms Pair Nil show ?thesis
      by (auto simp: tunnel_recv_def net_recv_def tunnel_rel_def same_result_def marshal_all_def ReadCell_def tcp_readFull_def)
  next
    case (Cons c q')
    then have v: "conn_view (wc_conn (tu_conn t)) = MarshalCell (fst pad) (snd pad) c @ marshal_all pad q'" and s: "sendable c"
      using assms Pair by (simp_all add: tunnel_rel_def marshal_all_def)
    obtain rd where "ReadCell conn_readFull (wc_conn (tu_conn t)) = (Inr c, rd)" "conn_view rd = marshal_all pad q'"
      using dc.ReadCell_MarshalCell [OF _ v] s by (auto simp: sendable_def)
    with assms Pair Cons show ?thesis by (simp add: tunnel_recv_def net_recv_def tunnel_rel_def same_result_def)
  qed
qed

interpretation tunnel: transport_refines "tunnel_transport pad sizes" net_transport "tunnel_rel pad"
  by unfold_locales (simp_all add: tunnel_transport_def net_transport_def tunnel_send_refines tunnel_recv_refines)

text \<open>
  C3: Kind mode carries requests end to end. Behind a volunteer whose pipe copies bytes, with any padding and however the
  bytes are cut into messages, the client builds a circuit through three relays running this code, and a
  request over it returns, without error, exactly the bytes the exit read from the origin.
\<close>

theorem kind_mode_end_to_end:
  assumes honest: "honest_hop sm aes e" "honest_hop sm aes m" "honest_hop sm aes x" and sm: "x25519_ok sm"
    and addr: "hop_addr m = relay_addr middle" "hop_addr x = relay_addr exitR"
      "length (relay_addr middle) < 256" "length (relay_addr exitR) < 256"
    and roles: "rc_Role (rs_cfg (hop_srv e)) \<noteq> ''exit''" "rc_Role (rs_cfg (hop_srv m)) \<noteq> ''exit''"
      "rc_Role (rs_cfg (hop_srv x)) = ''exit''"
    and size: "length host + length req \<le> 417"
    and ex: "resolveHost (hop_exit x) (rs_cfg (hop_srv x)) host = ip" "ip \<noteq> []"
      "ee_dial (hop_exit x) (JoinHostPort ip (dec_nat (unat port))) = Inr origin" "origin req = (False, reads)"
    and time: "length reads < n" "\<forall>i. \<not> ctx i"
  shows "\<exists>circ circ'. buildCircuitOnConn (tunnel_transport pad sizes) sm aes rnds now (tunnel_start [e, m, x]) cid (Some middle) (Some exitR) = Inr circ \<and>
     sendRequest (tunnel_transport pad sizes) aes rnds' ctx n host port req circ = ((origin_data reads, None), circ')"
proof -
  obtain keys e' m' x' where b: "buildCircuitOnConn net_transport sm aes rnds now ([e, m, x], []) cid (Some middle) (Some exitR) =
      Inr \<lparr>cl_CircID = cid, cl_Conn = ([e', m', x'], []), cl_Keys = keys, cl_built = now\<rparr>" (is "_ = Inr ?c")
    and ready: "circuit_ready [e, m, x] cid keys [e', m', x']"
    using net_buildCircuit [OF honest sm addr, of rnds now cid] by (auto simp: circuit_ready_def)
  have same: "same_node e e'" "same_node m m'" "same_node x x'" using ready by (auto simp: circuit_ready_def)
  note sel = same_node_sel [OF same(1)] same_node_sel [OF same(2)] same_node_sel [OF same(3)]
  have honest': "honest_hop sm aes e'" "honest_hop sm aes m'" "honest_hop sm aes x'"
    and roles': "rc_Role (rs_cfg (hop_srv e')) \<noteq> ''exit''" "rc_Role (rs_cfg (hop_srv m')) \<noteq> ''exit''"
      "rc_Role (rs_cfg (hop_srv x')) = ''exit''"
    and ex': "resolveHost (hop_exit x') (rs_cfg (hop_srv x')) host = ip"
      "ee_dial (hop_exit x') (JoinHostPort ip (dec_nat (unat port))) = Inr origin"
    using honest roles ex by (simp_all add: sel)
  obtain hs' where s: "sendRequest net_transport aes rnds' ctx n host port req ?c = ((origin_data reads, None), ?c\<lparr>cl_Conn := (hs', [])\<rparr>)"
    using net_sendRequest [OF honest' ready roles' refl size ex'(1) ex(2) ex'(2), of reads n ctx rnds' now] ex(4) time by blast
  have "tunnel_rel pad (tunnel_start [e, m, x]) ([e, m, x], [])"
    by (simp add: tunnel_rel_def tunnel_start_def rtc_new_def newConn_def conn_view_def marshal_all_def)
  from tunnel.buildCircuitOnConn_refines [OF this sm, of sizes aes rnds now cid "Some middle" "Some exitR"]
  obtain c where c: "buildCircuitOnConn (tunnel_transport pad sizes) sm aes rnds now (tunnel_start [e, m, x]) cid (Some middle) (Some exitR) = Inr c"
    "same_circuit (tunnel_rel pad) c ?c"
    unfolding b same_build_def by (auto elim: rel_sum.cases)
  show ?thesis
    using c(1) tunnel.sendRequest_refines [OF c(2), of sizes aes rnds' ctx n host port req] s
    by (cases "sendRequest (tunnel_transport pad sizes) aes rnds' ctx n host port req c") auto
qed

theorem kind_mode_end_to_end_witness:
  "\<exists>circ circ'. buildCircuitOnConn (tunnel_transport (3, \<lambda>_. 5) (\<lambda>_. [1, 7, 100])) sample_sm (re_aes sample_env) (\<lambda>h l i. of_nat (h + l + i)) 0
      (tunnel_start sample_net) 42 (Some sample_entry) (Some sample_relay) = Inr circ \<and>
     sendRequest (tunnel_transport (3, \<lambda>_. 5) (\<lambda>_. [1, 7, 100])) (re_aes sample_env) (\<lambda>_ _. 9) (\<lambda>_. False) 3 ''example'' 80 (bytes_of ''GET /'') circ =
      ((bytes_of ''GET /'' @ [33], None), circ')"
proof -
  have rd: "origin_data [(bytes_of ''GET /'', False), ([33], True)] = bytes_of ''GET /'' @ [33]"
    by (simp add: bytes_of_def)
  show ?thesis unfolding rd [symmetric]
    by (rule kind_mode_end_to_end [OF sample_hop_honest sample_hop_honest sample_hop_honest sample_sm_ok, where ip = "''1.2.3.4''"
          and origin = "\<lambda>req. (False, [(req, False), ([33], True)])"])
       (simp_all add: sample_addr_short, simp_all add: sample_hop_def resolveHost_def HasSuffix_def)
qed

end
