(* ===== verification/Spec2Isabelle.thy ===== *)
theory Spec2Isabelle
  imports Relay_Run Relay_Locks Directory_Spec Shutdown Kind_Tunnel
begin

text \<open>
  Verification development for SbNet, an onion-routing network written in Go: a client with local
  SOCKS5 and HTTP proxies builds circuits through three relays (entry, middle, exit); a directory
  authority publishes a signed consensus of relays and brokers; brokers assign relays and match clients
  with WebRTC volunteers; bridges let clients of one network enter another.

  \<^bold>\<open>The parts and their theories.\<close> Each theory models one file or component under \<^verbatim>\<open>src/\<close>, in the order of its
  code, keeps the names of the source where possible and prefixes record fields with a short tag.

  \<^item> \<^verbatim>\<open>Prelude\<close>: bytes, big-endian encodings, slices and copies, decimal and hex text, Go's \<^verbatim>\<open>int64\<close>; shared lemmas.
  \<^item> \<^verbatim>\<open>Cell\<close>, \<^verbatim>\<open>Fragment\<close>, \<^verbatim>\<open>Cell_Crypto\<close> (\<^verbatim>\<open>common/cell.go\<close>): the cell format, fragmentation, layered encryption and
    key agreement. \<^verbatim>\<open>Go_Crypto\<close> holds SHA-256, HMAC and GCM; AES and X25519 are parameters.
  \<^item> \<^verbatim>\<open>Obfs\<close>, \<^verbatim>\<open>Replay\<close>, \<^verbatim>\<open>Config\<close>, \<^verbatim>\<open>Keys\<close>, \<^verbatim>\<open>Consensus\<close> (the other files of \<^verbatim>\<open>common/\<close>): preambles, replay
    filter and idle tracker, shared types and configuration, key files, the verified consensus fetch.
    \<^verbatim>\<open>Float64\<close> is double precision as far as rates and scores need it.
  \<^item> \<^verbatim>\<open>Directory\<close>, \<^verbatim>\<open>Directory_Spec\<close> (\<^verbatim>\<open>directory/main.go\<close>): rate limits, HMAC registration, gossip, consensus; the abstract log of
    accepted descriptors that the tables refine.
  \<^item> \<^verbatim>\<open>Relay\<close>, \<^verbatim>\<open>Relay_Run\<close>, \<^verbatim>\<open>Relay_Locks\<close> (\<^verbatim>\<open>relay/main.go\<close>): every cell command, reassembly, backward forwarding, exit requests, idle
    teardown; the process with its accept loop and interleaved goroutines; the handlers at the granularity of their locks.
  \<^item> \<^verbatim>\<open>Client_Circuit\<close>, \<^verbatim>\<open>Client_Pool\<close>, \<^verbatim>\<open>Client_Shared\<close>, \<^verbatim>\<open>Client_Proxy\<close> (\<^verbatim>\<open>client/main.go\<close>): relay choice and guard, telescoping build
    and requests; the pool with its three build modes and retry; concurrent requests on one circuit and concurrent use of the
    pool; the SOCKS5 and HTTP proxies and the background start-up.
  \<^item> \<^verbatim>\<open>Network\<close>: three relay models in a chain as the transport of the client model; cells cross each link
    as bytes through the real marshalling code.
  \<^item> \<^verbatim>\<open>Bridge\<close> (\<^verbatim>\<open>bridge/main.go\<close> and the bridge part of the client), \<^verbatim>\<open>Broker\<close> and \<^verbatim>\<open>Broker_Kind\<close> (\<^verbatim>\<open>broker/\<close>),
    \<^verbatim>\<open>WebRTC\<close> and \<^verbatim>\<open>WebRTC_Conn\<close> (\<^verbatim>\<open>webrtcx/conn.go\<close>), \<^verbatim>\<open>Kind\<close> (\<^verbatim>\<open>kind/main.go\<close>); \<^verbatim>\<open>Kind_Session\<close> composes client dialer,
    rendezvous and volunteer, \<^verbatim>\<open>Kind_Tunnel\<close> the circuit code over the resulting datachannel.
  \<^item> \<^verbatim>\<open>Server\<close>, \<^verbatim>\<open>Startup\<close>, \<^verbatim>\<open>Shutdown\<close>: the accept loop that relay, bridge and SOCKS5 proxy share, and the \<^verbatim>\<open>main\<close> functions: configuration
    files, fatal errors, servers and routes, the bridge process, what the client closes at the end; what each process does after a signal.

  \<^bold>\<open>How state and effects are modelled.\<close> A struct is a record, a handler a function from the state (and the
  decoded request) to response, outgoing events and new state; errors are values of a sum or option type, and
  panics that the code can reach are values of \<open>go_panic\<close>. Clock readings, random bytes, map iteration orders,
  network calls and third-party packages are arguments. Where goroutines share objects (the rendezvous, the volunteer's
  result channel, the byte pipe, the relay's connections, a circuit, the pool, the accept loops) the model is an
  inductive step relation whose steps are the atomic actions of the source; elsewhere one handler is one step. For the relay both views
  exist: \<^verbatim>\<open>Relay\<close> has atomic handlers, \<^verbatim>\<open>Relay_Locks\<close> a heap of circuits behind pointers and one step per critical section.

  \<^bold>\<open>Interfaces.\<close> \<open>byte_reader\<close> is the stream the cell reader needs, interpreted on TCP and on the WebRTC connection;
  \<open>stamped_store\<close> is a purged store of time stamps, interpreted on the replay filter, the idle tracker and the
  broker's tokens; \<open>hop_cipher\<close> is authenticated encryption as the onion layers use it, interpreted on the GCM
  model; \<open>defaulting\<close> is the contract of the six \<^verbatim>\<open>ApplyDefaults\<close> methods; \<open>accepting\<close> is a process around an accept
  loop, interpreted on the relay, the bridge and the bare loop of the SOCKS5 proxy; \<open>transport_refines\<close> relates two transports of the client
  code that answer alike, interpreted on the volunteer's tunnel and the chain of relays.

  \<^bold>\<open>What is proved.\<close> End to end: a circuit build over three relays succeeds and agrees on the keys, and a SOCKS5
  request returns exactly the origin's bytes, also through the tunnel of a volunteer. Relays: no panic on hostile cells, one layer removed or added per hop, a
  state invariant, exact idle teardown; under every interleaving the goroutines refine the atomic handlers and write
  only well-formed cells; runs of critical sections in which no two handlers overlap are exactly the runs of the atomic
  handlers. Formats: round trips and reassembly in any order. Directory: the tables refine the log of
  accepted requests, authentication, convergence of gossip, an honest consensus is accepted. Brokers: exact token
  lifetime, selection of a relay of maximal score, safety of the rendezvous; a client, the broker and a volunteer
  reach a tunnel, and an answer belongs to the client's own offer. Transports and volunteers: a datachannel equals TCP for
  the cell reader and carries cells unchanged, volunteers only dial verified entry relays. Bridge: the foreign network is
  only reached with the token and through signed relays. Servers: no connection after the listener is closed, exit within the grace period with exactly the requests done by then
  answered. Client: pinned guard.
  Several theorems state defects precisely: no replay protection, an endless loop at fragment index 65535, a preamble length
  that wraps, consensus fields outside the signature, registrations that can be replayed, bridge mode that delivers
  nothing, a timer that closes live tunnels, dead offers that block the rendezvous, truncated SOCKS5 requests that are
  confirmed, responses that reach the wrong request, circuits the pool loses, circuit ids that any connection can take over, circuits and
  connections that overlapping handlers of a relay lose, long polls that a shutdown cuts.

  \<^bold>\<open>Bounds and fuel.\<close> \<open>read_cells\<close> takes fuel: every cell takes at least nine bytes of its stream, so the callers pass
  the stream length or the number of cells. \<open>Add\<close> returns no value exactly when the loop of the source does not end.
  \<open>response_loop\<close> takes the number of reads before the deadline. \<open>deliver\<close> takes the number of hops. \<open>v6_loop\<close> runs at most
  eight rounds.

  \<^bold>\<open>Not modelled.\<close> The inside of \<^verbatim>\<open>net/http\<close> beyond routes, time limits and \<^verbatim>\<open>Shutdown\<close>, and TLS; the log calls of the
  components; the inside of AES, X25519, ed25519, JSON, YAML, uTLS, pion and the token bucket, which are parameters with their
  documented behaviour as hypotheses. The write-by-write process of \<^verbatim>\<open>Relay_Run\<close> keeps the handlers atomic, \<^verbatim>\<open>Relay_Locks\<close> leaves the
  forwarding and exit goroutines out, and the directory's handlers are not interleaved below the handler: each takes its
  lock once for the tables. Data races of the Go memory model (\<^verbatim>\<open>OutConn\<close> is read and written without a lock) are modelled
  as atomic reads and writes.
\<close>

section \<open>A request from the SOCKS5 port to the origin and back\<close>

lemma pool_send_ok:
  assumes "cp_circuits p \<noteq> []" "unat (cp_counter p) < 2 ^ 63"
    and i: "i = unat (cp_counter p) mod length (cp_circuits p)" and circ: "cp_circuits p ! i = circ"
    and "\<not> expired (se_now env) circ"
    and "sendRequest (se_tr env) (se_aes env) (se_rnds env 0) (se_ctx env 0) (se_deadline env 0) host port req circ =
      ((resp, None), circ')"
  shows "pool_send env host port req p fs =
     (Inr (resp, None), p\<lparr>cp_counter := cp_counter p + 1, cp_circuits := (cp_circuits p)[i := circ']\<rparr>, fs)"
proof -
  have idx: "go_rem (int64 (uint (cp_counter p))) (int (length (cp_circuits p))) = int i"
    unfolding uint_nat i by (rule counter_index_low [OF assms(2)])
  have "pool_get (se_tr env) (se_build env 0) (se_now env) p fs = (Inr (Inr (i, circ)), p\<lparr>cp_counter := cp_counter p + 1\<rparr>, fs)"
    using assms(1,5) idx circ by (simp add: pool_get_def Let_def)
  then show ?thesis using assms(6) by (simp add: pool_send_def)
qed

text \<open>
  C1: A request sent to the local SOCKS5 port comes back answered by the origin. Three relays run this code, the
  pool's next circuit is ready (as circuit_build_succeeds leaves it) and not expired, and the exit can resolve the
  target and connect. Then for every SOCKS5 CONNECT request followed by one chunk of data that
  fits into a cell, the handler writes the method and success replies and then exactly the bytes
  that the exit read from the origin in answer to that chunk, the origin being contacted
  under the host and port the SOCKS5 client asked for; the circuit is ready for the next request.
\<close>

theorem socks5_request_end_to_end:
  assumes honest: "honest_hop sm (se_aes env) e" "honest_hop sm (se_aes env) m" "honest_hop sm (se_aes env) x"
    and ready: "circuit_ready hs cid keys [e, m, x]"
    and roles: "rc_Role (rs_cfg (hop_srv e)) \<noteq> ''exit''" "rc_Role (rs_cfg (hop_srv m)) \<noteq> ''exit''"
      "rc_Role (rs_cfg (hop_srv x)) = ''exit''"
    and pool: "cp_circuits p \<noteq> []" "unat (cp_counter p) < 2 ^ 63" "isReady p"
      "i = unat (cp_counter p) mod length (cp_circuits p)" "cp_circuits p ! i = circ" "\<not> expired (se_now env) circ"
      "circ = \<lparr>cl_CircID = cid, cl_Conn = ([e, m, x], []), cl_Keys = keys, cl_built = t\<rparr>"
    and socks: "length methods < 256" "target_ok target" "reads_of data = [data]" "data \<noteq> []"
    and size: "length (target_host target) + length data \<le> 417"
    and ex: "resolveHost (hop_exit x) (rs_cfg (hop_srv x)) (target_host target) = ip" "ip \<noteq> []"
      "ee_dial (hop_exit x) (JoinHostPort ip (dec_nat (unat port))) = Inr origin" "origin data = (False, reads)"
    and env: "se_tr env = net_transport" "length reads < se_deadline env 0" "\<forall>j. \<not> se_ctx env 0 j"
  shows "\<exists>hs' p'. handleSOCKS5Conn (isReady p) (via_pool (\<lambda>_. env)) (\<lambda>_. True) reads_of
       (socks_request methods target port @ data) (p, fs) =
     ((None, [5, 0] @ socks_reply 0, [origin_data reads]), (p', fs)) \<and>
     cl_Conn (cp_circuits p' ! i) = (hs', []) \<and> circuit_ready [e, m, x] cid keys hs'"
proof -
  let ?host = "target_host target"
  obtain hs' where s: "sendRequest net_transport (se_aes env) (se_rnds env 0) (se_ctx env 0) (se_deadline env 0) ?host port data circ =
      ((origin_data reads, None), circ\<lparr>cl_Conn := (hs', [])\<rparr>)" and r: "circuit_ready [e, m, x] cid keys hs'"
    using net_sendRequest [OF honest ready roles pool(7) size ex env(2,3)] by blast
  let ?p = "p\<lparr>cp_counter := cp_counter p + 1, cp_circuits := (cp_circuits p)[i := circ\<lparr>cl_Conn := (hs', [])\<rparr>]\<rparr>"
  have send: "pool_send env ?host port data p fs = (Inr (origin_data reads, None), ?p, fs)"
    by (rule pool_send_ok [OF pool(1,2,4,5,6)]) (simp add: env(1) s)
  have "i < length (cp_circuits p)" using pool(1,4) by simp
  then have "cl_Conn (cp_circuits ?p ! i) = (hs', [])" by simp
  moreover have loop: "proxy_loop (via_pool (\<lambda>_. env) ?host port) (\<lambda>_. True) [data] (p, fs) = ((None, [origin_data reads]), (?p, fs))"
    using socks(4) send by (simp add: via_pool_def)
  have "handleSOCKS5Conn (isReady p) (via_pool (\<lambda>_. env)) (\<lambda>_. True) reads_of (socks_request methods target port @ data) (p, fs) =
     ((None, [5, 0] @ socks_reply 0, [origin_data reads]), (?p, fs))"
    by (simp only: handleSOCKS5Conn_def socks_handshake_request [OF socks(1,2)] socks_result.case socks(3) pool(3) loop
        not_True_eq_False if_False prod.case)
  ultimately show ?thesis using r by blast
qed

theorem socks5_request_end_to_end_witness:
  "\<exists>(env :: net send_env) p. snd (fst (handleSOCKS5Conn (isReady p) (via_pool (\<lambda>_. env)) (\<lambda>_. True) (\<lambda>bs. [bs])
       (socks_request [0] (Domain ''example'') 80 @ bytes_of ''GET /'') (p, Map.empty))) =
     ([5, 0] @ socks_reply 0, [bytes_of ''GET /'' @ [33]])"
proof -
  let ?k = "replicate 32 (7 :: byte)"
  let ?at = "\<lambda>h out. h\<lparr>hop_srv := (hop_srv h)\<lparr>rs_circuits := [42 \<mapsto> \<lparr>circ_ID = 42, circ_InConn = 0, circ_OutConn = out, circ_Key = ?k\<rparr>]\<rparr>\<rparr>"
  let ?e = "?at (sample_hop ''e'' ''entry'') (Some 2)" and ?m = "?at (sample_hop ''m'' ''middle'') (Some 2)"
    and ?x = "?at (sample_hop ''x'' ''exit'') None"
  let ?circ = "\<lparr>cl_CircID = 42, cl_Conn = ([?e, ?m, ?x], []), cl_Keys = [?k, ?k, ?k], cl_built = 0\<rparr> :: net ClientCircuit"
  let ?p = "(newCircuitPool sample_client_cfg)\<lparr>cp_circuits := [?circ], cp_ready := True\<rparr>"
  have "\<exists>env :: net send_env. se_tr env = net_transport \<and> se_aes env = re_aes sample_env \<and> se_ctx env = (\<lambda>_ _. False) \<and>
      se_deadline env = (\<lambda>_. 3) \<and> se_now env = 0"
    by (intro exI [of _ "\<lparr>se_tr = net_transport, se_aes = re_aes sample_env, se_rnds = (\<lambda>_ _ _. 9), se_ctx = (\<lambda>_ _. False),
          se_deadline = (\<lambda>_. 3), se_build = b, se_now = 0\<rparr>" for b]) simp
  then obtain env :: "net send_env" where env: "se_tr env = net_transport" "se_aes env = re_aes sample_env"
    "se_ctx env = (\<lambda>_ _. False)" "se_deadline env = (\<lambda>_. 3)" "se_now env = 0" by blast
  have hon: "honest_hop sample_sm (se_aes env) (?at (sample_hop a r) out)" for a r out
    using sample_hop_honest [of a r] env(2) by (simp add: honest_hop_def)
  have ready: "circuit_ready [?e, ?m, ?x] 42 [?k, ?k, ?k] [?e, ?m, ?x]"
    by (simp add: circuit_ready_def same_node_def circ_at_def)
  have rd: "origin_data [(bytes_of ''GET /'', False), ([33], True)] = bytes_of ''GET /'' @ [33]"
    by (simp add: bytes_of_def)
  have "\<exists>hs' p'. handleSOCKS5Conn (isReady ?p) (via_pool (\<lambda>_. env)) (\<lambda>_. True) (\<lambda>bs. [bs])
       (socks_request [0] (Domain ''example'') 80 @ bytes_of ''GET /'') (?p, Map.empty) =
     ((None, [5, 0] @ socks_reply 0, [origin_data [(bytes_of ''GET /'', False), ([33], True)]]), (p', Map.empty)) \<and>
     cl_Conn (cp_circuits p' ! 0) = (hs', []) \<and> circuit_ready [?e, ?m, ?x] 42 [?k, ?k, ?k] hs'"
    by (rule socks5_request_end_to_end [OF hon hon hon ready, where circ = ?circ and t = 0 and ip = "''1.2.3.4''"
          and origin = "\<lambda>req. (False, [(req, False), ([33], True)])"])
       (use env in \<open>simp_all add: sample_hop_def resolveHost_def HasSuffix_def isReady_def newCircuitPool_def expired_def
          circuitLifetime_def bytes_of_def\<close>)
  then obtain p' where h: "handleSOCKS5Conn (isReady ?p) (via_pool (\<lambda>_. env)) (\<lambda>_. True) (\<lambda>bs. [bs])
       (socks_request [0] (Domain ''example'') 80 @ bytes_of ''GET /'') (?p, Map.empty) =
     ((None, [5, 0] @ socks_reply 0, [bytes_of ''GET /'' @ [33]]), (p', Map.empty))"
    unfolding rd by blast
  show ?thesis by (intro exI [of _ env] exI [of _ ?p]) (simp only: h fst_conv snd_conv)
qed

section \<open>Shutdown of the servers\<close>



end
